(* ===== verification/Prelude.thy ===== *)
theory Prelude
  imports Main "HOL-Library.Word"
begin

unbundle bit_operations_syntax

text \<open>
  Shared vocabulary of the development.

  The tracer is C code for 32-bit ARM.  A function that touches memory, calls
  the operating system or may loop is an \<open>exec\<close>: a function from the process
  state to \<open>None\<close> (it never returns), \<open>Some (Inl f)\<close> (it dies with fault
  \<open>f\<close>, e.g. a null dereference) or \<open>Some (Inr (x, s'))\<close> (it returns \<open>x\<close>
  in state \<open>s'\<close>).  The theory gives the sequencing operators, a small
  calculus for what a computation keeps unchanged, and the pieces of C and of
  its string library the sources use: fixed-width wrap-around, decimal
  printing, \<open>snprintf\<close>, \<open>strncmp\<close> and \<open>strstr\<close>.
\<close>

section \<open>Computations\<close>

datatype fault = NullDeref | WildDeref | OutOfBounds | NullCall | WildCall | BadFree | Thrown

type_synonym ('s, 'a) exec = "'s \<Rightarrow> (fault + 'a \<times> 's) option"

definition ret :: "'a \<Rightarrow> ('s, 'a) exec" where
  "ret x = (\<lambda>s. Some (Inr (x, s)))"

definition crash :: "fault \<Rightarrow> ('s, 'a) exec" where
  "crash e = (\<lambda>s. Some (Inl e))"

definition gets :: "('s \<Rightarrow> 'a) \<Rightarrow> ('s, 'a) exec" where
  "gets f = (\<lambda>s. Some (Inr (f s, s)))"

definition modify :: "('s \<Rightarrow> 's) \<Rightarrow> ('s, unit) exec" where
  "modify f = (\<lambda>s. Some (Inr ((), f s)))"

definition bnd :: "('s, 'a) exec \<Rightarrow> ('a \<Rightarrow> ('s, 'b) exec) \<Rightarrow> ('s, 'b) exec" where
  "bnd m f = (\<lambda>s. case m s of
       None \<Rightarrow> None
     | Some (Inl e) \<Rightarrow> Some (Inl e)
     | Some (Inr (x, s')) \<Rightarrow> f x s')"

text \<open>\<open>andthen\<close> is the semicolon of C: the value of the first part is dropped.\<close>

definition andthen :: "('s, 'a) exec \<Rightarrow> ('s, 'b) exec \<Rightarrow> ('s, 'b) exec" where
  "andthen m k = bnd m (\<lambda>_. k)"

text \<open>An \<open>if\<close> without an \<open>else\<close> branch.\<close>

definition only_if :: "bool \<Rightarrow> ('s, unit) exec \<Rightarrow> ('s, unit) exec" where
  "only_if b m = (if b then m else ret ())"

lemmas exec_defs = ret_def crash_def gets_def modify_def bnd_def andthen_def only_if_def

lemma bnd_ret [simp]: "bnd (ret x) f = f x"
  by (simp add: exec_defs)

lemma bnd_ret_right [simp]: "bnd m ret = m"
  by (rule ext) (auto simp: exec_defs split: option.splits sum.splits)

lemma bnd_crash [simp]: "bnd (crash e) f = crash e"
  by (simp add: exec_defs)

lemma bnd_assoc: "bnd (bnd m f) g = bnd m (\<lambda>x. bnd (f x) g)"
  by (rule ext) (auto simp: bnd_def split: option.splits sum.splits)

lemma only_if_simps [simp]: "only_if True m = m" "only_if False m = ret ()"
  by (simp_all add: only_if_def)

lemma bnd_Some: "m s = Some (Inr (x, s')) \<Longrightarrow> bnd m f s = f x s'"
  by (simp add: bnd_def)

lemma bnd_gets: "bnd (gets f) k s = k (f s) s"
  by (simp add: bnd_def gets_def)

lemma bnd_None: "m s = None \<Longrightarrow> bnd m f s = None"
  by (simp add: bnd_def)

lemma bnd_fault: "m s = Some (Inl e) \<Longrightarrow> bnd m f s = Some (Inl e)"
  by (simp add: bnd_def)

lemma bndE:
  assumes "bnd m f s = Some (Inr (y, s''))"
  obtains x s' where "m s = Some (Inr (x, s'))" and "f x s' = Some (Inr (y, s''))"
  using assms by (auto simp: bnd_def split: option.splits sum.splits)

text \<open>One computation after the other over a list, with the list of their values.\<close>

primrec each :: "('a \<Rightarrow> ('s, 'b) exec) \<Rightarrow> 'a list \<Rightarrow> ('s, 'b list) exec" where
  "each f [] = ret []"
| "each f (x # xs) = bnd (f x) (\<lambda>y. bnd (each f xs) (\<lambda>ys. ret (y # ys)))"

lemma each_map: "each f (map g xs) = each (\<lambda>x. f (g x)) xs"
  by (induction xs) simp_all

text \<open>The rules \<^theory_text>\<open>partial_function\<close> needs to accept loops written with these operators.\<close>

lemma bnd_mono [partial_function_mono]:
  fixes B :: "('x \<Rightarrow> 'y option) \<Rightarrow> ('s, 'a) exec"
  assumes B: "\<And>s. mono_option (\<lambda>f. B f s)" and C: "\<And>y s. mono_option (\<lambda>f. C f y s)"
  shows "mono_option (\<lambda>f. bnd (B f) (C f) s)"
proof (rule monotoneI)
  fix f g :: "'x \<Rightarrow> 'y option"
  assume fg: "fun_ord option_ord f g"
  have B': "B f s = None \<or> B f s = B g s"
    using fg B [unfolded monotone_on_def] by (auto simp: flat_ord_def)
  have C': "C f y t = None \<or> C f y t = C g y t" for y t
    using fg C [unfolded monotone_on_def] by (auto simp: flat_ord_def)
  have "bnd (B f) (C f) s = None \<or> bnd (B f) (C f) s = bnd (B g) (C g) s"
    using B'
  proof
    assume "B f s = B g s"
    with C' show ?thesis
      by (cases "B g s") (auto simp: bnd_def split: sum.splits)
  qed (simp add: bnd_def)
  then show "option_ord (bnd (B f) (C f) s) (bnd (B g) (C g) s)"
    by (simp add: flat_ord_def)
qed

lemma andthen_mono [partial_function_mono]:
  fixes B :: "('x \<Rightarrow> 'y option) \<Rightarrow> ('s, 'a) exec"
  assumes "\<And>s. mono_option (\<lambda>f. B f s)" and "\<And>s. mono_option (\<lambda>f. C f s)"
  shows "mono_option (\<lambda>f. andthen (B f) (C f) s)"
  unfolding andthen_def using assms by (intro bnd_mono)

lemma if_app_mono [partial_function_mono]:
  "mono_option (\<lambda>f. P f s) \<Longrightarrow> mono_option (\<lambda>f. Q f s) \<Longrightarrow>
     mono_option (\<lambda>f. (if b then P f else Q f) s)"
  by (cases b) simp_all

section \<open>What a computation keeps\<close>

text \<open>
  \<open>valid P m Q\<close> is partial correctness over the returning runs of \<open>m\<close>;
  \<open>keeps f m\<close> says that a returning run leaves the observation \<open>f\<close> as it was.
\<close>

definition valid :: "('s \<Rightarrow> bool) \<Rightarrow> ('s, 'a) exec \<Rightarrow> ('a \<Rightarrow> 's \<Rightarrow> bool) \<Rightarrow> bool" where
  "valid P m Q \<longleftrightarrow> (\<forall>s x s'. P s \<longrightarrow> m s = Some (Inr (x, s')) \<longrightarrow> Q x s')"

definition keeps :: "('s \<Rightarrow> 'v) \<Rightarrow> ('s, 'a) exec \<Rightarrow> bool" where
  "keeps f m \<longleftrightarrow> (\<forall>s x s'. m s = Some (Inr (x, s')) \<longrightarrow> f s' = f s)"

named_theorems keep_rules \<open>rules that show what a computation leaves unchanged\<close>

lemma keepsD: "keeps f m \<Longrightarrow> m s = Some (Inr (x, s')) \<Longrightarrow> f s' = f s"
  by (auto simp: keeps_def)

lemma validD: "valid P m Q \<Longrightarrow> P s \<Longrightarrow> m s = Some (Inr (x, s')) \<Longrightarrow> Q x s'"
  by (auto simp: valid_def)

lemma keeps_ret [keep_rules]: "keeps f (ret x)"
  by (simp add: keeps_def ret_def)

lemma keeps_crash [keep_rules]: "keeps f (crash e)"
  by (simp add: keeps_def crash_def)

lemma keeps_gets [keep_rules]: "keeps f (gets g)"
  by (simp add: keeps_def gets_def)

lemma keeps_modify [keep_rules]: "(\<And>s. f (g s) = f s) \<Longrightarrow> keeps f (modify g)"
  by (simp add: keeps_def modify_def)

lemma keeps_bnd [keep_rules]: "keeps f m \<Longrightarrow> (\<And>x. keeps f (k x)) \<Longrightarrow> keeps f (bnd m k)"
  unfolding keeps_def by (metis bndE)

lemma keeps_andthen [keep_rules]: "keeps f m \<Longrightarrow> keeps f k \<Longrightarrow> keeps f (andthen m k)"
  unfolding andthen_def by (rule keeps_bnd)

lemma keeps_if [keep_rules]: "(b \<Longrightarrow> keeps f m) \<Longrightarrow> (\<not> b \<Longrightarrow> keeps f k) \<Longrightarrow> keeps f (if b then m else k)"
  by simp

lemma keeps_only_if [keep_rules]: "(b \<Longrightarrow> keeps f m) \<Longrightarrow> keeps f (only_if b m)"
  unfolding only_if_def by (rule keeps_if) (auto intro: keeps_ret)

lemma keeps_case_option [keep_rules]:
  "keeps f m \<Longrightarrow> (\<And>x. keeps f (k x)) \<Longrightarrow> keeps f (case v of None \<Rightarrow> m | Some x \<Rightarrow> k x)"
  by (cases v) simp_all

lemma keeps_case_prod [keep_rules]: "(\<And>x y. keeps f (k x y)) \<Longrightarrow> keeps f (case p of (x, y) \<Rightarrow> k x y)"
  by (cases p) simp

lemma keeps_let [keep_rules]: "(\<And>x. keeps f (k x)) \<Longrightarrow> keeps f (let x = v in k x)"
  by simp

lemma keeps_pair: "keeps f m \<Longrightarrow> keeps g m \<Longrightarrow> keeps (\<lambda>s. (f s, g s)) m"
  by (simp add: keeps_def)

lemma valid_keeps: "keeps f m \<Longrightarrow> valid (\<lambda>s. P (f s)) m (\<lambda>_ s. P (f s))"
  by (simp add: keeps_def valid_def)

lemma valid_bnd: "valid P m Q \<Longrightarrow> (\<And>x. valid (Q x) (k x) R) \<Longrightarrow> valid P (bnd m k) R"
  unfolding valid_def by (metis bndE)

text \<open>\<open>preserves I m\<close>: a returning run of \<open>m\<close> keeps the invariant \<open>I\<close>.\<close>

definition preserves :: "('s \<Rightarrow> bool) \<Rightarrow> ('s, 'a) exec \<Rightarrow> bool" where
  "preserves I m \<longleftrightarrow> valid I m (\<lambda>_. I)"

named_theorems pres_rules \<open>rules that show that a computation keeps an invariant\<close>

lemma preservesD: "preserves I m \<Longrightarrow> m s = Some (Inr (x, s')) \<Longrightarrow> I s \<Longrightarrow> I s'"
  by (auto simp: preserves_def valid_def)

lemma preservesI: "(\<And>s x s'. m s = Some (Inr (x, s')) \<Longrightarrow> I s \<Longrightarrow> I s') \<Longrightarrow> preserves I m"
  by (auto simp: preserves_def valid_def)

lemma preserves_keeps: "keeps f m \<Longrightarrow> preserves (\<lambda>s. P (f s)) m"
  unfolding preserves_def by (rule valid_keeps [of f])

lemma preserves_bnd [pres_rules]: "preserves I m \<Longrightarrow> (\<And>x. preserves I (k x)) \<Longrightarrow> preserves I (bnd m k)"
  unfolding preserves_def by (rule valid_bnd)

lemma preserves_andthen [pres_rules]: "preserves I m \<Longrightarrow> preserves I k \<Longrightarrow> preserves I (andthen m k)"
  unfolding andthen_def by (rule preserves_bnd)

lemma preserves_if [pres_rules]:
  "(b \<Longrightarrow> preserves I m) \<Longrightarrow> (\<not> b \<Longrightarrow> preserves I k) \<Longrightarrow> preserves I (if b then m else k)"
  by simp

lemma preserves_pure [pres_rules]:
  "preserves I (ret x)" "preserves I (gets f)" "preserves I (crash e)"
  by (simp_all add: preserves_def valid_def ret_def gets_def crash_def)

lemma preserves_only_if [pres_rules]: "(b \<Longrightarrow> preserves I m) \<Longrightarrow> preserves I (only_if b m)"
  unfolding only_if_def by (rule preserves_if) (auto intro: preserves_pure)

lemma preserves_modify [pres_rules]: "(\<And>s. I s \<Longrightarrow> I (f s)) \<Longrightarrow> preserves I (modify f)"
  by (simp add: preserves_def valid_def modify_def)

lemma preserves_case_option [pres_rules]:
  "preserves I m \<Longrightarrow> (\<And>x. preserves I (k x)) \<Longrightarrow> preserves I (case v of None \<Rightarrow> m | Some x \<Rightarrow> k x)"
  by (cases v) simp_all

lemma preserves_case_prod [pres_rules]:
  "(\<And>x y. preserves I (k x y)) \<Longrightarrow> preserves I (case p of (x, y) \<Rightarrow> k x y)"
  by (cases p) simp

lemma preserves_let [pres_rules]: "(\<And>x. preserves I (k x)) \<Longrightarrow> preserves I (let x = v in k x)"
  by simp

text \<open>For loops: what the rule of \<^theory_text>\<open>partial_function\<close> asks of a body, and gives.\<close>

lemma preserves_run:
  "bnd m k s = Some y \<Longrightarrow> preserves I m \<Longrightarrow> (\<And>x. preserves I (k x)) \<Longrightarrow>
     \<forall>x s'. y = Inr (x, s') \<longrightarrow> I s \<longrightarrow> I s'"
  using preservesD [OF preserves_bnd, of I m k s] by blast

lemma preserves_by_runs:
  "(\<And>s y. m s = Some y \<Longrightarrow> \<forall>x s'. y = Inr (x, s') \<longrightarrow> I s \<longrightarrow> I s') \<Longrightarrow> preserves I m"
  by (rule preservesI) blast

text \<open>
  \<open>inbounds P m Q\<close>: from a state with \<open>P\<close> the computation does not leave the bounds of an array,
  and where it returns \<open>Q\<close> holds; it may die of another fault or not return.  \<open>stays I m\<close> is the
  case of an invariant.
\<close>

definition inbounds :: "('s \<Rightarrow> bool) \<Rightarrow> ('s, 'a) exec \<Rightarrow> ('a \<Rightarrow> 's \<Rightarrow> bool) \<Rightarrow> bool" where
  "inbounds P m Q \<longleftrightarrow> (\<forall>s. P s \<longrightarrow> m s \<noteq> Some (Inl OutOfBounds) \<and> (\<forall>x s'. m s = Some (Inr (x, s')) \<longrightarrow> Q x s'))"

definition stays :: "('s \<Rightarrow> bool) \<Rightarrow> ('s, 'a) exec \<Rightarrow> bool" where
  "stays I m \<longleftrightarrow> inbounds I m (\<lambda>_. I)"

text \<open>The same of one outcome.\<close>

definition lands :: "('a \<Rightarrow> 's \<Rightarrow> bool) \<Rightarrow> fault + 'a \<times> 's \<Rightarrow> bool" where
  "lands Q y \<longleftrightarrow> (case y of Inl e \<Rightarrow> e \<noteq> OutOfBounds | Inr (x, s) \<Rightarrow> Q x s)"

lemma lands_simps [simp]: "lands Q (Inl e) = (e \<noteq> OutOfBounds)" "lands Q (Inr (x, s)) = Q x s"
  by (simp_all add: lands_def)

named_theorems bound_rules \<open>rules that show that a computation stays in bounds and keeps an invariant\<close>

lemma inbounds_lands: "inbounds P m Q \<longleftrightarrow> (\<forall>s y. P s \<longrightarrow> m s = Some y \<longrightarrow> lands Q y)"
  unfolding inbounds_def lands_def by (auto split: sum.splits)

lemma staysI: "(\<And>s y. I s \<Longrightarrow> m s = Some y \<Longrightarrow> lands (\<lambda>_. I) y) \<Longrightarrow> stays I m"
  by (auto simp: stays_def inbounds_lands)

lemma staysD: "stays I m \<Longrightarrow> I s \<Longrightarrow> m s = Some y \<Longrightarrow> lands (\<lambda>_. I) y"
  by (auto simp: stays_def inbounds_lands)

lemma inboundsD: "inbounds P m Q \<Longrightarrow> P s \<Longrightarrow> m s = Some y \<Longrightarrow> lands Q y"
  by (auto simp: inbounds_lands)

lemma inbounds_weaken: "inbounds P m Q \<Longrightarrow> (\<And>s. P' s \<Longrightarrow> P s) \<Longrightarrow> (\<And>x s. Q x s \<Longrightarrow> Q' x s) \<Longrightarrow> inbounds P' m Q'"
  unfolding inbounds_def by blast

lemma inbounds_bnd: "inbounds P m Q \<Longrightarrow> (\<And>x. inbounds (Q x) (k x) R) \<Longrightarrow> inbounds P (bnd m k) R"
  unfolding inbounds_def bnd_def by (fastforce split: option.splits sum.splits)

lemma inbounds_andthen: "inbounds P m (\<lambda>_. Q) \<Longrightarrow> inbounds Q k R \<Longrightarrow> inbounds P (andthen m k) R"
  unfolding andthen_def by (rule inbounds_bnd)

lemma inbounds_gets: "(\<And>x. inbounds (\<lambda>s. P s \<and> f s = x) (k x) Q) \<Longrightarrow> inbounds P (bnd (gets f) k) Q"
  by (auto simp: inbounds_def bnd_gets)

lemma inbounds_if: "(b \<Longrightarrow> inbounds P m Q) \<Longrightarrow> (\<not> b \<Longrightarrow> inbounds P k Q) \<Longrightarrow> inbounds P (if b then m else k) Q"
  by simp

lemma inbounds_ret: "(\<And>s. P s \<Longrightarrow> Q x s) \<Longrightarrow> inbounds P (ret x) Q"
  by (simp add: inbounds_def ret_def)

lemma inbounds_never: "(\<And>s. \<not> P s) \<Longrightarrow> inbounds P m Q"
  by (simp add: inbounds_def)

lemma inbounds_stays: "stays I m \<Longrightarrow> inbounds I m (\<lambda>_. I)"
  by (simp add: stays_def)

lemma stays_bnd [bound_rules]: "stays I m \<Longrightarrow> (\<And>x. stays I (k x)) \<Longrightarrow> stays I (bnd m k)"
  unfolding stays_def by (rule inbounds_bnd)

text \<open>For loops, as \<open>preserves_run\<close> above.\<close>

lemma stays_run:
  assumes "bnd m k s = Some y" and "stays I m" and "\<And>x. stays I (k x)" and "I s"
  shows "lands (\<lambda>_. I) y"
  using staysD [OF stays_bnd [OF assms(2,3)] assms(4,1)] .

lemma stays_andthen [bound_rules]: "stays I m \<Longrightarrow> stays I k \<Longrightarrow> stays I (andthen m k)"
  unfolding andthen_def by (rule stays_bnd)

lemma stays_if [bound_rules]: "(b \<Longrightarrow> stays I m) \<Longrightarrow> (\<not> b \<Longrightarrow> stays I k) \<Longrightarrow> stays I (if b then m else k)"
  by simp

lemma stays_pure [bound_rules]: "stays I (ret x)" "stays I (gets f)"
  by (simp_all add: stays_def inbounds_def ret_def gets_def)

lemma stays_crash [bound_rules]: "e \<noteq> OutOfBounds \<Longrightarrow> stays I (crash e)"
  by (simp add: stays_def inbounds_def crash_def)

lemma stays_only_if [bound_rules]: "(b \<Longrightarrow> stays I m) \<Longrightarrow> stays I (only_if b m)"
  unfolding only_if_def by (rule stays_if) (auto intro: stays_pure)

lemma stays_modify [bound_rules]: "(\<And>s. I s \<Longrightarrow> I (f s)) \<Longrightarrow> stays I (modify f)"
  by (simp add: stays_def inbounds_def modify_def)

lemma stays_case_option [bound_rules]:
  "stays I m \<Longrightarrow> (\<And>x. stays I (k x)) \<Longrightarrow> stays I (case v of None \<Rightarrow> m | Some x \<Rightarrow> k x)"
  by (cases v) simp_all

lemma stays_case_prod [bound_rules]: "(\<And>x y. stays I (k x y)) \<Longrightarrow> stays I (case p of (x, y) \<Rightarrow> k x y)"
  by (cases p) simp

lemma stays_let [bound_rules]: "(\<And>x. stays I (k x)) \<Longrightarrow> stays I (let x = v in k x)"
  by simp

section \<open>Machine integers\<close>

text \<open>
  C integers whose bits are not inspected are \<open>int\<close> with the wrap-around of
  their width applied at each assignment: \<open>size_t\<close> (\<open>u32\<close>), \<open>uint16_t\<close>
  (\<open>u16\<close>), \<open>int\<close> (\<open>s32\<close>) and \<open>off64_t\<close> (\<open>s64\<close>, two's complement, as the
  ARM instructions compute it).
\<close>

definition u16 :: "int \<Rightarrow> int" where
  "u16 x = x mod 2 ^ 16"

definition u32 :: "int \<Rightarrow> int" where
  "u32 x = x mod 2 ^ 32"

definition u64 :: "int \<Rightarrow> int" where
  "u64 x = x mod 2 ^ 64"

definition s32 :: "int \<Rightarrow> int" where
  "s32 x = (x + 2 ^ 31) mod 2 ^ 32 - 2 ^ 31"

definition s64 :: "int \<Rightarrow> int" where
  "s64 x = (x + 2 ^ 63) mod 2 ^ 64 - 2 ^ 63"

lemma u16_id [simp]: "0 \<le> x \<Longrightarrow> x < 65536 \<Longrightarrow> u16 x = x"
  by (simp add: u16_def)

lemma u32_id [simp]: "0 \<le> x \<Longrightarrow> x < 4294967296 \<Longrightarrow> u32 x = x"
  by (simp add: u32_def)

lemma u64_id [simp]: "0 \<le> x \<Longrightarrow> x < 18446744073709551616 \<Longrightarrow> u64 x = x"
  by (simp add: u64_def)

lemma s32_id [simp]: "- 2147483648 \<le> x \<Longrightarrow> x < 2147483648 \<Longrightarrow> s32 x = x"
  by (simp add: s32_def)

lemma s64_id [simp]: "- 9223372036854775808 \<le> x \<Longrightarrow> x < 9223372036854775808 \<Longrightarrow> s64 x = x"
  by (simp add: s64_def)

lemma u32_range [simp]: "0 \<le> u32 x" "u32 x < 4294967296"
  by (simp_all add: u32_def)

lemma s64_range [simp]: "- 9223372036854775808 \<le> s64 x" "s64 x < 9223372036854775808"
  by (simp_all add: s64_def)

section \<open>Decimal numbers\<close>

definition digit :: "nat \<Rightarrow> char" where
  "digit d = char_of (48 + d)"

fun dec_nat :: "nat \<Rightarrow> string" where
  "dec_nat n = (if n < 10 then [digit n] else dec_nat (n div 10) @ [digit (n mod 10)])"

declare dec_nat.simps [simp del]

text \<open>The conversions \<open>%d\<close>, \<open>%lld\<close> and \<open>%li\<close>.\<close>

definition dec_int :: "int \<Rightarrow> string" where
  "dec_int i = (if i < 0 then CHR ''-'' # dec_nat (nat (- i)) else dec_nat (nat i))"

text \<open>The conversion \<open>%06li\<close> of a non-negative number.\<close>

definition dec_06 :: "int \<Rightarrow> string" where
  "dec_06 i = (let d = dec_int i in replicate (6 - length d) CHR ''0'' @ d)"

definition is_digit :: "char \<Rightarrow> bool" where
  "is_digit c \<longleftrightarrow> 48 \<le> (of_char c :: nat) \<and> (of_char c :: nat) \<le> 57"

definition undec :: "string \<Rightarrow> nat" where
  "undec cs = foldl (\<lambda>a c. 10 * a + (of_char c - 48)) 0 cs"

lemma of_char_digit: "d < 10 \<Longrightarrow> (of_char (digit d) :: nat) = 48 + d"
  by (simp add: digit_def)

lemma is_digit_digit [simp]: "d < 10 \<Longrightarrow> is_digit (digit d)"
  by (simp add: is_digit_def of_char_digit)

lemma dec_nat_digits: "c \<in> set (dec_nat n) \<Longrightarrow> is_digit c"
proof (induction n arbitrary: c rule: dec_nat.induct)
  case (1 n)
  then show ?case
    by (subst (asm) (2) dec_nat.simps) (auto split: if_splits)
qed

lemma dec_nat_nonempty [simp]: "dec_nat n \<noteq> []"
  by (subst dec_nat.simps) simp

lemma undec_dec_nat [simp]: "undec (dec_nat n) = n"
proof (induction n rule: dec_nat.induct)
  case (1 n)
  show ?case
  proof (cases "n < 10")
    case True
    then show ?thesis
      by (subst dec_nat.simps) (simp add: undec_def of_char_digit)
  next
    case False
    with "1.IH" have "undec (dec_nat (n div 10)) = n div 10" by simp
    then have "undec (dec_nat (n div 10) @ [digit (n mod 10)]) = 10 * (n div 10) + n mod 10"
      by (simp add: undec_def of_char_digit)
    with False show ?thesis
      by (subst dec_nat.simps) simp
  qed
qed

lemma dec_nat_inj: "dec_nat m = dec_nat n \<Longrightarrow> m = n"
  by (metis undec_dec_nat)

lemma length_dec_nat: "n < 10 ^ k \<Longrightarrow> 0 < k \<Longrightarrow> length (dec_nat n) \<le> k"
proof (induction k arbitrary: n)
  case 0
  then show ?case by simp
next
  case (Suc k)
  show ?case
  proof (cases "n < 10")
    case True
    then show ?thesis by (subst dec_nat.simps) simp
  next
    case False
    with Suc.prems have "n div 10 < 10 ^ k" and "0 < k"
      by (auto simp: less_mult_imp_div_less mult.commute intro!: Nat.gr0I)
    then have "length (dec_nat (n div 10)) \<le> k" by (rule Suc.IH)
    with False show ?thesis by (subst dec_nat.simps) simp
  qed
qed

section \<open>C strings\<close>

text \<open>
  A \<open>string\<close> is the sequence of bytes before the terminating NUL.  Where the
  array behind it matters (its size, bytes written without a terminator) the
  model keeps the bytes as a \<open>char list\<close> of the array's length, and \<open>cstr\<close>
  reads the string in it.
\<close>

definition NUL :: char where
  "NUL = CHR 0x00"

definition cstr :: "char list \<Rightarrow> string" where
  "cstr bs = takeWhile (\<lambda>c. c \<noteq> NUL) bs"

text \<open>\<open>snprintf(buf, n, ...)\<close>: the text \<open>t\<close> cut to the room for it and its NUL.\<close>

definition snprintf :: "nat \<Rightarrow> string \<Rightarrow> string" where
  "snprintf n t = take (n - 1) t"

text \<open>\<open>!strncmp(a, b, n)\<close>, \<open>!strcmp(a, b)\<close> and \<open>strstr(hay, needle)\<close> as conditions.\<close>

definition strncmp0 :: "string \<Rightarrow> string \<Rightarrow> nat \<Rightarrow> bool" where
  "strncmp0 a b n \<longleftrightarrow> take n a = take n b"

definition strcmp0 :: "string \<Rightarrow> string \<Rightarrow> bool" where
  "strcmp0 a b \<longleftrightarrow> a = b"

fun strstr :: "string \<Rightarrow> string \<Rightarrow> bool" where
  "strstr [] needle = (needle = [])"
| "strstr (c # cs) needle = (take (length needle) (c # cs) = needle \<or> strstr cs needle)"

lemma strstr_iff: "strstr hay needle \<longleftrightarrow> (\<exists>a b. hay = a @ needle @ b)"
proof (induction hay)
  case Nil
  then show ?case by auto
next
  case (Cons c cs)
  have "take (length needle) (c # cs) = needle \<longleftrightarrow> (\<exists>b. c # cs = needle @ b)"
    by (metis append_eq_conv_conj)
  with Cons.IH show ?case
    by (auto simp: Cons_eq_append_conv)
qed

text \<open>Writing bytes into an array, with the fault an out-of-range write is.\<close>

definition write_at :: "nat \<Rightarrow> char list \<Rightarrow> char list \<Rightarrow> char list option" where
  "write_at i cs buf =
     (if i + length cs \<le> length buf
      then Some (take i buf @ cs @ drop (i + length cs) buf) else None)"

lemma length_write_at: "write_at i cs buf = Some b \<Longrightarrow> length b = length buf"
  by (auto simp: write_at_def split: if_splits)

lemma take_write_at: "write_at i cs buf = Some b \<Longrightarrow> take (i + length cs) b = take i buf @ cs"
  by (auto simp: write_at_def split: if_splits)

lemma cstr_NUL: "NUL \<notin> set t \<Longrightarrow> cstr (t @ NUL # bs) = t"
  unfolding cstr_def by (subst takeWhile_append2) auto

end
