(* ===== verification/State.thy ===== *)
theory State
  imports Prelude
begin

unbundle bit_operations_syntax

text \<open>
  The state of a traced process and the operating system below it.

  \<open>os\<close> is what the tracer calls and does not define: the kernel, the C
  library behind the interposed functions, the allocator, the clock and the
  Android logger.  Every field is a function of an abstract world of type
  \<open>'w\<close>, so nothing about them is fixed here; \<open>errno\<close> belongs to the world.
  \<open>proc\<close> holds the tracer's own variables: one field per static variable of the
  C files, the thread-local ones (\<open>static __thread\<close>) for the running thread.
  The build is the one of \<open>Android.mk\<close>: \<open>PER_FILE_BATCHING\<close>,
  \<open>BATCH_BLOCKS\<close>, \<open>BUFFER_BATCHING\<close> and \<open>FLUSHER_THREAD\<close> are defined;
  \<open>DEBUG_OPS\<close>, \<open>TEST_OPS\<close> and \<open>WRITE_TO_FILE\<close> are not, so \<open>info\<close> and
  \<open>test\<close> are empty.
\<close>

section \<open>Types and constants\<close>

type_synonym addr = "32 word"

definition PATH_MAX :: nat where "PATH_MAX = 4096"
definition LOGGER_ENTRY_MAX_PAYLOAD :: nat where "LOGGER_ENTRY_MAX_PAYLOAD = 4076"
definition BUFFER_SIZE :: nat where "BUFFER_SIZE = PATH_MAX + PATH_MAX"
definition IOSTR_BUFSIZE :: nat where "IOSTR_BUFSIZE = BUFFER_SIZE - PATH_MAX"
definition MAX_PREFIX_LEN :: nat where "MAX_PREFIX_LEN = 512"
definition PIBR_BUF_SIZE :: nat where "PIBR_BUF_SIZE = LOGGER_ENTRY_MAX_PAYLOAD - 8"

definition AT_FDCWD :: int where "AT_FDCWD = - 100"
definition ENOENT :: int where "ENOENT = 2"
definition EPERM :: int where "EPERM = 1"
definition EIO :: int where "EIO = 5"
definition O_RDONLY :: int where "O_RDONLY = 0"
definition O_WRONLY :: int where "O_WRONLY = 1"
definition O_CREAT :: int where "O_CREAT = 64"
definition O_TRUNC :: int where "O_TRUNC = 512"
definition S_IFMT :: int where "S_IFMT = 61440"
definition S_IFREG :: int where "S_IFREG = 32768"
definition S_IFDIR :: int where "S_IFDIR = 16384"

lemmas size_defs = PATH_MAX_def LOGGER_ENTRY_MAX_PAYLOAD_def BUFFER_SIZE_def IOSTR_BUFSIZE_def
  MAX_PREFIX_LEN_def PIBR_BUF_SIZE_def

lemmas flag_defs = AT_FDCWD_def ENOENT_def EPERM_def EIO_def O_RDONLY_def O_WRONLY_def
  O_CREAT_def O_TRUNC_def S_IFMT_def S_IFREG_def S_IFDIR_def

text \<open>Log priorities and one entry of the Android log.\<close>

datatype prio = ANDROID_LOG_DEBUG | ANDROID_LOG_INFO | ANDROID_LOG_ERROR

datatype logev = LogEv (log_prio: prio) (log_tag: string) (log_text: string)

text \<open>A log buffer of \<open>bblog.c\<close>: the packed word and the bytes behind it.\<close>

record pibr_t =
  pibr :: "64 word"
  buf :: "char list"

text \<open>The per-operation batching variables of \<open>read.c\<close>, \<open>write.c\<close>, \<open>pread.c\<close>,
  \<open>pwrite.c\<close>, \<open>fread.c\<close> and \<open>fwrite.c\<close> (\<open>read_path\<close>, \<open>last_read_fd\<close>, ...).\<close>

datatype chanid = Rd | Wr | Prd | Pwr | Frd | Fwr

record chan =
  path :: string
  last_fd :: int
  last_off :: int
  last_size :: int
  iostr :: string

definition chan0 :: chan where
  "chan0 = \<lparr>path = [], last_fd = - 1, last_off = - 1, last_size = 0, iostr = []\<rparr>"

text \<open>The function-pointer variables, one per static variable of the C files.\<close>

datatype fslot =
    Open_openat | Process_openat | Process_read | Process_close
  | Read_read | Write_write | Pread_pread64 | Pwrite_pwrite64 | Fread_fread | Fwrite_fwrite
  | Fopen_fopen | Close_fclose | Close_close | Mmap_mmap64
  | Rename_renameat | Unlink_unlinkat
  | Pthread_create | Pthread_exit | Clone_clone
  | Flusher_create | Flusher_openat
  | Exec_execve | Exec_execvpe

section \<open>The operating system\<close>

text \<open>
  A call of an interposed function goes through a pointer obtained from
  \<open>dlsym\<close>; the corresponding field takes that pointer (a number, \<open>0\<close> is NULL)
  as its first argument.
\<close>

record 'w os =
  dlsym :: "string \<Rightarrow> nat"
  errno :: "'w \<Rightarrow> int"
  set_errno :: "int \<Rightarrow> 'w \<Rightarrow> 'w"
  sys_getpid :: "'w \<Rightarrow> int"
  sys_gettid :: "'w \<Rightarrow> int"
  sys_getppid :: "'w \<Rightarrow> int"
  sys_getuid :: "'w \<Rightarrow> int"
  sys_gettimeofday :: "'w \<Rightarrow> (int \<times> int) \<times> 'w"
  sys_clock :: "'w \<Rightarrow> int \<times> 'w"
  sys_malloc :: "nat \<Rightarrow> 'w \<Rightarrow> addr \<times> 'w"
  sys_memalign :: "nat \<Rightarrow> nat \<Rightarrow> 'w \<Rightarrow> (addr \<times> pibr_t) \<times> 'w"
  sys_free :: "addr \<Rightarrow> 'w \<Rightarrow> 'w"
  sys_log :: "logev \<Rightarrow> 'w \<Rightarrow> int \<times> 'w"
  sys_openat :: "nat \<Rightarrow> int \<Rightarrow> string \<Rightarrow> int \<Rightarrow> int \<Rightarrow> 'w \<Rightarrow> int \<times> 'w"
  sys_close :: "nat \<Rightarrow> int \<Rightarrow> 'w \<Rightarrow> int \<times> 'w"
  sys_read :: "nat \<Rightarrow> int \<Rightarrow> nat \<Rightarrow> 'w \<Rightarrow> (int \<times> char list) \<times> 'w"
  sys_write :: "nat \<Rightarrow> int \<Rightarrow> char list \<Rightarrow> 'w \<Rightarrow> int \<times> 'w"
  sys_pread64 :: "nat \<Rightarrow> int \<Rightarrow> nat \<Rightarrow> int \<Rightarrow> 'w \<Rightarrow> (int \<times> char list) \<times> 'w"
  sys_pwrite64 :: "nat \<Rightarrow> int \<Rightarrow> char list \<Rightarrow> int \<Rightarrow> 'w \<Rightarrow> int \<times> 'w"
  sys_fread :: "nat \<Rightarrow> nat \<Rightarrow> nat \<Rightarrow> nat \<Rightarrow> 'w \<Rightarrow> (int \<times> char list) \<times> 'w"
  sys_fwrite :: "nat \<Rightarrow> char list \<Rightarrow> nat \<Rightarrow> nat \<Rightarrow> nat \<Rightarrow> 'w \<Rightarrow> int \<times> 'w"
  sys_fopen :: "nat \<Rightarrow> string \<Rightarrow> string \<Rightarrow> 'w \<Rightarrow> nat \<times> 'w"
  sys_fclose :: "nat \<Rightarrow> nat \<Rightarrow> 'w \<Rightarrow> int \<times> 'w"
  sys_fileno :: "nat \<Rightarrow> 'w \<Rightarrow> int"
  sys_ferror :: "nat \<Rightarrow> 'w \<Rightarrow> bool"
  sys_lseek64 :: "int \<Rightarrow> 'w \<Rightarrow> int \<times> 'w"
  sys_readlink :: "string \<Rightarrow> 'w \<Rightarrow> string option \<times> 'w"
  sys_access :: "string \<Rightarrow> 'w \<Rightarrow> int \<times> 'w"
  sys_faccessat :: "int \<Rightarrow> string \<Rightarrow> 'w \<Rightarrow> int \<times> 'w"
  sys_fstat :: "int \<Rightarrow> 'w \<Rightarrow> (int \<times> int) \<times> 'w"
  sys_lstat :: "string \<Rightarrow> 'w \<Rightarrow> (int \<times> int) \<times> 'w"
  sys_renameat :: "nat \<Rightarrow> int \<Rightarrow> string \<Rightarrow> int \<Rightarrow> string \<Rightarrow> 'w \<Rightarrow> int \<times> 'w"
  sys_unlinkat :: "nat \<Rightarrow> int \<Rightarrow> string \<Rightarrow> int \<Rightarrow> 'w \<Rightarrow> int \<times> 'w"
  sys_mmap64 :: "nat \<Rightarrow> addr \<Rightarrow> nat \<Rightarrow> int \<Rightarrow> int \<Rightarrow> int \<Rightarrow> int \<Rightarrow> 'w \<Rightarrow> addr \<times> 'w"
  sys_pthread_join :: "int \<Rightarrow> 'w \<Rightarrow> 'w"
  sys_exit :: "int \<Rightarrow> 'w \<Rightarrow> 'w"
  sys_pthread_exit :: "nat \<Rightarrow> nat \<Rightarrow> 'w \<Rightarrow> 'w"
  sys_sleep :: "nat \<Rightarrow> 'w \<Rightarrow> 'w"
  sys_atexit :: "'w \<Rightarrow> int \<times> 'w"
  sys_sigaction_get :: "int \<Rightarrow> 'w \<Rightarrow> (int \<times> nat) \<times> 'w"
  sys_sigaction_set :: "int \<Rightarrow> nat \<Rightarrow> 'w \<Rightarrow> int \<times> 'w"
  sys_run_handler :: "nat \<Rightarrow> int \<Rightarrow> 'w \<Rightarrow> 'w"
  sys_timer_create :: "int \<Rightarrow> 'w \<Rightarrow> (int \<times> nat) \<times> 'w"
  sys_timer_settime :: "nat \<Rightarrow> int \<Rightarrow> int \<Rightarrow> 'w \<Rightarrow> int \<times> 'w"
  sys_timer_delete :: "nat \<Rightarrow> 'w \<Rightarrow> int \<times> 'w"
  sys_execve :: "nat \<Rightarrow> string \<Rightarrow> string list \<Rightarrow> string list \<Rightarrow> 'w \<Rightarrow> int \<times> 'w"
  sys_execvpe :: "nat \<Rightarrow> string \<Rightarrow> string list \<Rightarrow> string list \<Rightarrow> 'w \<Rightarrow> int \<times> 'w"
  sys_pthread_create :: "nat \<Rightarrow> nat \<Rightarrow> nat \<Rightarrow> 'w \<Rightarrow> (int \<times> int) \<times> 'w"
  sys_clone :: "nat \<Rightarrow> nat \<Rightarrow> addr \<Rightarrow> int \<Rightarrow> nat \<Rightarrow> nat \<Rightarrow> nat \<Rightarrow> nat \<Rightarrow> 'w \<Rightarrow> int \<times> 'w"

section \<open>The tracer's variables\<close>

text \<open>\<open>blog.c\<close>: the statics of its \<open>init_buffer\<close> and the thread's message buffer.\<close>

record blog_vars =
  thread_pid :: int
  b_procid :: int
  b_prefix_len :: int
  b_prefix :: string
  b_buffer :: string

text \<open>\<open>mmap.c\<close>.\<close>

record mmap_vars =
  mmap_path :: string
  last_mmap_fd :: int
  last_mmap_off :: int
  last_mmap_size :: int
  protstr :: string

text \<open>\<open>flusher.c\<close>: \<open>struct thread_info\<close> (its \<open>ptr\<close> and \<open>last_flush\<close> hold the addresses
  of \<open>proc_pibr\<close> and \<open>last_flush_secs\<close>) and the statics.\<close>

record thread_info =
  tid :: int
  interrupt :: int

record flusher_vars =
  flusher_info :: addr
  tinfos :: "addr \<Rightarrow> thread_info option"
  system_xbin_fd :: int
  system_bin_fd :: int
  sbin_fd :: int

text \<open>\<open>signal.c\<close>: the handlers found at start-up (\<open>0\<close> is NULL), and \<open>timer.c\<close>.\<close>

record signal_vars =
  old_sigint_handler :: nat
  old_sigterm_handler :: nat
  old_sigabrt_handler :: nat
  old_sigquit_handler :: nat
  old_sighup_handler :: nat
  old_sigtstp_handler :: nat

record timer_vars =
  timeout_timer :: nat
  timeout_signal :: int

record 'w proc =
  world :: 'w
  logs :: "logev list"
  fptr :: "fslot \<Rightarrow> nat"
  strs :: "addr \<Rightarrow> string option"
  bufs :: "addr \<Rightarrow> pibr_t option"
  cntr_v :: "64 word"
  procname_pid :: "64 word"
  prefix :: string
  prefix_len :: int
  procid :: int
  proc_pibr :: addr
  last_flush_secs :: int
  blog_v :: blog_vars
  notify_v :: int
  num_active_threads :: "32 word"
  chans :: "chanid \<Rightarrow> chan"
  mmap_v :: mmap_vars
  flusher_v :: flusher_vars
  signal_v :: signal_vars
  timer_v :: timer_vars

text \<open>The values the variables have when the library is loaded.\<close>

definition proc0 :: "'w \<Rightarrow> 'w proc" where
  "proc0 w = \<lparr>world = w, logs = [], fptr = (\<lambda>_. 0), strs = (\<lambda>_. None), bufs = (\<lambda>_. None),
     cntr_v = 0, procname_pid = 0, prefix = [], prefix_len = 0, procid = 0, proc_pibr = 0,
     last_flush_secs = 0,
     blog_v = \<lparr>thread_pid = 0, b_procid = 0, b_prefix_len = 0, b_prefix = [], b_buffer = []\<rparr>,
     notify_v = 0, num_active_threads = 0, chans = (\<lambda>_. chan0),
     mmap_v = \<lparr>mmap_path = [], last_mmap_fd = - 1, last_mmap_off = - 1, last_mmap_size = 0,
       protstr = []\<rparr>,
     flusher_v = \<lparr>flusher_info = 0, tinfos = (\<lambda>_. None), system_xbin_fd = - 1,
       system_bin_fd = - 1, sbin_fd = - 1\<rparr>,
     signal_v = \<lparr>old_sigint_handler = 0, old_sigterm_handler = 0, old_sigabrt_handler = 0,
       old_sigquit_handler = 0, old_sighup_handler = 0, old_sigtstp_handler = 0\<rparr>,
     timer_v = \<lparr>timeout_timer = 0, timeout_signal = 0\<rparr>\<rparr>"

section \<open>Calling the system\<close>

definition sysc :: "('w \<Rightarrow> 'a \<times> 'w) \<Rightarrow> ('w proc, 'a) exec" where
  "sysc f = (\<lambda>s. case f (world s) of (x, w) \<Rightarrow> Some (Inr (x, s\<lparr>world := w\<rparr>)))"

definition asks :: "('w \<Rightarrow> 'a) \<Rightarrow> ('w proc, 'a) exec" where
  "asks f = gets (\<lambda>s. f (world s))"

definition emit :: "logev \<Rightarrow> ('w proc, unit) exec" where
  "emit e = modify (\<lambda>s. s\<lparr>logs := logs s @ [e]\<rparr>)"

text \<open>\<open>__android_log_write\<close>, and \<open>__android_log_print\<close> with its format expanded.\<close>

definition android_log :: "'w os \<Rightarrow> prio \<Rightarrow> string \<Rightarrow> string \<Rightarrow> ('w proc, int) exec" where
  "android_log os p tag txt = andthen (emit (LogEv p tag txt)) (sysc (sys_log os (LogEv p tag txt)))"

text \<open>\<open>ALOGE\<close>; the diagnostic text is kept as its format string.\<close>

definition aloge :: "'w os \<Rightarrow> string \<Rightarrow> string \<Rightarrow> ('w proc, unit) exec" where
  "aloge os tag txt = andthen (android_log os ANDROID_LOG_ERROR tag txt) (ret ())"

definition seterr :: "'w os \<Rightarrow> int \<Rightarrow> ('w proc, unit) exec" where
  "seterr os e = sysc (\<lambda>w. ((), set_errno os e w))"

text \<open>
  The idiom every interposer starts with:
  \<open>if (!f) { f = dlsym(RTLD_NEXT, name); if (!f) f = dlsym(RTLD_NEXT, alt); }\<close>
\<close>

definition load_sym :: "'w os \<Rightarrow> fslot \<Rightarrow> string \<Rightarrow> string \<Rightarrow> ('w proc, unit) exec" where
  "load_sym os v name alt = bnd (gets (\<lambda>s. fptr s v)) (\<lambda>f.
     if f = 0
     then let g = (if dlsym os name = 0 then dlsym os alt else dlsym os name)
          in modify (\<lambda>s. s\<lparr>fptr := (fptr s)(v := g)\<rparr>)
     else ret ())"

definition resolved :: "'w os \<Rightarrow> 'w proc \<Rightarrow> fslot \<Rightarrow> string \<Rightarrow> string \<Rightarrow> nat" where
  "resolved os s v name alt =
     (if fptr s v \<noteq> 0 then fptr s v else if dlsym os name = 0 then dlsym os alt else dlsym os name)"

lemma load_sym_run:
  "load_sym os v name alt s =
     Some (Inr ((), s\<lparr>fptr := (fptr s)(v := resolved os s v name alt)\<rparr>))"
  by (simp add: load_sym_def resolved_def exec_defs)

text \<open>A call through a function pointer; through NULL it is a fault.\<close>

definition call :: "fslot \<Rightarrow> (nat \<Rightarrow> 'w \<Rightarrow> 'a \<times> 'w) \<Rightarrow> ('w proc, 'a) exec" where
  "call v f = bnd (gets (\<lambda>s. fptr s v)) (\<lambda>p. if p = 0 then crash NullCall else sysc (f p))"

text \<open>
  Memory: log buffers and process-name strings on the heap.  Reading or writing
  through NULL or a freed block and freeing a block that is not allocated are faults.
\<close>

definition load_buf :: "addr \<Rightarrow> ('w proc, pibr_t) exec" where
  "load_buf p = bnd (gets (\<lambda>s. bufs s p)) (\<lambda>b.
     if p = 0 then crash NullDeref
     else case b of None \<Rightarrow> crash WildDeref | Some b \<Rightarrow> ret b)"

definition store_buf :: "addr \<Rightarrow> pibr_t \<Rightarrow> ('w proc, unit) exec" where
  "store_buf p b = modify (\<lambda>s. s\<lparr>bufs := (bufs s)(p \<mapsto> b)\<rparr>)"

definition free_buf :: "'w os \<Rightarrow> addr \<Rightarrow> ('w proc, unit) exec" where
  "free_buf os p = bnd (gets (\<lambda>s. bufs s p)) (\<lambda>b.
     if b = None then crash BadFree
     else andthen (sysc (\<lambda>w. ((), sys_free os p w)))
       (modify (\<lambda>s. s\<lparr>bufs := (bufs s)(p := None)\<rparr>)))"

definition load_str :: "addr \<Rightarrow> ('w proc, string) exec" where
  "load_str p = bnd (gets (\<lambda>s. strs s p)) (\<lambda>t.
     if p = 0 then crash NullDeref
     else case t of None \<Rightarrow> crash WildDeref | Some t \<Rightarrow> ret t)"

definition store_str :: "addr \<Rightarrow> string \<Rightarrow> ('w proc, unit) exec" where
  "store_str p t = (if p = 0 then crash NullDeref else modify (\<lambda>s. s\<lparr>strs := (strs s)(p \<mapsto> t)\<rparr>))"

definition free_str :: "'w os \<Rightarrow> addr \<Rightarrow> ('w proc, unit) exec" where
  "free_str os p = bnd (gets (\<lambda>s. strs s p)) (\<lambda>t.
     if t = None then crash BadFree
     else andthen (sysc (\<lambda>w. ((), sys_free os p w)))
       (modify (\<lambda>s. s\<lparr>strs := (strs s)(p := None)\<rparr>)))"

text \<open>Updating one channel.\<close>

definition upd_chan :: "chanid \<Rightarrow> (chan \<Rightarrow> chan) \<Rightarrow> ('w proc, unit) exec" where
  "upd_chan c f = modify (\<lambda>s. s\<lparr>chans := (chans s)(c := f (chans s c))\<rparr>)"

lemmas sys_defs = sysc_def asks_def emit_def android_log_def aloge_def seterr_def load_sym_def
  call_def load_buf_def store_buf_def free_buf_def load_str_def store_str_def free_str_def
  upd_chan_def

section \<open>What the primitives keep\<close>

lemma keeps_sysc [keep_rules]: "(\<And>s w. f (s\<lparr>world := w\<rparr>) = f s) \<Longrightarrow> keeps f (sysc g)"
  by (auto simp: keeps_def sysc_def split: prod.splits)

lemma keeps_asks [keep_rules]: "keeps f (asks g)"
  unfolding asks_def by (rule keep_rules)

lemma keeps_emit [keep_rules]: "(\<And>s l. f (s\<lparr>logs := l\<rparr>) = f s) \<Longrightarrow> keeps f (emit e)"
  by (auto simp: emit_def intro!: keep_rules)

lemma keeps_android_log [keep_rules]:
  "(\<And>s l. f (s\<lparr>logs := l\<rparr>) = f s) \<Longrightarrow> (\<And>s w. f (s\<lparr>world := w\<rparr>) = f s) \<Longrightarrow>
     keeps f (android_log os p tag txt)"
  by (auto simp: android_log_def intro!: keep_rules)

lemma keeps_aloge [keep_rules]:
  "(\<And>s l. f (s\<lparr>logs := l\<rparr>) = f s) \<Longrightarrow> (\<And>s w. f (s\<lparr>world := w\<rparr>) = f s) \<Longrightarrow>
     keeps f (aloge os tag txt)"
  by (auto simp: aloge_def intro!: keep_rules)

lemma keeps_seterr [keep_rules]: "(\<And>s w. f (s\<lparr>world := w\<rparr>) = f s) \<Longrightarrow> keeps f (seterr os e)"
  by (auto simp: seterr_def intro!: keep_rules)

lemma keeps_load_sym [keep_rules]:
  "(\<And>s g. f (s\<lparr>fptr := (fptr s)(v := g)\<rparr>) = f s) \<Longrightarrow> keeps f (load_sym os v name alt)"
  by (auto simp: load_sym_def intro!: keep_rules)

lemma keeps_call [keep_rules]: "(\<And>s w. f (s\<lparr>world := w\<rparr>) = f s) \<Longrightarrow> keeps f (call v g)"
  by (auto simp: call_def intro!: keep_rules)

lemma keeps_load_buf [keep_rules]: "keeps f (load_buf p)"
  by (auto simp: load_buf_def intro!: keep_rules)

lemma keeps_store_buf [keep_rules]: "(\<And>s h. f (s\<lparr>bufs := h\<rparr>) = f s) \<Longrightarrow> keeps f (store_buf p b)"
  by (auto simp: store_buf_def intro!: keep_rules)

lemma keeps_free_buf [keep_rules]:
  "(\<And>s h. f (s\<lparr>bufs := h\<rparr>) = f s) \<Longrightarrow> (\<And>s w. f (s\<lparr>world := w\<rparr>) = f s) \<Longrightarrow> keeps f (free_buf os p)"
  by (auto simp: free_buf_def intro!: keep_rules)

lemma keeps_load_str [keep_rules]: "keeps f (load_str p)"
  by (auto simp: load_str_def intro!: keep_rules)

lemma keeps_store_str [keep_rules]: "(\<And>s h. f (s\<lparr>strs := h\<rparr>) = f s) \<Longrightarrow> keeps f (store_str p t)"
  by (auto simp: store_str_def intro!: keep_rules)

lemma keeps_free_str [keep_rules]:
  "(\<And>s h. f (s\<lparr>strs := h\<rparr>) = f s) \<Longrightarrow> (\<And>s w. f (s\<lparr>world := w\<rparr>) = f s) \<Longrightarrow> keeps f (free_str os p)"
  by (auto simp: free_str_def intro!: keep_rules)

lemma keeps_upd_chan [keep_rules]: "(\<And>s h. f (s\<lparr>chans := h\<rparr>) = f s) \<Longrightarrow> keeps f (upd_chan c g)"
  by (auto simp: upd_chan_def intro!: keep_rules)

text \<open>And the invariants they keep.\<close>

lemma preserves_sysc [pres_rules]:
  assumes "\<And>s w. I s \<Longrightarrow> I (s\<lparr>world := w\<rparr>)"
  shows "preserves I (sysc g)" "preserves I (call v g')" "preserves I (seterr os e)"
  using assms by (auto simp: sys_defs exec_defs preserves_def valid_def split: prod.splits if_splits)

lemma preserves_loads [pres_rules]: "preserves I (asks g)" "preserves I (load_buf p)" "preserves I (load_str p)"
  by (auto simp: sys_defs exec_defs preserves_def valid_def split: option.splits if_splits)

lemma preserves_load_sym [pres_rules]:
  "(\<And>s g. I s \<Longrightarrow> I (s\<lparr>fptr := g\<rparr>)) \<Longrightarrow> preserves I (load_sym os v name alt)"
  unfolding load_sym_def by (intro pres_rules) simp_all

lemma preserves_android_log [pres_rules]:
  "(\<And>s w. I s \<Longrightarrow> I (s\<lparr>world := w\<rparr>)) \<Longrightarrow> (\<And>s. I s \<Longrightarrow> I (s\<lparr>logs := logs s @ [LogEv p tag t]\<rparr>)) \<Longrightarrow>
     preserves I (android_log os p tag t)"
  unfolding android_log_def emit_def by (intro pres_rules) simp_all

lemma preserves_strs [pres_rules]:
  "(\<And>s h. I s \<Longrightarrow> I (s\<lparr>strs := h\<rparr>)) \<Longrightarrow> preserves I (store_str p t)"
  "(\<And>s h. I s \<Longrightarrow> I (s\<lparr>strs := h\<rparr>)) \<Longrightarrow> (\<And>s w. I s \<Longrightarrow> I (s\<lparr>world := w\<rparr>)) \<Longrightarrow> preserves I (free_str os p)"
  unfolding store_str_def free_str_def by (intro pres_rules; simp)+

lemma preserves_upd_chan [pres_rules]:
  "(\<And>s h. I s \<Longrightarrow> I (s\<lparr>chans := h\<rparr>)) \<Longrightarrow> preserves I (upd_chan c f)"
  unfolding upd_chan_def by (intro pres_rules) simp

text \<open>None of the primitives writes into an array.\<close>

lemma stays_sysc [bound_rules]:
  assumes "\<And>s w. I s \<Longrightarrow> I (s\<lparr>world := w\<rparr>)"
  shows "stays I (sysc g)" "stays I (call v g')" "stays I (seterr os e)"
  using assms by (auto simp: sys_defs exec_defs stays_def inbounds_def split: prod.splits if_splits)

lemma stays_loads [bound_rules]: "stays I (asks g)" "stays I (load_buf p)" "stays I (load_str p)"
  by (auto simp: sys_defs exec_defs stays_def inbounds_def split: option.splits if_splits)

lemma stays_load_sym [bound_rules]: "(\<And>s g. I s \<Longrightarrow> I (s\<lparr>fptr := g\<rparr>)) \<Longrightarrow> stays I (load_sym os v name alt)"
  unfolding load_sym_def by (intro bound_rules) simp_all

lemma stays_android_log:
  "(\<And>s w. I s \<Longrightarrow> I (s\<lparr>world := w\<rparr>)) \<Longrightarrow> (\<And>s. I s \<Longrightarrow> I (s\<lparr>logs := logs s @ [LogEv p tag t]\<rparr>)) \<Longrightarrow>
     stays I (android_log os p tag t)"
  unfolding android_log_def emit_def by (intro bound_rules) simp_all

lemma stays_strs:
  "(\<And>s. I s \<Longrightarrow> I (s\<lparr>strs := (strs s)(p \<mapsto> t)\<rparr>)) \<Longrightarrow> stays I (store_str p t)"
  "(\<And>s. I s \<Longrightarrow> I (s\<lparr>strs := (strs s)(p := None)\<rparr>)) \<Longrightarrow> (\<And>s w. I s \<Longrightarrow> I (s\<lparr>world := w\<rparr>)) \<Longrightarrow> stays I (free_str os p)"
  unfolding store_str_def free_str_def by (intro bound_rules; simp)+

lemma stays_upd_chan: "(\<And>s. I s \<Longrightarrow> I (s\<lparr>chans := (chans s)(c := f (chans s c))\<rparr>)) \<Longrightarrow> stays I (upd_chan c f)"
  unfolding upd_chan_def by (intro bound_rules) simp

end
