(* ===== verification/Pibr.thy ===== *)
theory Pibr
  imports State
begin

unbundle bit_operations_syntax

text \<open>
  The packed word of a log buffer (\<open>bblog.h\<close>, \<open>pack_buffer\<close> of \<open>bblog.c\<close>):
  from the top, 16 bits of pid, 16 bits of index into the buffer, 20 bits of the
  buffer's address and 12 bits of reference count.  The accessors are the
  macros; \<open>pack_word\<close> is the expression of \<open>pack_buffer\<close>.  The lemmas read the
  word as a number, so that additions to it are additions to its fields.
\<close>

section \<open>Macros\<close>

definition PID_MAX :: int where
  "PID_MAX = 32767"

definition PIBR_PID :: "64 word \<Rightarrow> int" where
  "PIBR_PID x = uint (drop_bit 48 x)"

definition PIBR_IDX :: "64 word \<Rightarrow> int" where
  "PIBR_IDX x = uint (drop_bit 32 x AND 0xffff)"

definition PIBR_REFCNT :: "64 word \<Rightarrow> int" where
  "PIBR_REFCNT x = uint (x AND 0xfff)"

definition PIBR_PTR :: "64 word \<Rightarrow> addr" where
  "PIBR_PTR x = ucast x AND NOT 0xfff"

definition pack_word :: "addr \<Rightarrow> int \<Rightarrow> int \<Rightarrow> int \<Rightarrow> 64 word" where
  "pack_word ptr pid idx refcnt =
     push_bit 48 (word_of_int pid) OR push_bit 32 (word_of_int (u16 idx)) OR
     ucast (ptr AND NOT 0xfff) OR (word_of_int (u16 refcnt) AND 0xfff)"

section \<open>The word as a number\<close>

definition pibr_val :: "int \<Rightarrow> int \<Rightarrow> int \<Rightarrow> int \<Rightarrow> int" where
  "pibr_val pid idx p r = pid * 2 ^ 48 + idx * 2 ^ 32 + p + r"

text \<open>A word whose fields hold \<open>pid\<close>, \<open>idx\<close>, the page-aligned address \<open>p\<close> and count \<open>r\<close>.\<close>

definition pibr_is :: "64 word \<Rightarrow> int \<Rightarrow> int \<Rightarrow> addr \<Rightarrow> int \<Rightarrow> bool" where
  "pibr_is x pid idx p r \<longleftrightarrow>
     0 \<le> pid \<and> pid < 65536 \<and> 0 \<le> idx \<and> idx < 65536 \<and> 4096 dvd uint p \<and> 0 \<le> r \<and> r < 4096 \<and>
     uint x = pibr_val pid idx (uint p) r"

lemma uint_addr_lt: "uint (p :: addr) < 4294967296"
  using uint_lt2p [of p] by simp

lemma mask16: "(0xffff :: 64 word) = mask 16" and mask12: "(0xfff :: 64 word) = mask 12"
  and mask12a: "(0xfff :: addr) = mask 12"
  by (simp_all add: mask_eq_exp_minus_1)

lemma uint_drop: "uint (drop_bit n (x :: 64 word)) = uint x div 2 ^ n"
  using uint_lt2p [of x]
  by (subst unsigned_drop_bit_eq) (simp add: drop_bit_eq_div take_bit_int_eq_self)

lemma uint_and_mask: "n \<le> LENGTH('a) \<Longrightarrow> uint ((x :: 'a::len word) AND mask n) = uint x mod 2 ^ n"
  by (simp add: take_bit_eq_mask [symmetric] unsigned_take_bit_eq)
     (simp add: take_bit_eq_mod)

lemma PIBR_PID_num: "PIBR_PID x = uint x div 2 ^ 48"
  by (simp add: PIBR_PID_def uint_drop)

lemma PIBR_IDX_num: "PIBR_IDX x = uint x div 2 ^ 32 mod 2 ^ 16"
  unfolding PIBR_IDX_def mask16 by (simp add: uint_and_mask uint_drop)

lemma PIBR_REFCNT_num: "PIBR_REFCNT x = uint x mod 2 ^ 12"
  unfolding PIBR_REFCNT_def mask12 by (simp add: uint_and_mask)

lemma PIBR_PTR_num: "uint (PIBR_PTR x) = uint x mod 2 ^ 32 - uint x mod 2 ^ 12"
proof -
  let ?y = "ucast x :: addr"
  have y: "uint ?y = uint x mod 2 ^ 32"
    by (simp add: unsigned_ucast_eq take_bit_eq_mod)
  have "?y AND NOT (mask 12) = ?y AND NOT (?y AND mask 12)"
    by (rule bit_eqI) (auto simp: bit_simps)
  also have "\<dots> = ?y - (?y AND mask 12)"
    by (rule disjunctive_diff [symmetric]) (simp add: bit_simps)
  finally have "?y AND NOT (mask 12) = ?y - (?y AND mask 12)" .
  moreover have "uint (?y AND mask 12) = uint ?y mod 2 ^ 12"
    by (simp add: uint_and_mask)
  moreover have "uint ?y mod 2 ^ 12 \<le> uint ?y"
    by (simp add: zmod_le_nonneg_dividend)
  ultimately have "uint (PIBR_PTR x) = uint ?y - uint ?y mod 2 ^ 12"
    unfolding PIBR_PTR_def mask12a
    by (simp add: uint_sub_lem [THEN iffD1] word_le_def)
  moreover have "uint ?y mod 2 ^ 12 = uint x mod 2 ^ 12"
    unfolding y by (simp add: mod_mod_cancel)
  ultimately show ?thesis using y by simp
qed

lemma pibr_val_arith:
  assumes "0 \<le> pid" "pid < 65536" "0 \<le> idx" "idx < 65536" "0 \<le> p" "p < 2 ^ 32" "4096 dvd p"
    "0 \<le> r" "r < (4096 :: int)"
  shows "pibr_val pid idx p r div 2 ^ 48 = pid"
    and "pibr_val pid idx p r div 2 ^ 32 mod 2 ^ 16 = idx"
    and "pibr_val pid idx p r mod 2 ^ 32 = p + r"
    and "pibr_val pid idx p r mod 2 ^ 12 = r"
proof -
  from \<open>4096 dvd p\<close> obtain q where q: "p = 4096 * q" by blast
  with assms have low: "0 \<le> p + r" "p + r < 2 ^ 32" by auto
  have mid: "0 \<le> idx * 2 ^ 32 + (p + r)" "idx * 2 ^ 32 + (p + r) < 2 ^ 48"
    using assms low by auto
  have v: "pibr_val pid idx p r = pid * 2 ^ 48 + (idx * 2 ^ 32 + (p + r))"
    by (simp add: pibr_val_def)
  show "pibr_val pid idx p r div 2 ^ 48 = pid"
    using mid unfolding v by (intro int_div_pos_eq) auto
  have v2: "pibr_val pid idx p r = (pid * 2 ^ 16 + idx) * 2 ^ 32 + (p + r)"
    by (simp add: pibr_val_def)
  have d: "pibr_val pid idx p r div 2 ^ 32 = pid * 2 ^ 16 + idx"
    using low unfolding v2 by (intro int_div_pos_eq) auto
  show "pibr_val pid idx p r div 2 ^ 32 mod 2 ^ 16 = idx"
    using assms unfolding d by simp
  show "pibr_val pid idx p r mod 2 ^ 32 = p + r"
    using low unfolding v2 by (subst add.commute, subst mod_mult_self1) simp
  have v3: "pibr_val pid idx p r = r + 2 ^ 12 * (pid * 2 ^ 36 + idx * 2 ^ 20 + q)"
    by (simp add: pibr_val_def q)
  show "pibr_val pid idx p r mod 2 ^ 12 = r"
    using assms unfolding v3 by (subst mod_mult_self2) simp
qed

lemma pibr_is_fields:
  assumes "pibr_is x pid idx p r"
  shows "PIBR_PID x = pid" and "PIBR_IDX x = idx" and "PIBR_PTR x = p" and "PIBR_REFCNT x = r"
proof -
  note v = pibr_val_arith [of pid idx "uint p" r]
  have h: "0 \<le> pid" "pid < 65536" "0 \<le> idx" "idx < 65536" "0 \<le> uint p" "uint p < 2 ^ 32"
    "4096 dvd uint p" "0 \<le> r" "r < 4096" and x: "uint x = pibr_val pid idx (uint p) r"
    using assms uint_addr_lt [of p] by (auto simp: pibr_is_def)
  note a = v [OF h]
  show "PIBR_PID x = pid" "PIBR_IDX x = idx" "PIBR_REFCNT x = r"
    unfolding PIBR_PID_num PIBR_IDX_num PIBR_REFCNT_num x by (fact a)+
  have "uint (PIBR_PTR x) = uint p"
    unfolding PIBR_PTR_num x a by simp
  then show "PIBR_PTR x = p" by (simp add: word_uint_eq_iff)
qed

lemma pibr_is_unique: "pibr_is x pid idx p r \<Longrightarrow> pibr_is y pid idx p r \<Longrightarrow> x = y"
  by (simp add: pibr_is_def word_uint_eq_iff)

section \<open>Packing\<close>

lemma bit_small: "bit (i :: int) n \<Longrightarrow> 0 \<le> i \<Longrightarrow> i < 2 ^ k \<Longrightarrow> n < k"
  by (metis bit_take_bit_iff take_bit_int_eq_self)

lemma aligned_and: "4096 dvd uint (p :: addr) \<Longrightarrow> p AND NOT 0xfff = p"
proof -
  assume "4096 dvd uint p"
  then have "p AND mask 12 = 0"
    using and_mask_dvd [of 12 p] by simp
  then have nb: "\<not> bit (p AND mask 12) n" for n
    by simp
  have "\<not> (bit p n \<and> n < 12)" for n
    using nb [of n] by (auto simp: bit_simps)
  then show ?thesis
    unfolding mask12a by (intro bit_eqI) (auto simp: bit_simps)
qed

lemma aligned_bits: "4096 dvd uint (p :: addr) \<Longrightarrow> bit p n \<Longrightarrow> 12 \<le> n \<and> n < 32"
proof -
  assume al: "4096 dvd uint p" and b: "bit p n"
  from b have "bit (p AND NOT (mask 12)) n"
    using aligned_and [OF al] by (simp add: mask12a)
  with b show "12 \<le> n \<and> n < 32"
    by (auto simp: bit_simps dest: bit_imp_le_length)
qed

lemma pack_word_is:
  assumes "0 \<le> pid" "pid < 65536" "0 \<le> idx" "idx < 65536" "4096 dvd uint p" "0 \<le> r" "r < 4096"
  shows "pibr_is (pack_word p pid idx r) pid idx p r"
proof -
  let ?a = "push_bit 48 (word_of_int pid) :: 64 word"
  let ?b = "push_bit 32 (word_of_int idx) :: 64 word"
  let ?c = "ucast p :: 64 word"
  let ?d = "word_of_int r :: 64 word"
  have bits: "bit ?a n \<Longrightarrow> 48 \<le> n" "bit ?b n \<Longrightarrow> 32 \<le> n \<and> n < 48"
    "bit ?c n \<Longrightarrow> 12 \<le> n \<and> n < 32" "bit ?d n \<Longrightarrow> n < 12" for n
    using assms bit_small [of idx "n - 32" 16] bit_small [of r n 12] aligned_bits [of p n]
    by (auto simp: bit_simps)
  have d: "?d AND 0xfff = ?d"
    using bits(4) unfolding mask12 by (intro bit_eqI) (auto simp: bit_simps)
  have "pack_word p pid idx r = ?a OR ?b OR ?c OR ?d"
    using assms unfolding pack_word_def by (simp only: aligned_and d u16_id)
  also have "\<dots> = ?a + ?b + ?c + ?d"
  proof -
    have ab: "bit ?a n \<Longrightarrow> \<not> bit ?b n" for n
      using bits(1,2) [of n] by linarith
    have abc: "bit ?c n \<Longrightarrow> \<not> bit ?a n \<and> \<not> bit ?b n" for n
      using bits(1,2,3) [of n] by linarith
    have abcd: "bit ?d n \<Longrightarrow> \<not> bit ?a n \<and> \<not> bit ?b n \<and> \<not> bit ?c n" for n
      using bits(1,2,3,4) [of n] by linarith
    have "?a + ?b = ?a OR ?b"
      by (rule disjunctive_add) (use ab in blast)
    moreover have "(?a OR ?b) + ?c = (?a OR ?b) OR ?c"
      by (rule disjunctive_add) (unfold bit_or_iff, use abc in blast)
    moreover have "(?a OR ?b OR ?c) + ?d = (?a OR ?b OR ?c) OR ?d"
      by (rule disjunctive_add) (unfold bit_or_iff, use abcd in blast)
    ultimately show ?thesis by (simp only: or.assoc)
  qed
  also have "\<dots> = word_of_int (pibr_val pid idx (uint p) r)"
  proof -
    have "?a = word_of_int (pid * 2 ^ 48)" and "?b = word_of_int (idx * 2 ^ 32)"
      by (simp_all add: push_bit_eq_mult)
    moreover have "?c = word_of_int (uint p)" by (rule ucast_eq)
    ultimately show ?thesis by (simp only: pibr_val_def of_int_add)
  qed
  finally have pw: "pack_word p pid idx r = word_of_int (pibr_val pid idx (uint p) r)" .
  have "0 \<le> pibr_val pid idx (uint p) r" "pibr_val pid idx (uint p) r < 2 ^ 64"
    using assms uint_addr_lt [of p] by (auto simp: pibr_val_def)
  then have "uint (pack_word p pid idx r) = pibr_val pid idx (uint p) r"
    unfolding pw by (simp add: uint_word_of_int)
  with assms show ?thesis by (simp add: pibr_is_def)
qed

section \<open>Adding to and subtracting from the fields\<close>

text \<open>
  \<open>__sync_fetch_and_add(proc_pibr, incr)\<close> with \<open>incr = pack_buffer(0, 0, size, 1)\<close>
  reserves \<open>size\<close> bytes and takes a reference in one step, as long as neither
  field runs into the next one.
\<close>

lemma pibr_is_le: "pibr_is x pid idx p r \<Longrightarrow> uint x < 2 ^ 64"
  using uint_lt2p [of x] by simp

lemma pibr_reserve:
  assumes "pibr_is x pid idx p r" "0 \<le> sz" "idx + sz < 65536" "0 \<le> k" "r + k < 4096"
  shows "pibr_is (x + pack_word 0 0 sz k) pid (idx + sz) p (r + k)"
proof -
  have i: "pibr_is (pack_word 0 0 sz k) 0 sz 0 k"
    using assms by (intro pack_word_is) (auto simp: pibr_is_def)
  have "pibr_val pid (idx + sz) (uint p) (r + k) < 2 ^ 64"
    using assms uint_addr_lt [of p] by (auto simp: pibr_is_def pibr_val_def)
  moreover have "uint x + uint (pack_word 0 0 sz k) = pibr_val pid (idx + sz) (uint p) (r + k)"
    using assms i by (simp add: pibr_is_def pibr_val_def algebra_simps)
  ultimately have "uint (x + pack_word 0 0 sz k) = pibr_val pid (idx + sz) (uint p) (r + k)"
    by (simp add: uint_add_lem [THEN iffD1])
  with assms show ?thesis by (simp add: pibr_is_def)
qed

lemma pibr_release:
  assumes "pibr_is x pid idx p r" "0 \<le> sz" "sz \<le> idx" "0 \<le> k" "k \<le> r"
  shows "pibr_is (x - pack_word 0 0 sz k) pid (idx - sz) p (r - k)"
proof -
  have i: "pibr_is (pack_word 0 0 sz k) 0 sz 0 k"
    using assms by (intro pack_word_is) (auto simp: pibr_is_def)
  have d: "uint x - uint (pack_word 0 0 sz k) = pibr_val pid (idx - sz) (uint p) (r - k)"
    using assms i by (simp add: pibr_is_def pibr_val_def algebra_simps)
  moreover have "0 \<le> pibr_val pid (idx - sz) (uint p) (r - k)"
    using assms by (auto simp: pibr_is_def pibr_val_def)
  ultimately have "uint (pack_word 0 0 sz k) \<le> uint x" by linarith
  then have "uint (x - pack_word 0 0 sz k) = uint x - uint (pack_word 0 0 sz k)"
    by (simp add: uint_sub_lem [THEN iffD1])
  with d assms show ?thesis by (simp add: pibr_is_def)
qed

lemma pack_one: "pack_word 0 0 0 1 = 1"
  by (simp add: pack_word_def)

lemma pibr_unref: "pibr_is x pid idx p r \<Longrightarrow> 1 \<le> r \<Longrightarrow> pibr_is (x - 1) pid idx p (r - 1)"
  using pibr_release [of x pid idx p r 0 1] by (simp add: pack_one pibr_is_def)

lemma pack_word_inject:
  assumes "pibr_is x pid idx p r" and "pibr_is x pid' idx' p' r'"
  shows "pid = pid' \<and> idx = idx' \<and> p = p' \<and> r = r'"
  using pibr_is_fields [OF assms(1)] pibr_is_fields [OF assms(2)] by simp

end
