(* ===== verification/Counter.thy ===== *)
theory Counter
  imports State
begin

unbundle bit_operations_syntax

text \<open>
  The record counter (\<open>counter.c\<close>): a 64-bit number every log record is stamped
  with.  The stamps of a run of calls are consecutive, hence distinct until the
  counter wraps.
\<close>

definition cntr :: "('w proc, 64 word) exec" where
  "cntr = bnd (gets cntr_v) (\<lambda>v. andthen (modify (\<lambda>s. s\<lparr>cntr_v := v + 1\<rparr>)) (ret (1 + v)))"

definition reset_cntr :: "('w proc, unit) exec" where
  "reset_cntr = modify (\<lambda>s. s\<lparr>cntr_v := cntr_v s AND 0\<rparr>)"

lemma cntr_run: "cntr s = Some (Inr (cntr_v s + 1, s\<lparr>cntr_v := cntr_v s + 1\<rparr>))"
  by (simp add: cntr_def exec_defs add.commute)

lemma keeps_cntr [keep_rules]: "(\<And>s v. f (s\<lparr>cntr_v := v\<rparr>) = f s) \<Longrightarrow> keeps f cntr"
  by (auto simp: cntr_def intro!: keep_rules)

text \<open>\<open>n\<close> stamps taken one after the other.\<close>

fun stamps :: "nat \<Rightarrow> ('w proc, 64 word list) exec" where
  "stamps 0 = ret []"
| "stamps (Suc n) = bnd cntr (\<lambda>x. bnd (stamps n) (\<lambda>xs. ret (x # xs)))"

lemma stamps_run:
  "stamps n s = Some (Inr (map (\<lambda>i. cntr_v s + of_nat (Suc i)) [0..<n], s\<lparr>cntr_v := cntr_v s + of_nat n\<rparr>))"
proof (induction n arbitrary: s)
  case 0
  then show ?case by (simp add: exec_defs)
next
  case (Suc n)
  have "map (\<lambda>i. cntr_v s + 1 + of_nat (Suc i)) [0..<n] = map (\<lambda>i. cntr_v s + of_nat (Suc i)) [1..<Suc n]"
    by (rule nth_equalityI) (auto simp: add.assoc simp del: upt_Suc)
  then show ?case
    by (simp add: bnd_def cntr_run Suc.IH ret_def upt_conv_Cons add.assoc del: upt_Suc)
qed

lemma stamps_distinct:
  assumes "n \<le> 2 ^ 64" and "stamps n s = Some (Inr (xs, s'))"
  shows "distinct xs"
proof -
  have xs: "xs = map (\<lambda>i. cntr_v s + of_nat (Suc i)) [0..<n]"
    using assms(2) by (simp add: stamps_run)
  have "i = j" if "i < n" "j < n" "(of_nat i :: 64 word) = of_nat j" for i j
  proof -
    from that assms(1) have "i < 2 ^ 64" "j < 2 ^ 64" by auto
    moreover from that(3) have "unat (of_nat i :: 64 word) = unat (of_nat j :: 64 word)" by simp
    ultimately show ?thesis by (simp add: unat_of_nat)
  qed
  then show ?thesis
    unfolding xs by (auto simp: distinct_map inj_on_def)
qed

end
