(* ===== verification/Process.thy ===== *)
theory Process
  imports State
begin

unbundle bit_operations_syntax

text \<open>
  The process-name cache (\<open>process.c\<close>) and the \<open>err\<close> macro of \<open>fs.h\<close>.

  \<open>procname_pid\<close> packs the address of a heap copy of the name (top 32 bits)
  with the pid it was read for, so that a forked child reads its own name.  The
  loop retries while its compare-and-swap fails.
\<close>

section \<open>Reading the name\<close>

definition TAG_DBG :: string where
  "TAG_DBG = ''Storage-IODBG-UIUC''"

definition override_defaults :: "'w os \<Rightarrow> ('w proc, unit) exec" where
  "override_defaults os =
     andthen (load_sym os Process_openat ''openat'' ''__open'')
    (andthen (load_sym os Process_read ''read'' ''__read'')
             (load_sym os Process_close ''close'' ''__close''))"

text \<open>The test for a failed \<open>malloc\<close> has no effect in the source (\<open>if (!procname) NULL;\<close>).\<close>

definition read_process_name :: "'w os \<Rightarrow> ('w proc, addr) exec" where
  "read_process_name os =
     bnd (sysc (sys_malloc os PATH_MAX)) (\<lambda>procname.
     andthen (override_defaults os) (
     bnd (call Process_openat (\<lambda>f. sys_openat os f AT_FDCWD ''/proc/self/cmdline'' O_RDONLY 0)) (\<lambda>fd.
     bnd (if 0 \<le> fd then call Process_read (\<lambda>f. sys_read os f fd (PATH_MAX - 1)) else ret (- 1, [])) (\<lambda>(len, bytes).
     andthen
       (if 0 < len
        then bnd (if int PATH_MAX \<le> len
                  then andthen (aloge os TAG_DBG ''Process name too long (truncated)'') (ret (int PATH_MAX - 1))
                  else ret len) (\<lambda>len.
             store_str procname (cstr (take (nat len) bytes)))
        else bnd (asks (sys_getuid os)) (\<lambda>uid. store_str procname (snprintf 255 (dec_int uid)))) (
     andthen (if 0 \<le> fd then bnd (call Process_close (\<lambda>f. sys_close os f fd)) (\<lambda>_. ret ()) else ret ())
             (ret procname))))))"

section \<open>The cache\<close>

definition name_ptr :: "64 word \<Rightarrow> addr" where
  "name_ptr x = ucast (drop_bit 32 x)"

definition name_pid :: "64 word \<Rightarrow> int" where
  "name_pid x = sint (ucast x :: 32 word)"

definition pack_name :: "addr \<Rightarrow> int \<Rightarrow> 64 word" where
  "pack_name p pid = push_bit 32 (ucast p) OR ucast (word_of_int pid :: 32 word)"

definition cas_procname :: "64 word \<Rightarrow> 64 word \<Rightarrow> ('w proc, bool) exec" where
  "cas_procname old new = bnd (gets procname_pid) (\<lambda>v.
     if v = old then andthen (modify (\<lambda>s. s\<lparr>procname_pid := new\<rparr>)) (ret True) else ret False)"

partial_function (option) process_loop ::
  "'w os \<Rightarrow> int \<Rightarrow> addr \<Rightarrow> 'w proc \<Rightarrow> (fault + addr \<times> 'w proc) option" where
  "process_loop os new_pid procname s =
     bnd (gets procname_pid) (\<lambda>old.
     bnd (if name_pid old = new_pid
          then bnd (load_str (name_ptr old)) (\<lambda>n. ret (\<not> strcmp0 n ''zygote''))
          else ret False) (\<lambda>cached.
     if cached then ret (name_ptr old) else
     bnd (if procname = 0 then read_process_name os else ret procname) (\<lambda>p.
     if p = 0 then process_loop os new_pid p else
     bnd (cas_procname old (pack_name p new_pid)) (\<lambda>ok.
     if ok then andthen (if name_ptr old \<noteq> 0 then free_str os (name_ptr old) else ret ()) (ret p)
     else andthen (free_str os p) (process_loop os new_pid 0))))) s"

definition process_name :: "'w os \<Rightarrow> ('w proc, addr) exec" where
  "process_name os = bnd (asks (sys_getpid os)) (\<lambda>new_pid. process_loop os new_pid 0)"

text \<open>The name itself, as the callers print it with \<open>%s\<close>.\<close>

definition process_name_str :: "'w os \<Rightarrow> ('w proc, string) exec" where
  "process_name_str os = bnd (process_name os) load_str"

text \<open>\<open>err(fmt, ...)\<close> of \<open>fs.h\<close>: it calls \<open>process_name\<close> and prints at error priority.\<close>

definition err :: "'w os \<Rightarrow> string \<Rightarrow> ('w proc, unit) exec" where
  "err os txt = bnd (process_name_str os) (\<lambda>_.
     andthen (android_log os ANDROID_LOG_ERROR ''Storage-IOERR-UIUC'' txt) (ret ()))"

section \<open>The packed cache word\<close>

lemma name_ptr_pack [simp]: "name_ptr (pack_name p pid) = p"
  unfolding name_ptr_def pack_name_def
  by (rule bit_word_eqI) (auto simp: bit_simps)

lemma name_pid_pack: "- 2147483648 \<le> pid \<Longrightarrow> pid < 2147483648 \<Longrightarrow> name_pid (pack_name p pid) = pid"
proof -
  assume r: "- 2147483648 \<le> pid" "pid < 2147483648"
  have "ucast (pack_name p pid) = (word_of_int pid :: 32 word)"
    unfolding pack_name_def by (rule bit_word_eqI) (auto simp: bit_simps)
  then have "name_pid (pack_name p pid) = sint (word_of_int pid :: 32 word)"
    by (simp only: name_pid_def)
  also have "\<dots> = signed_take_bit 31 pid"
    by (simp add: sint_sbintrunc')
  also have "\<dots> = pid"
    using r by (simp add: signed_take_bit_int_eq_self)
  finally show ?thesis .
qed

section \<open>What the name cache leaves alone\<close>

text \<open>
  Observations that do not look at the world, the log, the function pointers of the logger or
  the cache.
\<close>

definition logger_slot :: "fslot \<Rightarrow> bool" where
  "logger_slot v \<longleftrightarrow> v \<in> {Process_openat, Process_read, Process_close, Flusher_create, Flusher_openat}"

lemma logger_slots [simp]:
  "logger_slot Process_openat" "logger_slot Process_read" "logger_slot Process_close"
  "logger_slot Flusher_create" "logger_slot Flusher_openat"
  by (simp_all add: logger_slot_def)

definition indep_io :: "('w proc \<Rightarrow> 'v) \<Rightarrow> bool" where
  "indep_io f \<longleftrightarrow> (\<forall>s w. f (s\<lparr>world := w\<rparr>) = f s) \<and> (\<forall>s l. f (s\<lparr>logs := l\<rparr>) = f s)"

definition indep_name :: "('w proc \<Rightarrow> 'v) \<Rightarrow> bool" where
  "indep_name f \<longleftrightarrow> indep_io f \<and> (\<forall>s v g. logger_slot v \<longrightarrow> f (s\<lparr>fptr := (fptr s)(v := g)\<rparr>) = f s) \<and>
     (\<forall>s h. f (s\<lparr>strs := h\<rparr>) = f s) \<and> (\<forall>s v. f (s\<lparr>procname_pid := v\<rparr>) = f s)"

lemmas indep_defs = indep_io_def indep_name_def

lemma indep_nameD:
  assumes "indep_name f"
  shows "f (s\<lparr>world := w\<rparr>) = f s" "f (s\<lparr>logs := l\<rparr>) = f s"
    "logger_slot u \<Longrightarrow> f (s\<lparr>fptr := (fptr s)(u := g)\<rparr>) = f s"
    "f (s\<lparr>strs := h\<rparr>) = f s" "f (s\<lparr>procname_pid := v\<rparr>) = f s"
  using assms by (simp_all add: indep_defs)

lemma keeps_override_defaults [keep_rules]:
  "(\<And>s u g. logger_slot u \<Longrightarrow> f (s\<lparr>fptr := (fptr s)(u := g)\<rparr>) = f s) \<Longrightarrow> keeps f (override_defaults os)"
  by (auto simp: override_defaults_def intro!: keep_rules)

lemma keeps_read_process_name [keep_rules]:
  "(\<And>s w. f (s\<lparr>world := w\<rparr>) = f s) \<Longrightarrow> (\<And>s l. f (s\<lparr>logs := l\<rparr>) = f s) \<Longrightarrow>
   (\<And>s u g. logger_slot u \<Longrightarrow> f (s\<lparr>fptr := (fptr s)(u := g)\<rparr>) = f s) \<Longrightarrow> (\<And>s h. f (s\<lparr>strs := h\<rparr>) = f s) \<Longrightarrow>
     keeps f (read_process_name os)"
  unfolding read_process_name_def by (intro keep_rules) auto

lemma keeps_cas_procname [keep_rules]:
  "(\<And>s v. f (s\<lparr>procname_pid := v\<rparr>) = f s) \<Longrightarrow> keeps f (cas_procname old new)"
  by (auto simp: cas_procname_def intro!: keep_rules)

lemma keeps_process_loop:
  assumes f: "indep_name f"
  shows "keeps f (process_loop os np p)"
proof -
  note ff = indep_nameD [OF f]
  have "\<forall>x s'. y = Inr (x, s') \<longrightarrow> f s' = f s" if "process_loop os np p s = Some y" for s y
  proof (rule process_loop.raw_induct
      [where P = "\<lambda>os np p s y. \<forall>x s'. y = Inr (x, s') \<longrightarrow> f s' = f s", OF _ that])
    fix pl :: "'a os \<Rightarrow> int \<Rightarrow> addr \<Rightarrow> 'a proc \<Rightarrow> (fault + addr \<times> 'a proc) option"
      and os np p s y
    assume IH: "\<And>os np p s y. pl os np p s = Some y \<Longrightarrow> \<forall>x s'. y = Inr (x, s') \<longrightarrow> f s' = f s"
      and body: "bnd (gets procname_pid) (\<lambda>old.
        bnd (if name_pid old = np
             then bnd (load_str (name_ptr old)) (\<lambda>n. ret (\<not> strcmp0 n ''zygote''))
             else ret False) (\<lambda>cached.
        if cached then ret (name_ptr old) else
        bnd (if p = 0 then read_process_name os else ret p) (\<lambda>p.
        if p = 0 then pl os np p else
        bnd (cas_procname old (pack_name p np)) (\<lambda>ok.
        if ok then andthen (if name_ptr old \<noteq> 0 then free_str os (name_ptr old) else ret ()) (ret p)
        else andthen (free_str os p) (pl os np 0))))) s = Some y" (is "?body s = _")
    have pl: "keeps f (pl os np q)" for q
      unfolding keeps_def using IH by blast
    have "keeps f ?body"
      by (intro keep_rules pl ff) assumption
    with body show "\<forall>x s'. y = Inr (x, s') \<longrightarrow> f s' = f s"
      by (auto dest: keepsD)
  qed
  then show ?thesis unfolding keeps_def by blast
qed

lemma keeps_process_name [keep_rules]: "indep_name f \<Longrightarrow> keeps f (process_name os)"
  unfolding process_name_def by (intro keep_rules keeps_process_loop)

lemma keeps_process_name_str [keep_rules]: "indep_name f \<Longrightarrow> keeps f (process_name_str os)"
  unfolding process_name_str_def by (intro keep_rules)

lemma keeps_err [keep_rules]: "indep_name f \<Longrightarrow> keeps f (err os txt)"
  unfolding err_def by (intro keep_rules) (auto simp: indep_nameD)

section \<open>What a lookup returns\<close>

lemma process_name_hit:
  assumes "name_pid (procname_pid s) = sys_getpid os (world s)"
    and "name_ptr (procname_pid s) = p" and "p \<noteq> 0" and "strs s p = Some n" and "n \<noteq> ''zygote''"
  shows "process_name os s = Some (Inr (p, s))"
  using assms unfolding process_name_def
  by (simp add: asks_def exec_defs process_loop.simps load_str_def strcmp0_def)

text \<open>The cache holds the name \<open>n\<close> for the running process.\<close>

definition name_cached :: "'w os \<Rightarrow> 'w proc \<Rightarrow> string \<Rightarrow> bool" where
  "name_cached os s n \<longleftrightarrow> name_pid (procname_pid s) = sys_getpid os (world s) \<and>
     name_ptr (procname_pid s) \<noteq> 0 \<and> strs s (name_ptr (procname_pid s)) = Some n \<and> n \<noteq> ''zygote''"

lemma process_name_str_hit: "name_cached os s n \<Longrightarrow> process_name_str os s = Some (Inr (n, s))"
  unfolding process_name_str_def
  by (simp add: name_cached_def bnd_def process_name_hit load_str_def gets_def ret_def)

text \<open>
  Reading a name the ordinary way: the allocation succeeds, \<open>/proc/self/cmdline\<close>
  opens and yields some bytes.  The name is the first NUL-terminated piece of them.
\<close>

definition name_fptrs :: "'w os \<Rightarrow> 'w proc \<Rightarrow> fslot \<Rightarrow> nat" where
  "name_fptrs os s = (fptr s)
     (Process_openat := resolved os s Process_openat ''openat'' ''__open'',
      Process_read := resolved os s Process_read ''read'' ''__read'',
      Process_close := resolved os s Process_close ''close'' ''__close'')"

definition names_read :: "'w os \<Rightarrow> 'w proc \<Rightarrow> addr \<Rightarrow> string \<Rightarrow> 'w \<Rightarrow> bool" where
  "names_read os s p n w' \<longleftrightarrow>
     (\<exists>w1 fd w2 len bytes w3 r.
        let g = name_fptrs os s in
        g Process_openat \<noteq> 0 \<and> g Process_read \<noteq> 0 \<and> g Process_close \<noteq> 0 \<and>
        sys_malloc os PATH_MAX (world s) = (p, w1) \<and> p \<noteq> 0 \<and>
        sys_openat os (g Process_openat) AT_FDCWD ''/proc/self/cmdline'' O_RDONLY 0 w1 = (fd, w2) \<and> 0 \<le> fd \<and>
        sys_read os (g Process_read) fd (PATH_MAX - 1) w2 = ((len, bytes), w3) \<and> 0 < len \<and> len < int PATH_MAX \<and>
        sys_close os (g Process_close) fd w3 = (r, w') \<and> n = cstr (take (nat len) bytes))"

lemma resolved_fptr [simp]:
  "v \<noteq> u \<Longrightarrow> resolved os (s\<lparr>fptr := (fptr s)(u := g)\<rparr>) v a b = resolved os s v a b"
  "resolved os (s\<lparr>world := w\<rparr>) v a b = resolved os s v a b"
  by (simp_all add: resolved_def)

lemma override_defaults_run:
  "override_defaults os s = Some (Inr ((), s\<lparr>fptr := name_fptrs os s\<rparr>))"
  by (simp add: override_defaults_def andthen_def bnd_def load_sym_run name_fptrs_def resolved_def)

lemma name_fptrs_world [simp]: "name_fptrs os (s\<lparr>world := w\<rparr>) = name_fptrs os s"
  by (simp add: name_fptrs_def)

lemma read_process_name_run:
  assumes "names_read os s p n w'"
  shows "read_process_name os s =
    Some (Inr (p, s\<lparr>world := w', fptr := name_fptrs os s, strs := (strs s)(p \<mapsto> n)\<rparr>))"
  using assms unfolding names_read_def Let_def
  by (clarsimp simp: read_process_name_def bnd_def andthen_def sysc_def override_defaults_run
      call_def gets_def ret_def store_str_def modify_def)

lemma process_name_miss:
  assumes pid: "name_pid (procname_pid s) \<noteq> sys_getpid os (world s)"
    and rd: "names_read os s p n w'"
    and old: "name_ptr (procname_pid s) = 0"
  shows "process_name os s = Some (Inr (p, s\<lparr>world := w', fptr := name_fptrs os s,
      strs := (strs s)(p \<mapsto> n), procname_pid := pack_name p (sys_getpid os (world s))\<rparr>))"
proof -
  have "p \<noteq> 0" using rd by (auto simp: names_read_def Let_def)
  then show ?thesis
    using pid old unfolding process_name_def
    by (simp add: asks_def exec_defs process_loop.simps read_process_name_run [OF rd] cas_procname_def)
qed

text \<open>A cached name \<open>zygote\<close> is that of a child before it is renamed: it is read anew and given back.\<close>

lemma process_name_zygote:
  assumes pid: "name_pid (procname_pid s) = sys_getpid os (world s)"
    and old: "name_ptr (procname_pid s) = p" "p \<noteq> 0" "strs s p = Some ''zygote''"
    and rd: "names_read os s q n w'" and ne: "q \<noteq> p"
  shows "process_name os s = Some (Inr (q, s\<lparr>world := sys_free os p w', fptr := name_fptrs os s,
      strs := (strs s)(q \<mapsto> n, p := None), procname_pid := pack_name q (sys_getpid os (world s))\<rparr>))"
proof -
  have "q \<noteq> 0" using rd by (auto simp: names_read_def Let_def)
  then show ?thesis
    using pid old ne unfolding process_name_def
    by (simp add: asks_def exec_defs process_loop.simps load_str_def strcmp0_def read_process_name_run [OF rd]
        cas_procname_def free_str_def sysc_def)
qed

end
