(* ===== verification/Bblog.thy ===== *)
theory Bblog
  imports Pibr Counter Process
begin

unbundle bit_operations_syntax

text \<open>
  The batching logger (\<open>bblog.c\<close>).

  Log records are appended to a heap buffer that starts with a JSON prefix naming
  the process; a record that does not fit makes the buffer be swapped for a fresh
  one and written to the Android log.  The packed word in front of the buffer holds
  the write index and a reference count.  This theory translates the functions as
  one thread runs them.
\<close>

section \<open>The functions\<close>

definition TAG_IO :: string where
  "TAG_IO = ''Storage-IO-UIUC''"

definition NOBATCH_LOG_TAG :: string where
  "NOBATCH_LOG_TAG = ''Storage-IONB-UIUC''"

definition no_batch_text :: "int \<Rightarrow> string \<Rightarrow> string \<Rightarrow> string" where
  \<open>no_batch_text pid name buffer =
     ''{"PID":'' @ dec_int pid @ '',"PROC":"'' @ name @ ''","BATCH":{'' @ buffer @ ''"NOBATCH":"YES"}}''\<close>

definition no_batch_blog :: "'w os \<Rightarrow> string \<Rightarrow> ('w proc, int) exec" where
  "no_batch_blog os buffer =
     bnd (asks (sys_getpid os)) (\<lambda>pid.
     bnd (process_name_str os) (\<lambda>name.
     android_log os ANDROID_LOG_INFO NOBATCH_LOG_TAG
       (snprintf LOGGER_ENTRY_MAX_PAYLOAD (no_batch_text pid name buffer))))"

definition cas_procid :: "int \<Rightarrow> int \<Rightarrow> ('w proc, bool) exec" where
  "cas_procid old new = bnd (gets procid) (\<lambda>v.
     if v = old then andthen (modify (\<lambda>s. s\<lparr>procid := new\<rparr>)) (ret True) else ret False)"

definition prefix_text :: "int \<Rightarrow> string \<Rightarrow> string" where
  \<open>prefix_text pid name = ''{"PID":'' @ dec_int pid @ '',"PROC":"'' @ name @ ''","BATCH":{''\<close>

partial_function (option) reinit_procid ::
  "'w os \<Rightarrow> int \<Rightarrow> 'w proc \<Rightarrow> (fault + int \<times> 'w proc) option" where
  "reinit_procid os new_pid s =
     bnd (gets procid) (\<lambda>old_pid.
     if old_pid = new_pid then ret 0 else
     bnd (process_name_str os) (\<lambda>name.
     andthen (modify (\<lambda>s. s\<lparr>prefix := snprintf MAX_PREFIX_LEN (prefix_text new_pid name),
                           prefix_len := int (length (prefix_text new_pid name))\<rparr>)) (
     bnd (gets prefix_len) (\<lambda>len.
     if int MAX_PREFIX_LEN \<le> len then andthen (err os ''Prefix too long'') (ret (- 1)) else
     bnd (cas_procid old_pid new_pid) (\<lambda>ok.
     if ok then ret 0 else reinit_procid os new_pid))))) s"

definition pack_buffer :: "'w os \<Rightarrow> addr \<Rightarrow> int \<Rightarrow> int \<Rightarrow> int \<Rightarrow> ('w proc, 64 word) exec" where
  "pack_buffer os ptr pid idx refcnt =
     (if pid < 0 \<or> PID_MAX < pid then andthen (err os ''Invalid PID'') (ret 0)
      else ret (pack_word ptr pid idx refcnt))"

text \<open>\<open>strcpy\<close> and \<open>memcpy\<close> into the bytes of a buffer.\<close>

definition copy_into :: "addr \<Rightarrow> int \<Rightarrow> char list \<Rightarrow> ('w proc, unit) exec" where
  "copy_into ptr i cs = bnd (load_buf ptr) (\<lambda>b.
     if i < 0 then crash OutOfBounds
     else case write_at (nat i) cs (buf b) of
         None \<Rightarrow> crash OutOfBounds
       | Some bs \<Rightarrow> store_buf ptr (b\<lparr>buf := bs\<rparr>))"

definition init_buffer :: "'w os \<Rightarrow> addr \<Rightarrow> int \<Rightarrow> ('w proc, unit) exec" where
  "init_buffer os ptr pid =
     bnd (reinit_procid os pid) (\<lambda>r.
     if r = - 1 then ret () else
     bnd (gets prefix) (\<lambda>pre.
     andthen (copy_into ptr 0 (pre @ [NUL])) (
     bnd (gets prefix_len) (\<lambda>len.
     bnd (pack_buffer os ptr pid len 0) (\<lambda>w.
     bnd (load_buf ptr) (\<lambda>b. store_buf ptr (b\<lparr>pibr := w\<rparr>)))))))"

definition alloc_buffer :: "'w os \<Rightarrow> int \<Rightarrow> ('w proc, addr) exec" where
  "alloc_buffer os pid =
     bnd (sysc (sys_memalign os 4096 LOGGER_ENTRY_MAX_PAYLOAD)) (\<lambda>(ptr, b).
     if ptr = 0 then andthen (err os ''Failed to alloc pibr'') (ret 0) else
     andthen (store_buf ptr b) (
     if ptr AND 0xfff \<noteq> 0
     then andthen (err os ''Failed to alloc aligned buffer'') (andthen (free_buf os ptr) (ret 0))
     else andthen (init_buffer os ptr pid) (ret ptr)))"

text \<open>\<open>while (!__sync_bool_compare_and_swap(&ptr->pibr, pibr, 0)) ;\<close>\<close>

partial_function (option) await_quiet ::
  "addr \<Rightarrow> 64 word \<Rightarrow> 'w proc \<Rightarrow> (fault + unit \<times> 'w proc) option" where
  "await_quiet ptr w s =
     bnd (load_buf ptr) (\<lambda>b.
     if pibr b = w then store_buf ptr (b\<lparr>pibr := 0\<rparr>) else await_quiet ptr w) s"

definition flush_buffer :: "'w os \<Rightarrow> addr \<Rightarrow> ('w proc, unit) exec" where
  "flush_buffer os ptr =
     (if ptr = 0 then ret () else
     bnd (load_buf ptr) (\<lambda>b.
     bnd (gets procid) (\<lambda>me.
     if me \<noteq> PIBR_PID (pibr b) then ret () else
     bnd (load_buf ptr) (\<lambda>b'.
     bnd (gets prefix_len) (\<lambda>plen.
     if plen = PIBR_IDX (pibr b') then ret () else
     bnd (pack_buffer os ptr (PIBR_PID (pibr b)) (PIBR_IDX (pibr b')) 0) (\<lambda>w.
     andthen (await_quiet ptr w) (
     andthen (copy_into ptr (PIBR_IDX (pibr b') - 1) (''}}'' @ [NUL])) (
     bnd (load_buf ptr) (\<lambda>b.
     andthen (android_log os ANDROID_LOG_INFO TAG_IO (cstr (buf b))) (
     bnd (sysc (sys_clock os)) (\<lambda>secs.
     andthen (modify (\<lambda>s. s\<lparr>last_flush_secs := secs\<rparr>))
             (free_buf os ptr))))))))))))"

text \<open>\<open>swap_buffers\<close> returns whether the current buffer was replaced.\<close>

definition cas_proc_pibr :: "addr \<Rightarrow> addr \<Rightarrow> ('w proc, bool) exec" where
  "cas_proc_pibr old new = bnd (gets proc_pibr) (\<lambda>v.
     if v = old then andthen (modify (\<lambda>s. s\<lparr>proc_pibr := new\<rparr>)) (ret True) else ret False)"

definition swap_buffers :: "'w os \<Rightarrow> addr \<Rightarrow> int \<Rightarrow> ('w proc, bool) exec" where
  "swap_buffers os cur new_pid =
     bnd (cas_proc_pibr cur cur) (\<lambda>same.
     if \<not> same then ret False else
     bnd (alloc_buffer os new_pid) (\<lambda>new_ptr.
     if new_ptr = 0 then andthen (modify (\<lambda>s. s\<lparr>proc_pibr := proc_pibr s AND 0\<rparr>)) (ret True) else
     bnd (cas_proc_pibr cur new_ptr) (\<lambda>ok.
     if ok then ret True else andthen (free_buf os new_ptr) (ret False))))"

definition swap_and_flush_buffer :: "'w os \<Rightarrow> addr \<Rightarrow> int \<Rightarrow> ('w proc, unit) exec" where
  "swap_and_flush_buffer os cur new_pid =
     bnd (swap_buffers os cur new_pid) (\<lambda>r.
     if r \<and> cur \<noteq> 0 then flush_buffer os (cur AND NOT 0xfff) else ret ())"

text \<open>\<open>__sync_fetch_and_add\<close> and \<open>__sync_fetch_and_sub\<close> on a packed word; they yield the old value.\<close>

definition fetch_add :: "addr \<Rightarrow> 64 word \<Rightarrow> ('w proc, 64 word) exec" where
  "fetch_add p d = bnd (load_buf p) (\<lambda>b. andthen (store_buf p (b\<lparr>pibr := pibr b + d\<rparr>)) (ret (pibr b)))"

definition fetch_sub :: "addr \<Rightarrow> 64 word \<Rightarrow> ('w proc, 64 word) exec" where
  "fetch_sub p d = bnd (load_buf p) (\<lambda>b. andthen (store_buf p (b\<lparr>pibr := pibr b - d\<rparr>)) (ret (pibr b)))"

definition BATCH_LIMIT :: int where
  "BATCH_LIMIT = int LOGGER_ENTRY_MAX_PAYLOAD - 32"

partial_function (option) blog_loop ::
  "'w os \<Rightarrow> int \<Rightarrow> 64 word \<Rightarrow> string \<Rightarrow> 'w proc \<Rightarrow> (fault + int \<times> 'w proc) option" where
  "blog_loop os new_pid incr record s =
     bnd (gets proc_pibr) (\<lambda>p.
     bnd (fetch_add p incr) (\<lambda>cur.
     if PIBR_PTR cur = 0
     then andthen (fetch_sub (PIBR_PTR cur) incr) (no_batch_blog os record)
     else if PIBR_PID cur = new_pid \<and> PIBR_IDX cur + int (length record) < BATCH_LIMIT
     then andthen (copy_into (PIBR_PTR cur) (PIBR_IDX cur) record)
         (andthen (fetch_sub (PIBR_PTR cur) 1) (ret (int (length record))))
     else andthen (fetch_sub (PIBR_PTR cur) incr)
         (andthen (swap_and_flush_buffer os (PIBR_PTR cur) new_pid)
                  (blog_loop os new_pid incr record)))) s"

text \<open>\<open>_blog\<close>\<close>

definition do_blog :: "'w os \<Rightarrow> string \<Rightarrow> ('w proc, int) exec" where
  "do_blog os record =
     bnd (asks (sys_getpid os)) (\<lambda>new_pid.
     bnd (pack_buffer os 0 0 (int (length record)) 1) (\<lambda>incr.
     blog_loop os new_pid incr record))"

definition rec_head :: "64 word \<Rightarrow> string" where
  \<open>rec_head n = ''"REC_'' @ dec_nat (unat n) @ ''":''\<close>

text \<open>\<open>bblog(format, ...)\<close>; \<open>msg\<close> is the format with its arguments filled in.\<close>

definition bblog :: "'w os \<Rightarrow> string \<Rightarrow> ('w proc, int) exec" where
  "bblog os msg =
     bnd cntr (\<lambda>n.
     let head_len = length (rec_head n); size = head_len + length msg in
     if BUFFER_SIZE - 2 \<le> size then andthen (err os ''Data too long'') (ret (- 1)) else
     do_blog os (snprintf 32 (rec_head n) @ snprintf (BUFFER_SIZE - head_len - 2) msg @ '',''))"

section \<open>Runs of the primitives\<close>

lemma load_buf_run: "bufs s p = Some b \<Longrightarrow> p \<noteq> 0 \<Longrightarrow> load_buf p s = Some (Inr (b, s))"
  by (simp add: load_buf_def exec_defs)

lemma store_buf_run: "store_buf p b s = Some (Inr ((), s\<lparr>bufs := (bufs s)(p \<mapsto> b)\<rparr>))"
  by (simp add: store_buf_def exec_defs)

lemma fetch_add_run:
  "bufs s p = Some b \<Longrightarrow> p \<noteq> 0 \<Longrightarrow>
     fetch_add p d s = Some (Inr (pibr b, s\<lparr>bufs := (bufs s)(p \<mapsto> b\<lparr>pibr := pibr b + d\<rparr>)\<rparr>))"
  by (simp add: fetch_add_def bnd_def andthen_def load_buf_run store_buf_run ret_def)

lemma fetch_sub_run:
  "bufs s p = Some b \<Longrightarrow> p \<noteq> 0 \<Longrightarrow>
     fetch_sub p d s = Some (Inr (pibr b, s\<lparr>bufs := (bufs s)(p \<mapsto> b\<lparr>pibr := pibr b - d\<rparr>)\<rparr>))"
  by (simp add: fetch_sub_def bnd_def andthen_def load_buf_run store_buf_run ret_def)

lemma copy_into_run:
  "bufs s p = Some b \<Longrightarrow> p \<noteq> 0 \<Longrightarrow> 0 \<le> i \<Longrightarrow> write_at (nat i) cs (buf b) = Some bs \<Longrightarrow>
     copy_into p i cs s = Some (Inr ((), s\<lparr>bufs := (bufs s)(p \<mapsto> b\<lparr>buf := bs\<rparr>)\<rparr>))"
  by (simp add: copy_into_def bnd_def load_buf_run store_buf_run)

lemma await_quiet_run:
  "bufs s p = Some b \<Longrightarrow> p \<noteq> 0 \<Longrightarrow> pibr b = w \<Longrightarrow>
     await_quiet p w s = Some (Inr ((), s\<lparr>bufs := (bufs s)(p \<mapsto> b\<lparr>pibr := 0\<rparr>)\<rparr>))"
  by (simp add: await_quiet.simps bnd_def load_buf_run store_buf_run)

lemma free_buf_run:
  "bufs s p = Some b \<Longrightarrow> free_buf os p s = Some (Inr ((), s\<lparr>world := sys_free os p (world s), bufs := (bufs s)(p := None)\<rparr>))"
  by (simp add: free_buf_def exec_defs sysc_def)

lemma android_log_run:
  "android_log os pr tag txt s = Some (Inr (fst (sys_log os (LogEv pr tag txt) (world s)),
     s\<lparr>logs := logs s @ [LogEv pr tag txt], world := snd (sys_log os (LogEv pr tag txt) (world s))\<rparr>))"
  by (simp add: android_log_def emit_def exec_defs sysc_def split: prod.splits)

lemma reinit_procid_same: "procid s = pid \<Longrightarrow> reinit_procid os pid s = Some (Inr (0, s))"
  by (simp add: reinit_procid.simps exec_defs)

lemma pack_buffer_run:
  "0 \<le> pid \<Longrightarrow> pid \<le> PID_MAX \<Longrightarrow> pack_buffer os p pid i r s = Some (Inr (pack_word p pid i r, s))"
  by (simp add: pack_buffer_def ret_def)

lemmas run_rules = load_buf_run store_buf_run fetch_add_run fetch_sub_run copy_into_run
  await_quiet_run free_buf_run android_log_run reinit_procid_same pack_buffer_run

text \<open>The loop of \<open>flush_buffer\<close> on such a word never returns.\<close>

lemma await_quiet_spins:
  assumes "bufs s p = Some b" and "p \<noteq> 0" and "pibr b \<noteq> w"
  shows "await_quiet p w s = None"
proof (rule ccontr)
  assume "await_quiet p w s \<noteq> None"
  then obtain y where run: "await_quiet p w s = Some y" by blast
  let ?P = "\<lambda>p w s y. \<not> (p \<noteq> 0 \<and> (\<exists>b. bufs s p = Some b \<and> pibr b \<noteq> w))"
  have "?P p w s y"
    by (rule await_quiet.raw_induct [where P = ?P, OF _ run])
      (auto simp: bnd_def load_buf_run split: if_splits, blast)
  then show False using assms by blast
qed

lemma await_quiet_outcome:
  assumes "bufs s p = Some b" and "p \<noteq> 0"
  shows "await_quiet p w s = (if pibr b = w then Some (Inr ((), s\<lparr>bufs := (bufs s)(p \<mapsto> b\<lparr>pibr := 0\<rparr>)\<rparr>)) else None)"
  using await_quiet_run [OF assms] await_quiet_spins [OF assms] by auto

section \<open>What logging leaves alone\<close>

text \<open>Observations that do not look at what the logger owns.\<close>

definition indep_log :: "('w proc \<Rightarrow> 'v) \<Rightarrow> bool" where
  "indep_log f \<longleftrightarrow> indep_name f \<and> (\<forall>s h. f (s\<lparr>bufs := h\<rparr>) = f s) \<and>
     (\<forall>s v. f (s\<lparr>prefix := v\<rparr>) = f s) \<and> (\<forall>s v. f (s\<lparr>prefix_len := v\<rparr>) = f s) \<and>
     (\<forall>s v. f (s\<lparr>procid := v\<rparr>) = f s) \<and> (\<forall>s v. f (s\<lparr>proc_pibr := v\<rparr>) = f s) \<and>
     (\<forall>s v. f (s\<lparr>last_flush_secs := v\<rparr>) = f s)"

lemma indep_logD:
  assumes "indep_log f"
  shows "indep_name f" "f (s\<lparr>bufs := h\<rparr>) = f s" "f (s\<lparr>prefix := t\<rparr>) = f s" "f (s\<lparr>prefix_len := i\<rparr>) = f s"
    "f (s\<lparr>procid := i\<rparr>) = f s" "f (s\<lparr>proc_pibr := p\<rparr>) = f s" "f (s\<lparr>last_flush_secs := i\<rparr>) = f s"
    "f (s\<lparr>world := w\<rparr>) = f s" "f (s\<lparr>logs := l\<rparr>) = f s"
  using assms by (simp_all add: indep_log_def indep_nameD)

text \<open>A loop keeps what its body keeps when the recursive call does.\<close>

lemma keeps_by_runs:
  assumes "\<And>s y. m s = Some y \<Longrightarrow> \<forall>x s'. y = Inr (x, s') \<longrightarrow> f s' = f s"
  shows "keeps f m"
  unfolding keeps_def using assms by blast

lemma keeps_reinit_procid [keep_rules]:
  assumes f: "indep_log f" shows "keeps f (reinit_procid os pid)"
proof (rule keeps_by_runs)
  fix s y assume "reinit_procid os pid s = Some y"
  then show "\<forall>x s'. y = Inr (x, s') \<longrightarrow> f s' = f s"
  proof (rule reinit_procid.raw_induct
      [where P = "\<lambda>os pid s y. \<forall>x s'. y = Inr (x, s') \<longrightarrow> f s' = f s", rotated])
    fix rp os pid s y
    assume "\<And>os pid s y. rp os pid s = Some y \<Longrightarrow> \<forall>x s'. y = Inr (x, s') \<longrightarrow> f s' = f s"
      and body: "bnd (gets procid) (\<lambda>old_pid.
     if old_pid = pid then ret 0 else
     bnd (process_name_str os) (\<lambda>name.
     andthen (modify (\<lambda>s. s\<lparr>prefix := snprintf MAX_PREFIX_LEN (prefix_text pid name),
                           prefix_len := int (length (prefix_text pid name))\<rparr>)) (
     bnd (gets prefix_len) (\<lambda>len.
     if int MAX_PREFIX_LEN \<le> len then andthen (err os ''Prefix too long'') (ret (- 1)) else
     bnd (cas_procid old_pid pid) (\<lambda>ok.
     if ok then ret 0 else rp os pid))))) s = Some y" (is "?body s = _")
    then have rp: "keeps f (rp os pid)" by (intro keeps_by_runs) blast
    have "keeps f ?body"
      unfolding cas_procid_def
      by (intro keep_rules rp indep_logD [OF f]) (simp_all add: indep_logD [OF f])
    with body show "\<forall>x s'. y = Inr (x, s') \<longrightarrow> f s' = f s" by (auto dest: keepsD)
  qed
qed

lemma keeps_await_quiet [keep_rules]:
  fixes f :: "'w proc \<Rightarrow> 'v"
  assumes f: "\<And>s h. f (s\<lparr>bufs := h\<rparr>) = f s" shows "keeps f (await_quiet p w)"
proof (rule keeps_by_runs)
  fix s :: "'w proc" and y assume "await_quiet p w s = Some y"
  then show "\<forall>x s'. y = Inr (x, s') \<longrightarrow> f s' = f s"
  proof (rule await_quiet.raw_induct
      [where P = "\<lambda>p w s y. \<forall>x s'. y = Inr (x, s') \<longrightarrow> f s' = f s", rotated])
    fix aq p w and s :: "'w proc" and y
    assume "\<And>p w s y. aq p w s = Some y \<Longrightarrow> \<forall>x s'. y = Inr (x, s') \<longrightarrow> f s' = f s"
      and body: "bnd (load_buf p) (\<lambda>b.
     if pibr b = w then store_buf p (b\<lparr>pibr := 0\<rparr>) else aq p w) s = Some y" (is "?body s = _")
    then have aq: "keeps f (aq p w)" by (intro keeps_by_runs) blast
    have "keeps f ?body" by (intro keep_rules aq f)
    with body show "\<forall>x s'. y = Inr (x, s') \<longrightarrow> f s' = f s" by (auto dest: keepsD)
  qed
qed

lemma keeps_pack_buffer [keep_rules]: "indep_name f \<Longrightarrow> keeps f (pack_buffer os p pid i r)"
  unfolding pack_buffer_def by (intro keep_rules)

lemma keeps_copy_into [keep_rules]: "(\<And>s h. f (s\<lparr>bufs := h\<rparr>) = f s) \<Longrightarrow> keeps f (copy_into p i cs)"
  unfolding copy_into_def by (intro keep_rules) auto

lemma keeps_alloc_buffer [keep_rules]: "indep_log f \<Longrightarrow> keeps f (alloc_buffer os pid)"
  unfolding alloc_buffer_def init_buffer_def by (intro keep_rules) (simp_all add: indep_logD)

lemma keeps_flush_buffer [keep_rules]: "indep_log f \<Longrightarrow> keeps f (flush_buffer os p)"
  unfolding flush_buffer_def by (intro keep_rules) (simp_all add: indep_logD)

lemma keeps_flush_proc_pibr: "keeps proc_pibr (flush_buffer os p)"
  unfolding flush_buffer_def by (intro keep_rules) (simp_all add: indep_defs)

lemma keeps_swap_buffers [keep_rules]: "indep_log f \<Longrightarrow> keeps f (swap_buffers os p pid)"
  unfolding swap_buffers_def cas_proc_pibr_def by (intro keep_rules) (simp_all add: indep_logD)

lemma keeps_swap_and_flush [keep_rules]: "indep_log f \<Longrightarrow> keeps f (swap_and_flush_buffer os p pid)"
  unfolding swap_and_flush_buffer_def by (intro keep_rules)

lemma keeps_fetch [keep_rules]:
  "(\<And>s h. f (s\<lparr>bufs := h\<rparr>) = f s) \<Longrightarrow> keeps f (fetch_add p d)"
  "(\<And>s h. f (s\<lparr>bufs := h\<rparr>) = f s) \<Longrightarrow> keeps f (fetch_sub p d)"
  unfolding fetch_add_def fetch_sub_def by (intro keep_rules; simp)+

lemma keeps_no_batch_blog [keep_rules]: "indep_name f \<Longrightarrow> keeps f (no_batch_blog os r)"
  unfolding no_batch_blog_def by (intro keep_rules) (simp_all add: indep_nameD)

lemma keeps_blog_loop [keep_rules]:
  assumes f: "indep_log f" shows "keeps f (blog_loop os pid incr r)"
proof (rule keeps_by_runs)
  fix s y assume "blog_loop os pid incr r s = Some y"
  then show "\<forall>x s'. y = Inr (x, s') \<longrightarrow> f s' = f s"
  proof (rule blog_loop.raw_induct
      [where P = "\<lambda>os pid incr r s y. \<forall>x s'. y = Inr (x, s') \<longrightarrow> f s' = f s", rotated])
    fix bl os pid incr r s y
    assume "\<And>os pid incr r s y. bl os pid incr r s = Some y \<Longrightarrow> \<forall>x s'. y = Inr (x, s') \<longrightarrow> f s' = f s"
      and body: "bnd (gets proc_pibr) (\<lambda>p.
     bnd (fetch_add p incr) (\<lambda>cur.
     if PIBR_PTR cur = 0
     then andthen (fetch_sub (PIBR_PTR cur) incr) (no_batch_blog os r)
     else if PIBR_PID cur = pid \<and> PIBR_IDX cur + int (length r) < BATCH_LIMIT
     then andthen (copy_into (PIBR_PTR cur) (PIBR_IDX cur) r)
         (andthen (fetch_sub (PIBR_PTR cur) 1) (ret (int (length r))))
     else andthen (fetch_sub (PIBR_PTR cur) incr)
         (andthen (swap_and_flush_buffer os (PIBR_PTR cur) pid) (bl os pid incr r)))) s = Some y"
        (is "?body s = _")
    then have bl: "keeps f (bl os pid incr r)" by (intro keeps_by_runs) blast
    have "keeps f ?body"
      by (intro keep_rules bl indep_logD [OF f] f)
    with body show "\<forall>x s'. y = Inr (x, s') \<longrightarrow> f s' = f s" by (auto dest: keepsD)
  qed
qed

lemma keeps_do_blog [keep_rules]: "indep_log f \<Longrightarrow> keeps f (do_blog os r)"
  unfolding do_blog_def by (intro keep_rules) (simp_all add: indep_logD)

lemma keeps_bblog [keep_rules]:
  "indep_log f \<Longrightarrow> (\<And>s v. f (s\<lparr>cntr_v := v\<rparr>) = f s) \<Longrightarrow> keeps f (bblog os m)"
  unfolding bblog_def by (intro keep_rules) (simp_all add: indep_logD)

section \<open>A buffer that holds text\<close>

text \<open>
  \<open>holds s p t\<close>: the buffer at \<open>p\<close> is live, nobody holds a reference on it, it
  belongs to the current process, its index is the length of \<open>t\<close> and its bytes
  up to the index are \<open>t\<close>.
\<close>

definition holds :: "'w proc \<Rightarrow> addr \<Rightarrow> string \<Rightarrow> bool" where
  "holds s p t \<longleftrightarrow> p \<noteq> 0 \<and> (case bufs s p of None \<Rightarrow> False | Some b \<Rightarrow>
     length (buf b) = PIBR_BUF_SIZE \<and> pibr_is (pibr b) (procid s) (int (length t)) p 0 \<and>
     take (length t) (buf b) = t)"

text \<open>The prefix variables agree and name a valid pid.\<close>

definition prefix_ok :: "'w proc \<Rightarrow> bool" where
  "prefix_ok s \<longleftrightarrow> 0 < procid s \<and> procid s \<le> PID_MAX \<and> prefix_len s = int (length (prefix s)) \<and>
     length (prefix s) < MAX_PREFIX_LEN \<and> NUL \<notin> set (prefix s)"

text \<open>The logger is batching and the text \<open>t\<close> waits behind the prefix in the current buffer.\<close>

definition batching :: "'w proc \<Rightarrow> string \<Rightarrow> bool" where
  "batching s t \<longleftrightarrow> prefix_ok s \<and> holds s (proc_pibr s) (prefix s @ t) \<and> NUL \<notin> set t \<and>
     int (length (prefix s @ t)) < BATCH_LIMIT"

text \<open>The record fits behind \<open>t\<close>.\<close>

definition fits :: "'w proc \<Rightarrow> string \<Rightarrow> string \<Rightarrow> bool" where
  "fits s t r \<longleftrightarrow> int (length (prefix s @ t) + length r) < BATCH_LIMIT"

lemma holdsE:
  assumes "holds s p t"
  obtains b where "bufs s p = Some b" "p \<noteq> 0" "length (buf b) = PIBR_BUF_SIZE"
    "pibr_is (pibr b) (procid s) (int (length t)) p 0" "take (length t) (buf b) = t"
  using assms by (auto simp: holds_def split: option.splits)

lemma holds_frame: "bufs s' p = bufs s p \<Longrightarrow> procid s' = procid s \<Longrightarrow> holds s' p t = holds s p t"
  by (simp add: holds_def split: option.split)

lemma BATCH_LIMIT_num: "BATCH_LIMIT = 4044"
  by (simp add: BATCH_LIMIT_def size_defs)

text \<open>A record that fits is appended; nothing else changes.\<close>

lemma blog_loop_fits:
  assumes bt: "batching s t" and ft: "fits s t r" and pid: "pid = procid s" and r: "NUL \<notin> set r"
  obtains b where
    "blog_loop os pid (pack_word 0 0 (int (length r)) 1) r s =
       Some (Inr (int (length r), s\<lparr>bufs := (bufs s)(proc_pibr s \<mapsto> b)\<rparr>))"
    and "batching (s\<lparr>bufs := (bufs s)(proc_pibr s \<mapsto> b)\<rparr>) (t @ r)"
proof -
  let ?p = "proc_pibr s" and ?u = "prefix s @ t" and ?n = "int (length r)"
  let ?incr = "pack_word 0 0 ?n 1"
  from bt have "holds s ?p ?u" by (simp add: batching_def)
  then obtain b where b: "bufs s ?p = Some b" "?p \<noteq> 0" "length (buf b) = PIBR_BUF_SIZE"
    "pibr_is (pibr b) (procid s) (int (length ?u)) ?p 0" "take (length ?u) (buf b) = ?u"
    by (rule holdsE)
  note f = pibr_is_fields [OF b(4)]
  have len: "int (length ?u) + ?n < 4044"
    using ft by (simp add: fits_def BATCH_LIMIT_num)
  then have room: "length ?u + length r \<le> length (buf b)"
    by (simp add: b(3) size_defs)
  then obtain bs where bs: "write_at (length ?u) r (buf b) = Some bs"
    by (simp add: write_at_def)
  let ?b = "b\<lparr>buf := bs, pibr := pibr b + ?incr - 1\<rparr>"
  have "pibr_is (pibr b + ?incr) (procid s) (int (length ?u) + ?n) ?p (0 + 1)"
    using len by (intro pibr_reserve [OF b(4)]) auto
  then have w: "pibr_is (pibr b + ?incr - 1) (procid s) (int (length (?u @ r))) ?p 0"
    using pibr_unref [of "pibr b + ?incr" "procid s" _ ?p 1] by (simp add: add.assoc)
  have run: "blog_loop os pid ?incr r s = Some (Inr (?n, s\<lparr>bufs := (bufs s)(?p \<mapsto> ?b)\<rparr>))"
    using b(1,2) f pid len bs
    by (subst blog_loop.simps)
      (simp add: bnd_def andthen_def gets_def ret_def fetch_add_run fetch_sub_run copy_into_run BATCH_LIMIT_num nat_int_add)
  have "take (length (?u @ r)) bs = ?u @ r"
    using take_write_at [OF bs] b(5) by (simp add: add.assoc)
  then have "holds (s\<lparr>bufs := (bufs s)(?p \<mapsto> ?b)\<rparr>) ?p (?u @ r)"
    using b(2,3) w length_write_at [OF bs] by (simp add: holds_def)
  then have "batching (s\<lparr>bufs := (bufs s)(?p \<mapsto> ?b)\<rparr>) (t @ r)"
    using bt r len by (simp add: batching_def prefix_ok_def BATCH_LIMIT_num)
  with run show thesis by (rule that)
qed

section \<open>Allocating, swapping and flushing\<close>

text \<open>The next \<open>memalign\<close> yields the fresh page \<open>q\<close>.\<close>

definition fresh_page :: "'w os \<Rightarrow> 'w proc \<Rightarrow> addr \<Rightarrow> 'w \<Rightarrow> bool" where
  "fresh_page os s q w' \<longleftrightarrow>
     (case sys_memalign os 4096 LOGGER_ENTRY_MAX_PAYLOAD (world s) of ((a, g), w) \<Rightarrow>
        a = q \<and> w = w' \<and> length (buf g) = PIBR_BUF_SIZE) \<and>
     q \<noteq> 0 \<and> 4096 dvd uint q \<and> bufs s q = None"

lemma aligned_low: "4096 dvd uint (q :: addr) \<Longrightarrow> q AND 0xfff = 0"
  unfolding mask12a using and_mask_dvd [of 12 q] by simp

lemma alloc_buffer_fresh:
  assumes ok: "prefix_ok s" and pid: "pid = procid s" and fr: "fresh_page os s q w'"
  obtains b where
    "alloc_buffer os pid s = Some (Inr (q, s\<lparr>world := w', bufs := (bufs s)(q \<mapsto> b)\<rparr>))"
    and "holds (s\<lparr>world := w', bufs := (bufs s)(q \<mapsto> b)\<rparr>) q (prefix s)"
proof -
  obtain g where m: "sys_memalign os 4096 LOGGER_ENTRY_MAX_PAYLOAD (world s) = ((q, g), w')"
    and g: "length (buf g) = PIBR_BUF_SIZE" and q: "q \<noteq> 0" "4096 dvd uint q"
    using fr by (auto simp: fresh_page_def split: prod.splits)
  have len: "length (prefix s) < 512" and pl: "prefix_len s = int (length (prefix s))"
    using ok by (auto simp: prefix_ok_def size_defs)
  then obtain bs where bs: "write_at 0 (prefix s @ [NUL]) (buf g) = Some bs"
    by (auto simp: write_at_def g size_defs)
  let ?b = "g\<lparr>buf := bs, pibr := pack_word q pid (prefix_len s) 0\<rparr>"
  have run: "alloc_buffer os pid s = Some (Inr (q, s\<lparr>world := w', bufs := (bufs s)(q \<mapsto> ?b)\<rparr>))"
    using m q bs ok pid
    by (simp add: alloc_buffer_def bnd_def andthen_def sysc_def ret_def gets_def aligned_low init_buffer_def
        run_rules prefix_ok_def)
  have "take (length (prefix s)) bs = prefix s"
    using bs by (auto simp: write_at_def split: if_splits)
  then have "holds (s\<lparr>world := w', bufs := (bufs s)(q \<mapsto> ?b)\<rparr>) q (prefix s)"
    using q g length_write_at [OF bs] ok pid pl len
    by (auto simp: holds_def prefix_ok_def PID_MAX_def intro!: pack_word_is)
  with run show thesis by (rule that)
qed

lemma swap_buffers_fresh:
  assumes ok: "prefix_ok s" and pid: "pid = procid s" and fr: "fresh_page os s q w'"
  obtains b where
    "swap_buffers os (proc_pibr s) pid s =
       Some (Inr (True, s\<lparr>world := w', bufs := (bufs s)(q \<mapsto> b), proc_pibr := q\<rparr>))"
    and "holds (s\<lparr>world := w', bufs := (bufs s)(q \<mapsto> b), proc_pibr := q\<rparr>) q (prefix s)"
proof -
  obtain b where b: "alloc_buffer os pid s = Some (Inr (q, s\<lparr>world := w', bufs := (bufs s)(q \<mapsto> b)\<rparr>))"
    "holds (s\<lparr>world := w', bufs := (bufs s)(q \<mapsto> b)\<rparr>) q (prefix s)"
    using alloc_buffer_fresh [OF ok pid fr] by blast
  have q: "q \<noteq> 0" using fr by (simp add: fresh_page_def)
  have "swap_buffers os (proc_pibr s) pid s =
      Some (Inr (True, s\<lparr>world := w', bufs := (bufs s)(q \<mapsto> b), proc_pibr := q\<rparr>))"
    using b(1) q
    by (simp add: swap_buffers_def cas_proc_pibr_def bnd_def andthen_def gets_def modify_def ret_def)
  moreover have "holds (s\<lparr>world := w', bufs := (bufs s)(q \<mapsto> b), proc_pibr := q\<rparr>) q (prefix s)"
    using b(2) by (simp add: holds_def)
  ultimately show thesis by (rule that)
qed

text \<open>The entry a flush writes, and the world and time it leaves.\<close>

definition batch_ev :: "string \<Rightarrow> string \<Rightarrow> logev" where
  "batch_ev pre t = LogEv ANDROID_LOG_INFO TAG_IO (pre @ butlast t @ ''}}'')"

definition flush_clock :: "'w os \<Rightarrow> logev \<Rightarrow> 'w \<Rightarrow> int \<times> 'w" where
  "flush_clock os ev w = sys_clock os (snd (sys_log os ev w))"

definition flushed :: "'w os \<Rightarrow> addr \<Rightarrow> string \<Rightarrow> 'w proc \<Rightarrow> 'w proc" where
  "flushed os p t s = (let ev = batch_ev (prefix s) t in
     s\<lparr>logs := logs s @ [ev],
       last_flush_secs := fst (flush_clock os ev (world s)),
       world := sys_free os p (snd (flush_clock os ev (world s))),
       bufs := (bufs s)(p := None)\<rparr>)"

lemma flush_buffer_empty:
  assumes "holds s p (prefix s)" and "prefix_ok s"
  shows "flush_buffer os p s = Some (Inr ((), s))"
proof -
  obtain b where b: "bufs s p = Some b" "p \<noteq> 0"
    "pibr_is (pibr b) (procid s) (int (length (prefix s))) p 0"
    using assms(1) by (rule holdsE)
  then show ?thesis
    using pibr_is_fields [OF b(3)] assms(2)
    by (simp add: flush_buffer_def bnd_def gets_def ret_def load_buf_run prefix_ok_def)
qed

lemma flush_buffer_stale:
  assumes "bufs s p = Some b" and "PIBR_PID (pibr b) \<noteq> procid s"
  shows "p = 0 \<or> flush_buffer os p s = Some (Inr ((), s))"
  using assms by (simp add: flush_buffer_def bnd_def gets_def ret_def load_buf_run)

lemma flush_buffer_text:
  assumes h: "holds s p (prefix s @ t)" and ok: "prefix_ok s" and t: "t \<noteq> []" "NUL \<notin> set t"
    and len: "int (length (prefix s @ t)) < BATCH_LIMIT"
  shows "flush_buffer os p s = Some (Inr ((), flushed os p t s))"
proof -
  let ?u = "prefix s @ t" and ?i = "length (prefix s @ t) - 1"
  obtain b where b: "bufs s p = Some b" "p \<noteq> 0" "length (buf b) = PIBR_BUF_SIZE"
    "pibr_is (pibr b) (procid s) (int (length ?u)) p 0" "take (length ?u) (buf b) = ?u"
    using h by (rule holdsE)
  note f = pibr_is_fields [OF b(4)]
  have pid: "0 \<le> procid s" "procid s \<le> PID_MAX" and al: "4096 dvd uint p"
    using ok b(4) by (auto simp: prefix_ok_def pibr_is_def)
  have "pibr_is (pack_word p (procid s) (int (length ?u)) 0) (procid s) (int (length ?u)) p 0"
    using pid al len by (intro pack_word_is) (auto simp: PID_MAX_def BATCH_LIMIT_num)
  then have w: "pibr b = pack_word p (procid s) (int (length ?u)) 0"
    using b(4) pibr_is_unique by blast
  have ne: "?u \<noteq> []" using t by simp
  have room: "?i + 3 \<le> length (buf b)"
    using len by (simp add: b(3) size_defs BATCH_LIMIT_num)
  then obtain bs where bs: "write_at ?i (''}}'' @ [NUL]) (buf b) = Some bs"
    by (simp add: write_at_def)
  have "take ?i (buf b) = butlast ?u"
    by (metis b(5) butlast_take min.cobounded1 min_def take_all_iff)
  then have bs': "bs = (prefix s @ butlast t @ ''}}'') @ NUL # drop (?i + 3) (buf b)"
    using bs room t by (auto simp: write_at_def butlast_append numeral_3_eq_3 split: if_splits)
  have cs: "cstr bs = prefix s @ butlast t @ ''}}''"
    unfolding bs' using ok t by (intro cstr_NUL) (auto simp: prefix_ok_def NUL_def dest: in_set_butlastD)
  have "nat (int (length (prefix s)) + int (length t) - 1) = length (prefix s) + length t - Suc 0"
    and "0 \<le> int (length (prefix s)) + int (length t) - 1"
    using t by (cases t; simp)+
  then show ?thesis
    using b(1,2) f pid w bs t cs ok
    by (simp add: flush_buffer_def bnd_def andthen_def gets_def modify_def ret_def sysc_def run_rules
        prefix_ok_def flushed_def flush_clock_def batch_ev_def Let_def nat_diff_distrib nat_int_add
        split: prod.splits)
qed

section \<open>A record that does not fit\<close>

text \<open>The reservation is undone, the buffer is swapped and flushed, and the loop starts over.\<close>

lemma blog_loop_retry:
  assumes b: "bufs s (proc_pibr s) = Some b" "proc_pibr s \<noteq> 0"
    and w: "pibr_is (pibr b) bpid idx (proc_pibr s) 0"
    and no: "\<not> (bpid = pid \<and> idx + int (length r) < BATCH_LIMIT)"
  shows "blog_loop os pid incr r s =
    bnd (swap_and_flush_buffer os (proc_pibr s) pid) (\<lambda>_. blog_loop os pid incr r) s"
proof -
  have same: "s\<lparr>bufs := (bufs s)(proc_pibr s \<mapsto> b)\<rparr> = s"
    using b(1) by (simp add: fun_upd_idem)
  show ?thesis
    using b no pibr_is_fields [OF w]
    by (subst blog_loop.simps)
      (auto simp: bnd_def andthen_def gets_def fetch_add_run fetch_sub_run same)
qed

lemma swap_and_flush_fresh:
  assumes h: "holds s (proc_pibr s) (prefix s @ t)" and ok: "prefix_ok s" and pid: "pid = procid s"
    and t: "t \<noteq> []" "NUL \<notin> set t" and len: "int (length (prefix s @ t)) < BATCH_LIMIT"
    and fr: "fresh_page os s q w'"
  obtains b where
    "swap_and_flush_buffer os (proc_pibr s) pid s =
       Some (Inr ((), flushed os (proc_pibr s) t (s\<lparr>world := w', bufs := (bufs s)(q \<mapsto> b), proc_pibr := q\<rparr>)))"
    and "holds (flushed os (proc_pibr s) t (s\<lparr>world := w', bufs := (bufs s)(q \<mapsto> b), proc_pibr := q\<rparr>)) q (prefix s)"
proof -
  let ?p = "proc_pibr s"
  obtain b where sw: "swap_buffers os ?p pid s =
      Some (Inr (True, s\<lparr>world := w', bufs := (bufs s)(q \<mapsto> b), proc_pibr := q\<rparr>))"
    and hq: "holds (s\<lparr>world := w', bufs := (bufs s)(q \<mapsto> b), proc_pibr := q\<rparr>) q (prefix s)"
    using swap_buffers_fresh [OF ok pid fr] by blast
  let ?s = "s\<lparr>world := w', bufs := (bufs s)(q \<mapsto> b), proc_pibr := q\<rparr>"
  obtain c where c: "bufs s ?p = Some c" "?p \<noteq> 0"
    "pibr_is (pibr c) (procid s) (int (length (prefix s @ t))) ?p 0"
    using h by (rule holdsE)
  have pq: "?p \<noteq> q" using c fr by (auto simp: fresh_page_def)
  have al: "?p AND NOT 0xfff = ?p"
    using c(3) by (intro aligned_and) (simp add: pibr_is_def)
  have "flush_buffer os ?p ?s = Some (Inr ((), flushed os ?p t ?s))"
    using h ok t len pq holds_frame [of ?s ?p s]
    by (intro flush_buffer_text) (simp_all add: prefix_ok_def)
  then have "swap_and_flush_buffer os ?p pid s = Some (Inr ((), flushed os ?p t ?s))"
    using sw c(2) al by (simp add: swap_and_flush_buffer_def bnd_def)
  moreover have "holds (flushed os ?p t ?s) q (prefix s)"
    using hq pq holds_frame [of "flushed os ?p t ?s" q ?s] by (simp add: flushed_def Let_def)
  ultimately show thesis by (rule that)
qed

lemma blog_loop_full:
  assumes bt: "batching s t" and t: "t \<noteq> []" and nf: "\<not> fits s t r" and fe: "fits s [] r"
    and pid: "pid = procid s" and r: "NUL \<notin> set r" and fr: "fresh_page os s q w'"
  obtains s' where
    "blog_loop os pid (pack_word 0 0 (int (length r)) 1) r s = Some (Inr (int (length r), s'))"
    and "batching s' r" and "logs s' = logs s @ [batch_ev (prefix s) t]" and "prefix s' = prefix s"
    and "procid s' = procid s" and "dom (bufs s') = insert q (dom (bufs s) - {proc_pibr s})"
    and "world s' = sys_free os (proc_pibr s) (snd (flush_clock os (batch_ev (prefix s) t) w'))"
proof -
  let ?p = "proc_pibr s" and ?incr = "pack_word 0 0 (int (length r)) 1"
  have h: "holds s ?p (prefix s @ t)" and ok: "prefix_ok s" and tt: "NUL \<notin> set t"
    and len: "int (length (prefix s @ t)) < BATCH_LIMIT"
    using bt by (auto simp: batching_def)
  obtain c where c: "bufs s ?p = Some c" "?p \<noteq> 0"
    "pibr_is (pibr c) (procid s) (int (length (prefix s @ t))) ?p 0"
    using h by (rule holdsE)
  have retry: "blog_loop os pid ?incr r s =
      bnd (swap_and_flush_buffer os ?p pid) (\<lambda>_. blog_loop os pid ?incr r) s"
    using nf by (intro blog_loop_retry [OF c]) (simp add: fits_def)
  obtain b where sf: "swap_and_flush_buffer os ?p pid s =
      Some (Inr ((), flushed os ?p t (s\<lparr>world := w', bufs := (bufs s)(q \<mapsto> b), proc_pibr := q\<rparr>)))"
    and hq: "holds (flushed os ?p t (s\<lparr>world := w', bufs := (bufs s)(q \<mapsto> b), proc_pibr := q\<rparr>)) q (prefix s)"
    using swap_and_flush_fresh [OF h ok pid t tt len fr] by blast
  let ?m = "flushed os ?p t (s\<lparr>world := w', bufs := (bufs s)(q \<mapsto> b), proc_pibr := q\<rparr>)"
  have m: "prefix ?m = prefix s" "procid ?m = procid s" "proc_pibr ?m = q" "prefix_len ?m = prefix_len s"
    by (simp_all add: flushed_def Let_def)
  have "batching ?m []"
    using hq ok fe m by (simp add: batching_def prefix_ok_def fits_def)
  moreover have "fits ?m [] r" using fe m by (simp add: fits_def)
  ultimately obtain d where d: "blog_loop os pid ?incr r ?m =
      Some (Inr (int (length r), ?m\<lparr>bufs := (bufs ?m)(proc_pibr ?m \<mapsto> d)\<rparr>))"
    and bd: "batching (?m\<lparr>bufs := (bufs ?m)(proc_pibr ?m \<mapsto> d)\<rparr>) ([] @ r)"
    using blog_loop_fits [of ?m "[]" r pid] pid m r by metis
  show thesis
  proof (rule that)
    show "blog_loop os pid ?incr r s =
        Some (Inr (int (length r), ?m\<lparr>bufs := (bufs ?m)(proc_pibr ?m \<mapsto> d)\<rparr>))"
      using retry sf d by (simp add: bnd_def)
    show "batching (?m\<lparr>bufs := (bufs ?m)(proc_pibr ?m \<mapsto> d)\<rparr>) r" using bd by simp
  qed (use fr c(1) in \<open>auto simp: flushed_def Let_def fresh_page_def\<close>)
qed

section \<open>Streams of records\<close>

text \<open>
  What the tracer relies on from the allocator, the logger, the clock and \<open>sleep\<close>: \<open>live\<close>
  is the set of pages the allocator has handed out and not got back; \<open>memalign\<close>
  returns NULL or an aligned page that is not live; none of the calls changes the pid.
\<close>

definition libc_ok :: "'w os \<Rightarrow> ('w \<Rightarrow> addr set) \<Rightarrow> bool" where
  "libc_ok os live \<longleftrightarrow>
     (\<forall>w. case sys_memalign os 4096 LOGGER_ENTRY_MAX_PAYLOAD w of ((q, g), w') \<Rightarrow>
        sys_getpid os w' = sys_getpid os w \<and>
        (if q = 0 then live w' = live w
         else 4096 dvd uint q \<and> length (buf g) = PIBR_BUF_SIZE \<and> q \<notin> live w \<and> live w' = insert q (live w))) \<and>
     (\<forall>p w. live (sys_free os p w) = live w - {p} \<and> sys_getpid os (sys_free os p w) = sys_getpid os w) \<and>
     (\<forall>e w. live (snd (sys_log os e w)) = live w \<and> sys_getpid os (snd (sys_log os e w)) = sys_getpid os w) \<and>
     (\<forall>w. live (snd (sys_clock os w)) = live w \<and> sys_getpid os (snd (sys_clock os w)) = sys_getpid os w) \<and>
     (\<forall>n w. live (sys_sleep os n w) = live w \<and> sys_getpid os (sys_sleep os n w) = sys_getpid os w)"

text \<open>An allocation succeeds while at most \<open>k\<close> pages are live.\<close>

definition roomy :: "'w os \<Rightarrow> ('w \<Rightarrow> addr set) \<Rightarrow> nat \<Rightarrow> bool" where
  "roomy os live k \<longleftrightarrow> (\<forall>w. finite (live w) \<and> card (live w) \<le> k \<longrightarrow>
     fst (fst (sys_memalign os 4096 LOGGER_ENTRY_MAX_PAYLOAD w)) \<noteq> 0)"

definition ready :: "'w os \<Rightarrow> ('w \<Rightarrow> addr set) \<Rightarrow> nat \<Rightarrow> 'w proc \<Rightarrow> string \<Rightarrow> bool" where
  "ready os live k s t \<longleftrightarrow> batching s t \<and> sys_getpid os (world s) = procid s \<and>
     dom (bufs s) \<subseteq> live (world s) \<and> finite (live (world s)) \<and> card (live (world s)) \<le> k"

lemma libc_memalign:
  assumes "libc_ok os live" and "dom (bufs s) \<subseteq> live (world s)"
    and "fst (fst (sys_memalign os 4096 LOGGER_ENTRY_MAX_PAYLOAD (world s))) \<noteq> 0"
  obtains q w' where "fresh_page os s q w'" and "q \<notin> live (world s)"
    and "live w' = insert q (live (world s))" and "sys_getpid os w' = sys_getpid os (world s)"
proof -
  obtain q g w' where m: "sys_memalign os 4096 LOGGER_ENTRY_MAX_PAYLOAD (world s) = ((q, g), w')"
    by (metis prod.exhaust)
  have q: "q \<noteq> 0" using assms(3) m by simp
  note ax = assms(1) [unfolded libc_ok_def, THEN conjunct1, THEN spec, of "world s"]
  from ax have f: "sys_getpid os w' = sys_getpid os (world s)" "4096 dvd uint q"
    "length (buf g) = PIBR_BUF_SIZE" "q \<notin> live (world s)" "live w' = insert q (live (world s))"
    using m q by simp_all
  have "bufs s q = None" using f(4) assms(2) by blast
  then have "fresh_page os s q w'" using m q f by (simp add: fresh_page_def)
  then show thesis using f that by blast
qed

lemma libc_flush:
  assumes "libc_ok os live"
  shows "live (sys_free os p (snd (flush_clock os ev w))) = live w - {p}"
    and "sys_getpid os (sys_free os p (snd (flush_clock os ev w))) = sys_getpid os w"
  using assms by (simp_all add: libc_ok_def flush_clock_def)

lemma libc_waits:
  assumes "libc_ok os live"
  shows "live (sys_sleep os n w) = live w" "sys_getpid os (sys_sleep os n w) = sys_getpid os w"
    "live (snd (sys_clock os w)) = live w" "sys_getpid os (snd (sys_clock os w)) = sys_getpid os w"
  using assms by (simp_all add: libc_ok_def)

lemma do_blog_loop:
  "do_blog os r s = blog_loop os (sys_getpid os (world s)) (pack_word 0 0 (int (length r)) 1) r s"
  by (simp add: do_blog_def asks_def bnd_def gets_def pack_buffer_run PID_MAX_def)

text \<open>One record: appended when it fits, otherwise the pending text is logged first.\<close>

lemma do_blog_step:
  assumes lc: "libc_ok os live" "roomy os live k" and rd: "ready os live k s t"
    and r: "NUL \<notin> set r" "fits s [] r"
  obtains s' where "do_blog os r s = Some (Inr (int (length r), s'))" and "prefix s' = prefix s"
    and "if fits s t r then logs s' = logs s \<and> ready os live k s' (t @ r)
         else logs s' = logs s @ [batch_ev (prefix s) t] \<and> ready os live k s' r"
proof (cases "fits s t r")
  case True
  have bt: "batching s t" and pid: "sys_getpid os (world s) = procid s" using rd by (auto simp: ready_def)
  obtain b where "do_blog os r s = Some (Inr (int (length r), s\<lparr>bufs := (bufs s)(proc_pibr s \<mapsto> b)\<rparr>))"
    and "batching (s\<lparr>bufs := (bufs s)(proc_pibr s \<mapsto> b)\<rparr>) (t @ r)"
    using blog_loop_fits [OF bt True pid r(1)] do_blog_loop by metis
  moreover have "proc_pibr s \<in> dom (bufs s)"
    using bt by (auto simp: batching_def elim!: holdsE)
  ultimately show thesis
    using rd True that [of "s\<lparr>bufs := (bufs s)(proc_pibr s \<mapsto> b)\<rparr>"] by (auto simp: ready_def)
next
  case False
  have bt: "batching s t" and pid: "sys_getpid os (world s) = procid s"
    and dm: "dom (bufs s) \<subseteq> live (world s)" and fin: "finite (live (world s))" "card (live (world s)) \<le> k"
    using rd by (auto simp: ready_def)
  have t: "t \<noteq> []" using False r(2) by auto
  have p: "proc_pibr s \<in> live (world s)"
    using bt dm by (auto simp: batching_def elim!: holdsE)
  have "fst (fst (sys_memalign os 4096 LOGGER_ENTRY_MAX_PAYLOAD (world s))) \<noteq> 0"
    using lc(2) fin unfolding roomy_def by blast
  then obtain q w' where q: "fresh_page os s q w'" "q \<notin> live (world s)"
    "live w' = insert q (live (world s))" "sys_getpid os w' = sys_getpid os (world s)"
    using libc_memalign [OF lc(1) dm] by blast
  obtain s' where s': "do_blog os r s = Some (Inr (int (length r), s'))"
    "batching s' r" "logs s' = logs s @ [batch_ev (prefix s) t]" "prefix s' = prefix s"
    "procid s' = procid s" "dom (bufs s') = insert q (dom (bufs s) - {proc_pibr s})"
    "world s' = sys_free os (proc_pibr s) (snd (flush_clock os (batch_ev (prefix s) t) w'))"
    using blog_loop_full [OF bt t False r(2) pid r(1) q(1)] do_blog_loop by metis
  have lv: "live (world s') = insert q (live (world s) - {proc_pibr s})"
    using q(2,3) p unfolding s'(7) libc_flush(1) [OF lc(1)] by auto
  have "card (live (world s')) = card (live (world s))"
    using card_Suc_Diff1 [OF fin(1) p] fin(1) q(2) unfolding lv by (subst card_insert_disjoint) auto
  then have "ready os live k s' r"
    using s' lv fin dm pid q(4) libc_flush(2) [OF lc(1)] by (auto simp: ready_def)
  then show thesis using s' False that [of s'] by simp
qed

text \<open>Swapping on its own, as the flusher thread and the signal handlers do it.\<close>

lemma swap_and_flush_ready:
  assumes lc: "libc_ok os live" "roomy os live k" and rd: "ready os live k s t" and t: "t \<noteq> []"
  obtains s' where "swap_and_flush_buffer os (proc_pibr s) (procid s) s = Some (Inr ((), s'))"
    and "logs s' = logs s @ [batch_ev (prefix s) t]" and "ready os live k s' []" and "prefix s' = prefix s"
proof -
  have bt: "batching s t" and pid: "sys_getpid os (world s) = procid s"
    and dm: "dom (bufs s) \<subseteq> live (world s)" and fin: "finite (live (world s))" "card (live (world s)) \<le> k"
    using rd by (auto simp: ready_def)
  have h: "holds s (proc_pibr s) (prefix s @ t)" and ok: "prefix_ok s" and tt: "NUL \<notin> set t"
    and len: "int (length (prefix s @ t)) < BATCH_LIMIT"
    using bt by (auto simp: batching_def)
  have p: "proc_pibr s \<in> live (world s)" using h dm by (auto elim!: holdsE)
  have "fst (fst (sys_memalign os 4096 LOGGER_ENTRY_MAX_PAYLOAD (world s))) \<noteq> 0"
    using lc(2) fin unfolding roomy_def by blast
  then obtain q w' where q: "fresh_page os s q w'" "q \<notin> live (world s)"
    "live w' = insert q (live (world s))" "sys_getpid os w' = sys_getpid os (world s)"
    using libc_memalign [OF lc(1) dm] by blast
  obtain b where b: "swap_and_flush_buffer os (proc_pibr s) (procid s) s =
      Some (Inr ((), flushed os (proc_pibr s) t (s\<lparr>world := w', bufs := (bufs s)(q \<mapsto> b), proc_pibr := q\<rparr>)))"
    "holds (flushed os (proc_pibr s) t (s\<lparr>world := w', bufs := (bufs s)(q \<mapsto> b), proc_pibr := q\<rparr>)) q (prefix s)"
    using swap_and_flush_fresh [OF h ok refl t tt len q(1)] by blast
  define s' where "s' = flushed os (proc_pibr s) t (s\<lparr>world := w', bufs := (bufs s)(q \<mapsto> b), proc_pibr := q\<rparr>)"
  have f: "prefix s' = prefix s" "procid s' = procid s" "proc_pibr s' = q" "prefix_len s' = prefix_len s"
    "bufs s' = ((bufs s)(q \<mapsto> b))(proc_pibr s := None)" "logs s' = logs s @ [batch_ev (prefix s) t]"
    by (simp_all add: s'_def flushed_def Let_def)
  have lv: "live (world s') = insert q (live (world s) - {proc_pibr s})"
    using libc_flush(1) [OF lc(1)] q(2,3) p by (auto simp: s'_def flushed_def Let_def)
  have "card (live (world s')) = card (live (world s))"
    using card_Suc_Diff1 [OF fin(1) p] fin(1) q(2) unfolding lv by (subst card_insert_disjoint) auto
  moreover have "sys_getpid os (world s') = procid s'"
    using libc_flush(2) [OF lc(1)] q(4) pid f(2) by (simp add: s'_def flushed_def Let_def)
  moreover have "batching s' []"
    using b(2) ok len f unfolding s'_def [symmetric] by (simp add: batching_def prefix_ok_def)
  moreover have "dom (bufs s') \<subseteq> live (world s')" using dm unfolding f lv by auto
  ultimately have "ready os live k s' []" using fin lv by (simp add: ready_def)
  then show thesis using b(1) f that unfolding s'_def by blast
qed

section \<open>The contract of the logger\<close>

text \<open>
  What a stream of records becomes, without buffers, packed words or system calls:
  the batches written so far and the text that waits.
\<close>

definition batch_step :: "string \<Rightarrow> string list \<times> string \<Rightarrow> string \<Rightarrow> string list \<times> string" where
  "batch_step pre st r = (case st of (out, t) \<Rightarrow>
     if int (length (pre @ t) + length r) < BATCH_LIMIT then (out, t @ r) else (out @ [t], r))"

text \<open>The records a run of \<open>bblog\<close> calls produces when the counter stands at \<open>n\<close>.\<close>

primrec recs :: "64 word \<Rightarrow> string list \<Rightarrow> string list" where
  "recs n [] = []"
| "recs n (m # ms) = (rec_head (n + 1) @ m @ '','') # recs (n + 1) ms"

primrec bblog_all :: "'w os \<Rightarrow> string list \<Rightarrow> ('w proc, unit) exec" where
  "bblog_all os [] = ret ()"
| "bblog_all os (m # ms) = bnd (bblog os m) (\<lambda>_. bblog_all os ms)"

text \<open>A record \<open>bblog\<close> may produce: no NUL, a comma at the end, room for it in an empty buffer.\<close>

definition good_record :: "string \<Rightarrow> string \<Rightarrow> bool" where
  "good_record pre r \<longleftrightarrow> NUL \<notin> set r \<and> r \<noteq> [] \<and> last r = CHR '','' \<and>
     int (length pre + length r) < BATCH_LIMIT"

lemma batch_step_concat:
  "foldl (batch_step pre) (out, t) rs = (out', t') \<Longrightarrow> concat out' @ t' = concat out @ t @ concat rs"
  by (induction rs arbitrary: out t) (auto simp: batch_step_def split: if_splits)

lemma batch_step_out:
  "foldl (batch_step pre) (out @ out1, t) rs =
     (out @ fst (foldl (batch_step pre) (out1, t) rs), snd (foldl (batch_step pre) (out1, t) rs))"
  by (induction rs arbitrary: out1 t) (auto simp: batch_step_def)

lemma batch_step_bound:
  assumes "foldl (batch_step pre) (out, t) rs = (out', t')"
    and "\<forall>r\<in>set rs. good_record pre r" and "int (length (pre @ t)) < BATCH_LIMIT"
    and "\<forall>b\<in>set out. int (length (pre @ b)) < BATCH_LIMIT"
  shows "int (length (pre @ t')) < BATCH_LIMIT \<and> (\<forall>b\<in>set out'. int (length (pre @ b)) < BATCH_LIMIT)"
  using assms
proof (induction rs arbitrary: out t)
  case (Cons r rs)
  obtain out1 t1 where st: "batch_step pre (out, t) r = (out1, t1)" by (cases "batch_step pre (out, t) r")
  then have "int (length (pre @ t1)) < BATCH_LIMIT" "\<forall>b\<in>set out1. int (length (pre @ b)) < BATCH_LIMIT"
    using Cons.prems(2-4) by (auto simp: batch_step_def good_record_def split: if_splits)
  then show ?case using Cons.IH [of out1 t1] Cons.prems st by simp
qed simp

text \<open>A message that gives a good record whatever its number.\<close>

definition good_msg :: "string \<Rightarrow> string \<Rightarrow> bool" where
  "good_msg pre m \<longleftrightarrow> NUL \<notin> set m \<and> int (length pre + 28 + length m) < BATCH_LIMIT"

lemma length_rec_head: "length (rec_head n) \<le> 27"
proof -
  have "unat n < 10 ^ 20" by (rule less_trans [OF unsigned_less]) simp
  then have "length (dec_nat (unat n)) \<le> 20" by (intro length_dec_nat) auto
  then show ?thesis by (simp add: rec_head_def)
qed

lemma rec_head_no_NUL: "NUL \<notin> set (rec_head n)"
proof -
  have "NUL \<notin> set (dec_nat (unat n))"
    using dec_nat_digits [of NUL "unat n"] by (auto simp: NUL_def is_digit_def)
  then show ?thesis by (simp add: rec_head_def NUL_def)
qed

lemma good_msg_record: "good_msg pre m \<Longrightarrow> good_record pre (rec_head n @ m @ '','')"
  using length_rec_head [of n] rec_head_no_NUL [of n]
  by (auto simp: good_msg_def good_record_def NUL_def)

lemma good_recs: "\<forall>m\<in>set ms. good_msg pre m \<Longrightarrow> \<forall>r\<in>set (recs n ms). good_record pre r"
  by (induction ms arbitrary: n) (auto simp: good_msg_record)

text \<open>\<open>bblog\<close> on a message its array has room for: stamped, closed by a comma and handed on whole.\<close>

lemma bblog_run:
  assumes "length (rec_head (cntr_v s + 1)) + length m < BUFFER_SIZE - 2"
  shows "bblog os m s = do_blog os (rec_head (cntr_v s + 1) @ m @ '','') (s\<lparr>cntr_v := cntr_v s + 1\<rparr>)"
proof -
  have "snprintf 32 (rec_head (cntr_v s + 1)) = rec_head (cntr_v s + 1)"
    using length_rec_head [of "cntr_v s + 1"] by (simp add: snprintf_def)
  moreover have "snprintf (BUFFER_SIZE - length (rec_head (cntr_v s + 1)) - 2) m = m"
    using assms by (simp add: snprintf_def)
  ultimately show ?thesis
    using assms by (simp add: bblog_def bnd_def cntr_run Let_def)
qed

lemma ready_cntr [simp]: "ready os live k (s\<lparr>cntr_v := n\<rparr>) t = ready os live k s t"
  by (simp add: ready_def batching_def prefix_ok_def holds_def split: option.split)

lemma fits_cntr [simp]: "fits (s\<lparr>cntr_v := n\<rparr>) t r = fits s t r"
  by (simp add: fits_def)

lemma bblog_all_refines:
  assumes lc: "libc_ok os live" "roomy os live k" and rd: "ready os live k s t"
    and ms: "\<forall>m\<in>set ms. good_msg (prefix s) m"
  shows "\<exists>s'. bblog_all os ms s = Some (Inr ((), s')) \<and> prefix s' = prefix s \<and>
    logs s' = logs s @ map (batch_ev (prefix s)) (fst (foldl (batch_step (prefix s)) ([], t) (recs (cntr_v s) ms))) \<and>
    ready os live k s' (snd (foldl (batch_step (prefix s)) ([], t) (recs (cntr_v s) ms)))"
  using rd ms
proof (induction ms arbitrary: s t)
  case Nil
  then show ?case by (simp add: ret_def)
next
  case (Cons m ms)
  let ?r = "rec_head (cntr_v s + 1) @ m @ '',''" and ?s = "s\<lparr>cntr_v := cntr_v s + 1\<rparr>"
  have gm: "good_msg (prefix s) m" using Cons.prems(2) by simp
  have g: "NUL \<notin> set ?r" "fits ?s [] ?r"
    using good_msg_record [OF gm, of "cntr_v s + 1"] by (auto simp: good_record_def fits_def)
  have run: "bblog os m s = do_blog os ?r ?s"
    using gm length_rec_head [of "cntr_v s + 1"]
    by (intro bblog_run) (simp add: good_msg_def BATCH_LIMIT_num size_defs)
  have rd: "ready os live k ?s t" using Cons.prems(1) by simp
  obtain s1 where s1a: "do_blog os ?r ?s = Some (Inr (int (length ?r), s1))" "prefix s1 = prefix ?s"
    "if fits ?s t ?r then logs s1 = logs ?s \<and> ready os live k s1 (t @ ?r)
     else logs s1 = logs ?s @ [batch_ev (prefix ?s) t] \<and> ready os live k s1 ?r"
    by (rule do_blog_step [OF lc rd g])
  from s1a have s1: "do_blog os ?r ?s = Some (Inr (int (length ?r), s1))" "prefix s1 = prefix s"
    "if fits s t ?r then logs s1 = logs s \<and> ready os live k s1 (t @ ?r)
     else logs s1 = logs s @ [batch_ev (prefix s) t] \<and> ready os live k s1 ?r"
    unfolding fits_cntr by (auto split: if_splits)
  have c1: "cntr_v s1 = cntr_v s + 1"
    using keepsD [OF keeps_do_blog s1(1), of cntr_v] by (simp add: indep_defs indep_log_def)
  let ?t1 = "if fits s t ?r then t @ ?r else ?r"
  have "ready os live k s1 ?t1" using s1(3) by (simp split: if_splits)
  moreover have "\<forall>m\<in>set ms. good_msg (prefix s1) m" using Cons.prems(2) s1(2) by simp
  ultimately obtain s' where s': "bblog_all os ms s1 = Some (Inr ((), s'))" "prefix s' = prefix s1"
    "logs s' = logs s1 @ map (batch_ev (prefix s1)) (fst (foldl (batch_step (prefix s1)) ([], ?t1) (recs (cntr_v s1) ms)))"
    "ready os live k s' (snd (foldl (batch_step (prefix s1)) ([], ?t1) (recs (cntr_v s1) ms)))"
    using Cons.IH by blast
  have "foldl (batch_step (prefix s)) ([], t) (?r # recs (cntr_v s + 1) ms) =
      (if fits s t ?r then foldl (batch_step (prefix s)) ([], t @ ?r) (recs (cntr_v s + 1) ms)
       else foldl (batch_step (prefix s)) ([t] @ [], ?r) (recs (cntr_v s + 1) ms))"
    by (simp add: batch_step_def fits_def)
  then show ?case
    using s1 s' unfolding batch_step_out recs.simps bblog_all.simps c1 by (auto simp: bnd_def run split: if_splits)
qed

text \<open>A single message, for the callers.\<close>

lemma bblog_ready:
  assumes lc: "libc_ok os live" "roomy os live k" and rd: "ready os live k s t"
    and m: "good_msg (prefix s) m"
  obtains x s' t' where "bblog os m s = Some (Inr (x, s'))" and "ready os live k s' t'" and "prefix s' = prefix s"
proof -
  obtain s' t' where run: "bblog_all os [m] s = Some (Inr ((), s'))" and pre: "prefix s' = prefix s"
    and rd': "ready os live k s' t'"
    using bblog_all_refines [OF lc rd, of "[m]"] m by auto
  have "bnd (bblog os m) (\<lambda>_. ret ()) s = Some (Inr ((), s'))" using run by simp
  then obtain x s1 where "bblog os m s = Some (Inr (x, s1))" "ret () s1 = Some (Inr ((), s'))" by (rule bndE)
  then show thesis using that [of x s' t'] pre rd' by (simp add: ret_def)
qed

lemma batch_ev_length:
  "t \<noteq> [] \<Longrightarrow> length (log_text (batch_ev pre t)) = length (pre @ t) + 1"
  by (cases t) (simp_all add: batch_ev_def)

section \<open>Allocation failure and oversized records\<close>

text \<open>
  With \<open>proc_pibr\<close> NULL, as \<open>swap_buffers\<close> leaves it when it cannot allocate, the
  next record is not logged without batching: the fetch-and-add goes through NULL.
\<close>

lemma do_blog_null: "proc_pibr s = 0 \<Longrightarrow> do_blog os r s = Some (Inl NullDeref)"
  by (simp add: do_blog_loop blog_loop.simps fetch_add_def load_buf_def exec_defs)

text \<open>So does the branch for a packed word without a buffer.\<close>

lemma do_blog_no_ptr:
  assumes "bufs s (proc_pibr s) = Some b" and "PIBR_PTR (pibr b) = 0"
  shows "do_blog os r s = Some (Inl NullDeref)"
proof (cases "proc_pibr s = 0")
  case True
  then show ?thesis by (rule do_blog_null)
next
  case False
  with assms show ?thesis
    by (simp add: do_blog_loop blog_loop.simps bnd_def andthen_def gets_def fetch_add_run
      fetch_sub_def load_buf_def crash_def)
qed

text \<open>The body of the loop with what follows a retry as a parameter.\<close>

definition blog_body ::
  "'w os \<Rightarrow> int \<Rightarrow> 64 word \<Rightarrow> string \<Rightarrow> ('w proc, int) exec \<Rightarrow> ('w proc, int) exec" where
  "blog_body os new_pid incr record k =
     bnd (gets proc_pibr) (\<lambda>p.
     bnd (fetch_add p incr) (\<lambda>cur.
     if PIBR_PTR cur = 0
     then andthen (fetch_sub (PIBR_PTR cur) incr) (no_batch_blog os record)
     else if PIBR_PID cur = new_pid \<and> PIBR_IDX cur + int (length record) < BATCH_LIMIT
     then andthen (copy_into (PIBR_PTR cur) (PIBR_IDX cur) record)
         (andthen (fetch_sub (PIBR_PTR cur) 1) (ret (int (length record))))
     else andthen (fetch_sub (PIBR_PTR cur) incr)
         (andthen (swap_and_flush_buffer os (PIBR_PTR cur) new_pid) k)))"

lemma blog_body_retry:
  assumes b: "bufs s (proc_pibr s) = Some b" "proc_pibr s \<noteq> 0"
    and w: "pibr_is (pibr b) bpid idx (proc_pibr s) 0"
    and no: "\<not> (bpid = pid \<and> idx + int (length r) < BATCH_LIMIT)"
  shows "blog_body os pid incr r k s = bnd (swap_and_flush_buffer os (proc_pibr s) pid) (\<lambda>_. k) s"
proof -
  have same: "s\<lparr>bufs := (bufs s)(proc_pibr s \<mapsto> b)\<rparr> = s"
    using b(1) by (simp add: fun_upd_idem)
  show ?thesis
    using b no pibr_is_fields [OF w] unfolding blog_body_def
    by (auto simp: bnd_def andthen_def gets_def fetch_add_run fetch_sub_run same)
qed

text \<open>A state from which a record longer than an empty buffer's room cannot get into a buffer.\<close>

definition stuck :: "'w os \<Rightarrow> ('w \<Rightarrow> addr set) \<Rightarrow> int \<Rightarrow> string \<Rightarrow> 'w proc \<Rightarrow> bool" where
  "stuck os live pid r s \<longleftrightarrow> proc_pibr s = 0 \<or>
     (\<exists>t. batching s t \<and> pid = procid s \<and> dom (bufs s) \<subseteq> live (world s) \<and> \<not> fits s [] r)"

lemma swap_and_flush_alloc_fails:
  assumes "fst (fst (sys_memalign os 4096 LOGGER_ENTRY_MAX_PAYLOAD (world s))) = 0"
    and "swap_and_flush_buffer os (proc_pibr s) pid s = Some (Inr (x, s'))"
  shows "proc_pibr s' = 0"
proof -
  obtain g w where m: "sys_memalign os 4096 LOGGER_ENTRY_MAX_PAYLOAD (world s) = ((0, g), w)"
    using assms(1) by (metis prod.collapse)
  obtain r s1 where r: "swap_buffers os (proc_pibr s) pid s = Some (Inr (r, s1))"
    and k: "(if r \<and> proc_pibr s \<noteq> 0 then flush_buffer os (proc_pibr s AND NOT 0xfff) else ret ()) s1 = Some (Inr (x, s'))"
    using assms(2) unfolding swap_and_flush_buffer_def by (rule bndE)
  from r have "proc_pibr s1 = 0"
    by (auto simp: swap_buffers_def cas_proc_pibr_def bnd_def andthen_def gets_def modify_def ret_def
        alloc_buffer_def sysc_def m split: option.splits sum.splits)
  moreover have "proc_pibr s' = proc_pibr s1"
    using k keepsD [OF keeps_flush_proc_pibr] by (auto simp: ret_def split: if_splits)
  ultimately show ?thesis by simp
qed

lemma swap_and_flush_empty:
  assumes h: "holds s (proc_pibr s) (prefix s)" and ok: "prefix_ok s" and pid: "pid = procid s"
    and fr: "fresh_page os s q w'"
  obtains b where
    "swap_and_flush_buffer os (proc_pibr s) pid s =
       Some (Inr ((), s\<lparr>world := w', bufs := (bufs s)(q \<mapsto> b), proc_pibr := q\<rparr>))"
    and "holds (s\<lparr>world := w', bufs := (bufs s)(q \<mapsto> b), proc_pibr := q\<rparr>) q (prefix s)"
proof -
  let ?p = "proc_pibr s"
  obtain b where sw: "swap_buffers os ?p pid s =
      Some (Inr (True, s\<lparr>world := w', bufs := (bufs s)(q \<mapsto> b), proc_pibr := q\<rparr>))"
    and hq: "holds (s\<lparr>world := w', bufs := (bufs s)(q \<mapsto> b), proc_pibr := q\<rparr>) q (prefix s)"
    using swap_buffers_fresh [OF ok pid fr] by blast
  let ?s = "s\<lparr>world := w', bufs := (bufs s)(q \<mapsto> b), proc_pibr := q\<rparr>"
  obtain c where c: "bufs s ?p = Some c" "?p \<noteq> 0"
    "pibr_is (pibr c) (procid s) (int (length (prefix s))) ?p 0"
    using h by (rule holdsE)
  have pq: "?p \<noteq> q" using c fr by (auto simp: fresh_page_def)
  have al: "?p AND NOT 0xfff = ?p"
    using c(3) by (intro aligned_and) (simp add: pibr_is_def)
  have "flush_buffer os ?p ?s = Some (Inr ((), ?s))"
    using h ok pq holds_frame [of ?s ?p s]
    by (intro flush_buffer_empty) (simp_all add: prefix_ok_def)
  then have "swap_and_flush_buffer os ?p pid s = Some (Inr ((), ?s))"
    using sw c(2) al by (simp add: swap_and_flush_buffer_def bnd_def)
  with hq show thesis using that by blast
qed

lemma swap_and_flush_stuck:
  assumes lc: "libc_ok os live" and st: "stuck os live pid r s" "proc_pibr s \<noteq> 0"
    and run: "swap_and_flush_buffer os (proc_pibr s) pid s = Some (Inr (x, s'))"
  shows "stuck os live pid r s'"
proof (cases "fst (fst (sys_memalign os 4096 LOGGER_ENTRY_MAX_PAYLOAD (world s))) = 0")
  case True
  then show ?thesis using swap_and_flush_alloc_fails run by (auto simp: stuck_def)
next
  case False
  obtain t where t: "batching s t" "pid = procid s" "dom (bufs s) \<subseteq> live (world s)" "\<not> fits s [] r"
    using st by (auto simp: stuck_def)
  have h: "holds s (proc_pibr s) (prefix s @ t)" and ok: "prefix_ok s" and tt: "NUL \<notin> set t"
    and len: "int (length (prefix s @ t)) < BATCH_LIMIT"
    using t(1) by (auto simp: batching_def)
  have short: "int (length (prefix s)) < BATCH_LIMIT" using len by simp
  obtain q w' where q: "fresh_page os s q w'" "live w' = insert q (live (world s))"
    using libc_memalign [OF lc t(3) False] by blast
  show ?thesis
  proof (cases "t = []")
    case True
    then have h0: "holds s (proc_pibr s) (prefix s)" using h by simp
    obtain b where b: "swap_and_flush_buffer os (proc_pibr s) pid s =
        Some (Inr ((), s\<lparr>world := w', bufs := (bufs s)(q \<mapsto> b), proc_pibr := q\<rparr>))"
      "holds (s\<lparr>world := w', bufs := (bufs s)(q \<mapsto> b), proc_pibr := q\<rparr>) q (prefix s)"
      using swap_and_flush_empty [OF h0 ok t(2) q(1)] by blast
    then have "dom (bufs s') = insert q (dom (bufs s))" "world s' = w'" using run by auto
    then have "dom (bufs s') \<subseteq> live (world s')" using t(3) q(2) by blast
    with b have "batching s' [] \<and> pid = procid s' \<and> dom (bufs s') \<subseteq> live (world s') \<and> \<not> fits s' [] r"
      using run ok t short by (auto simp: batching_def prefix_ok_def fits_def)
    then show ?thesis unfolding stuck_def by blast
  next
    case False
    obtain b where b: "swap_and_flush_buffer os (proc_pibr s) pid s =
        Some (Inr ((), flushed os (proc_pibr s) t (s\<lparr>world := w', bufs := (bufs s)(q \<mapsto> b), proc_pibr := q\<rparr>)))"
      "holds (flushed os (proc_pibr s) t (s\<lparr>world := w', bufs := (bufs s)(q \<mapsto> b), proc_pibr := q\<rparr>)) q (prefix s)"
      using swap_and_flush_fresh [OF h ok t(2) False tt len q(1)] by blast
    have s': "s' = flushed os (proc_pibr s) t (s\<lparr>world := w', bufs := (bufs s)(q \<mapsto> b), proc_pibr := q\<rparr>)"
      using run b(1) by simp
    have f: "prefix s' = prefix s" "procid s' = procid s" "proc_pibr s' = q" "prefix_len s' = prefix_len s"
      "bufs s' = ((bufs s)(q \<mapsto> b))(proc_pibr s := None)"
      by (simp_all add: s' flushed_def Let_def)
    have "live (world s') = insert q (live (world s)) - {proc_pibr s}"
      using libc_flush(1) [OF lc] q(2) by (simp add: s' flushed_def Let_def)
    then have "dom (bufs s') \<subseteq> live (world s')" using t(3) unfolding f by auto
    moreover have "batching s' []"
      using b(2) ok short f unfolding s' [symmetric] by (simp add: batching_def prefix_ok_def)
    ultimately have "batching s' [] \<and> pid = procid s' \<and> dom (bufs s') \<subseteq> live (world s') \<and> \<not> fits s' [] r"
      using t f by (simp add: fits_def)
    then show ?thesis unfolding stuck_def by blast
  qed
qed

lemma blog_body_stuck:
  assumes lc: "libc_ok os live" and st: "stuck os live pid r s"
    and k: "\<And>s x s'. stuck os live pid r s \<Longrightarrow> k s \<noteq> Some (Inr (x, s'))"
  shows "blog_body os pid incr r k s \<noteq> Some (Inr (x, s'))"
proof (cases "proc_pibr s = 0")
  case True
  then show ?thesis by (simp add: blog_body_def fetch_add_def load_buf_def exec_defs)
next
  case False
  then obtain t where t: "batching s t" "pid = procid s" "\<not> fits s [] r"
    using st by (auto simp: stuck_def)
  obtain b where b: "bufs s (proc_pibr s) = Some b" "proc_pibr s \<noteq> 0"
    "pibr_is (pibr b) (procid s) (int (length (prefix s @ t))) (proc_pibr s) 0"
    using t(1) by (auto simp: batching_def elim!: holdsE)
  have "blog_body os pid incr r k s = bnd (swap_and_flush_buffer os (proc_pibr s) pid) (\<lambda>_. k) s"
    using t(3) by (intro blog_body_retry [OF b]) (simp add: fits_def)
  then show ?thesis
    using swap_and_flush_stuck [OF lc st False] k by (auto elim!: bndE)
qed

lemma blog_loop_stuck:
  fixes s :: "'w proc"
  assumes lc: "libc_ok os live" and st: "stuck os live pid r s"
  shows "blog_loop os pid incr r s \<noteq> Some (Inr (x, s'))"
proof
  assume run: "blog_loop os pid incr r s = Some (Inr (x, s'))"
  let ?P = "\<lambda>os pid incr r s (y :: fault + int \<times> 'w proc). libc_ok os live \<longrightarrow> stuck os live pid r s \<longrightarrow> (\<forall>x s'. y \<noteq> Inr (x, s'))"
  have "?P os pid incr r s (Inr (x, s'))"
  proof (rule blog_loop.raw_induct [where P = ?P, OF _ run])
    fix bl os pid incr r s and y :: "fault + int \<times> 'w proc"
    assume IH: "\<And>os pid incr r s y. bl os pid incr r s = Some y \<Longrightarrow> ?P os pid incr r s y"
      and "bnd (gets proc_pibr) (\<lambda>p.
     bnd (fetch_add p incr) (\<lambda>cur.
     if PIBR_PTR cur = 0
     then andthen (fetch_sub (PIBR_PTR cur) incr) (no_batch_blog os r)
     else if PIBR_PID cur = pid \<and> PIBR_IDX cur + int (length r) < BATCH_LIMIT
     then andthen (copy_into (PIBR_PTR cur) (PIBR_IDX cur) r)
         (andthen (fetch_sub (PIBR_PTR cur) 1) (ret (int (length r))))
     else andthen (fetch_sub (PIBR_PTR cur) incr)
         (andthen (swap_and_flush_buffer os (PIBR_PTR cur) pid) (bl os pid incr r)))) s = Some y"
    then have body: "blog_body os pid incr r (bl os pid incr r) s = Some y" by (simp add: blog_body_def)
    show "?P os pid incr r s y"
    proof (intro impI allI notI)
      fix x s' assume "libc_ok os live" "stuck os live pid r s" "y = Inr (x, s')"
      with body show False
        using blog_body_stuck [of os live pid r s "bl os pid incr r"] IH [of os pid incr r] by blast
    qed
  qed
  with lc st show False by blast
qed

end
