(* ===== verification/Flusher.thy ===== *)
theory Flusher
  imports Bblog
begin

unbundle bit_operations_syntax

text \<open>
  The flusher thread (\<open>flusher.c\<close>): every few seconds it writes out the current
  log buffer of a process that has gone quiet.  Daemons under \<open>/system/bin\<close>,
  \<open>/system/xbin\<close> and \<open>/sbin\<close> and children of \<open>kthreadd\<close> get no flusher.

  The thread shares the process state with the threads it serves, so one iteration
  of its loop is an operation on that state like any other.
\<close>

section \<open>Memory of \<open>struct thread_info\<close>\<close>

definition load_ti :: "addr \<Rightarrow> ('w proc, thread_info) exec" where
  "load_ti p = bnd (gets (\<lambda>s. tinfos (flusher_v s) p)) (\<lambda>t.
     if p = 0 then crash NullDeref
     else case t of None \<Rightarrow> crash WildDeref | Some t \<Rightarrow> ret t)"

definition upd_flusher :: "(flusher_vars \<Rightarrow> flusher_vars) \<Rightarrow> ('w proc, unit) exec" where
  "upd_flusher f = modify (\<lambda>s. s\<lparr>flusher_v := f (flusher_v s)\<rparr>)"

definition store_ti :: "addr \<Rightarrow> thread_info \<Rightarrow> ('w proc, unit) exec" where
  "store_ti p t = upd_flusher (\<lambda>v. v\<lparr>tinfos := (tinfos v)(p \<mapsto> t)\<rparr>)"

definition free_ti :: "'w os \<Rightarrow> addr \<Rightarrow> ('w proc, unit) exec" where
  "free_ti os p = bnd (gets (\<lambda>s. tinfos (flusher_v s) p)) (\<lambda>t.
     if t = None then crash BadFree
     else andthen (sysc (\<lambda>w. ((), sys_free os p w)))
       (upd_flusher (\<lambda>v. v\<lparr>tinfos := (tinfos v)(p := None)\<rparr>)))"

section \<open>The thread\<close>

definition FLUSH_TIMEOUT :: nat where
  "FLUSH_TIMEOUT = 5"

definition FLUSH_BUF_SIZE :: int where
  "FLUSH_BUF_SIZE = 1024"

definition init_pthread :: "'w os \<Rightarrow> ('w proc, int) exec" where
  "init_pthread os =
     andthen (load_sym os Flusher_create ''pthread_create'' ''__pthread_create'') (
     bnd (gets (\<lambda>s. fptr s Flusher_create)) (\<lambda>f.
     if f = 0 then andthen (seterr os EIO) (andthen (err os ''pthread'') (ret (- 1))) else ret 0))"

text \<open>One turn of the loop; it returns whether the loop goes on.\<close>

definition flusher_step :: "'w os \<Rightarrow> addr \<Rightarrow> ('w proc, bool) exec" where
  "flusher_step os info =
     andthen (sysc (\<lambda>w. ((), sys_sleep os FLUSH_TIMEOUT w))) (
     bnd (process_name_str os) (\<lambda>name.
     if strcmp0 name ''srg.cs.illinois.edu.storagestudy'' then ret False else
     bnd (load_ti info) (\<lambda>ti.
     if interrupt ti \<noteq> 0 then ret False else
     bnd (sysc (sys_clock os)) (\<lambda>secs.
     bnd (gets last_flush_secs) (\<lambda>last.
     if u64 (secs - last) \<le> int FLUSH_TIMEOUT then ret True else
     bnd (gets proc_pibr) (\<lambda>p.
     if p = 0 then ret True else
     bnd (load_buf p) (\<lambda>b.
     if pibr b = 0 \<or> PIBR_PTR (pibr b) = 0 then ret True else
     bnd (asks (sys_getpid os)) (\<lambda>new_pid.
     if PIBR_PID (pibr b) \<noteq> new_pid then ret True else
     if PIBR_IDX (pibr b) < FLUSH_BUF_SIZE then ret True else
     bnd (gets proc_pibr) (\<lambda>p.
     andthen (swap_and_flush_buffer os p new_pid) (ret True))))))))))"

partial_function (option) flusher_loop ::
  "'w os \<Rightarrow> addr \<Rightarrow> 'w proc \<Rightarrow> (fault + unit \<times> 'w proc) option" where
  "flusher_loop os info s =
     bnd (flusher_step os info) (\<lambda>on.
     if on then flusher_loop os info
     else andthen (err os ''flusher thread exiting'') (free_ti os info)) s"

definition flusher_thread :: "'w os \<Rightarrow> addr \<Rightarrow> ('w proc, unit) exec" where
  "flusher_thread os data =
     (if data = 0 then ret ()
      else andthen (err os ''flusher thread running'') (flusher_loop os data))"

section \<open>Which processes get one\<close>

definition override_openat :: "'w os \<Rightarrow> ('w proc, unit) exec" where
  "override_openat os = load_sym os Flusher_openat ''openat'' ''__open''"

text \<open>The three descriptor variables \<open>in_dir\<close> is called with.\<close>

datatype dirvar = Xbin_fd | Bin_fd | Sbin_fd

fun get_dir :: "dirvar \<Rightarrow> flusher_vars \<Rightarrow> int" where
  "get_dir Xbin_fd v = system_xbin_fd v"
| "get_dir Bin_fd v = system_bin_fd v"
| "get_dir Sbin_fd v = sbin_fd v"

fun set_dir :: "dirvar \<Rightarrow> int \<Rightarrow> flusher_vars \<Rightarrow> flusher_vars" where
  "set_dir Xbin_fd fd v = v\<lparr>system_xbin_fd := fd\<rparr>"
| "set_dir Bin_fd fd v = v\<lparr>system_bin_fd := fd\<rparr>"
| "set_dir Sbin_fd fd v = v\<lparr>sbin_fd := fd\<rparr>"

definition in_dir :: "'w os \<Rightarrow> string \<Rightarrow> dirvar \<Rightarrow> string \<Rightarrow> ('w proc, bool) exec" where
  "in_dir os dir_name dv name =
     andthen (override_openat os) (
     bnd (gets (\<lambda>s. get_dir dv (flusher_v s))) (\<lambda>fd.
     andthen (only_if (fd = - 1)
       (bnd (call Flusher_openat (\<lambda>f. sys_openat os f AT_FDCWD dir_name O_RDONLY 0)) (\<lambda>r.
        upd_flusher (set_dir dv r)))) (
     bnd (gets (\<lambda>s. get_dir dv (flusher_v s))) (\<lambda>fd.
     if fd = - 1 \<or> take 1 name = ''/'' then ret (strncmp0 name dir_name (length dir_name))
     else bnd (sysc (sys_faccessat os fd name)) (\<lambda>r. ret (r = 0))))))"

definition skip_process :: "'w os \<Rightarrow> ('w proc, bool) exec" where
  "skip_process os =
     bnd (process_name os) (\<lambda>p.
     if p = 0 then ret True else
     bnd (load_str p) (\<lambda>name.
     bnd (in_dir os ''/system/xbin/'' Xbin_fd name) (\<lambda>a.
     if a then ret True else
     bnd (in_dir os ''/system/bin/'' Bin_fd name) (\<lambda>b.
     if b then ret True else in_dir os ''/sbin'' Sbin_fd name))))"

section \<open>Starting and stopping it\<close>

text \<open>The start routine handed to \<open>pthread_create\<close>; its address is only passed on.\<close>

definition flusher_routine :: nat where
  "flusher_routine = 1"

definition cas_flusher_info :: "addr \<Rightarrow> addr \<Rightarrow> ('w proc, bool) exec" where
  "cas_flusher_info old new = bnd (gets (\<lambda>s. flusher_info (flusher_v s))) (\<lambda>v.
     if v = old then andthen (upd_flusher (\<lambda>v. v\<lparr>flusher_info := new\<rparr>)) (ret True) else ret False)"

text \<open>
  \<open>ptr\<close> and \<open>last_flush\<close> are the addresses of \<open>proc_pibr\<close> and \<open>last_flush_secs\<close>,
  never NULL.  \<open>pthread_create\<close> also yields what it left in \<open>info->tid\<close>.
\<close>

definition start_flusher_thread :: "'w os \<Rightarrow> ('w proc, int) exec" where
  "start_flusher_thread os =
     bnd (gets (\<lambda>s. flusher_info (flusher_v s))) (\<lambda>fi.
     if fi \<noteq> 0 then ret 0 else
     bnd (asks (sys_getppid os)) (\<lambda>ppid.
     if ppid = 2 then ret 0 else
     bnd (skip_process os) (\<lambda>skip.
     if skip then ret 0 else
     bnd (init_pthread os) (\<lambda>r.
     if r = - 1 then andthen (err os ''Pthread init'') (ret (- 1)) else
     bnd (sysc (sys_malloc os 16)) (\<lambda>info.
     if info = 0 then andthen (err os ''Flusher malloc'') (ret (- 1)) else
     andthen (store_ti info \<lparr>tid = 0, interrupt = 0\<rparr>) (
     bnd (cas_flusher_info 0 info) (\<lambda>ok.
     if \<not> ok then andthen (free_ti os info) (ret 0) else
     bnd (call Flusher_create (\<lambda>f. sys_pthread_create os f flusher_routine (unat info))) (\<lambda>(r, t).
     andthen (store_ti info \<lparr>tid = t, interrupt = 0\<rparr>) (
     if r = - 1
     then andthen (err os ''Flusher create'')
         (andthen (cas_flusher_info info 0) (andthen (free_ti os info) (ret (- 1))))
     else ret 0)))))))))"

text \<open>
  \<open>pthread_join\<close> returns when the thread has ended.  The flusher spends its time
  asleep at the head of its loop, so while the caller waits it runs from there.
\<close>

definition join_flusher :: "'w os \<Rightarrow> addr \<Rightarrow> int \<Rightarrow> ('w proc, unit) exec" where
  "join_flusher os info t =
     andthen (flusher_loop os info) (sysc (\<lambda>w. ((), sys_pthread_join os t w)))"

definition stop_flusher_thread :: "'w os \<Rightarrow> ('w proc, unit) exec" where
  "stop_flusher_thread os =
     bnd (gets (\<lambda>s. flusher_info (flusher_v s))) (\<lambda>fi.
     if fi = 0 then ret () else
     bnd (load_ti fi) (\<lambda>ti.
     andthen (store_ti fi (ti\<lparr>interrupt := interrupt ti OR 1\<rparr>)) (
     andthen (join_flusher os fi (tid ti)) (
     andthen (err os ''flusher thread exited'')
             (free_ti os fi)))))"

end
