(* ===== verification/Lifecycle.thy ===== *)
theory Lifecycle
  imports Flusher
begin

unbundle bit_operations_syntax

text \<open>
  Starting and stopping the batching logger (\<open>bblog_init\<close> and \<open>bblog_exit\<close> of
  \<open>bblog.c\<close>) and what happens across \<open>fork\<close>.  \<open>main\<close> is \<open>1\<close> when the process
  exits or calls \<open>exec\<close>, \<open>0\<close> when a thread exits, and minus the signal number
  when a terminal signal is delivered.
\<close>

section \<open>The functions\<close>

definition bblog_init :: "'w os \<Rightarrow> int \<Rightarrow> ('w proc, unit) exec" where
  "bblog_init os main =
     bnd (asks (sys_getpid os)) (\<lambda>pid.
     andthen (swap_buffers os 0 pid) (
     andthen (start_flusher_thread os) (ret ())))"

text \<open>\<open>__sync_fetch_and_and(p, 0)\<close> on a packed word.\<close>

definition fetch_clear :: "addr \<Rightarrow> ('w proc, 64 word) exec" where
  "fetch_clear p = bnd (load_buf p) (\<lambda>b. andthen (store_buf p (b\<lparr>pibr := pibr b AND 0\<rparr>)) (ret (pibr b)))"

definition bblog_exit :: "'w os \<Rightarrow> int \<Rightarrow> ('w proc, unit) exec" where
  "bblog_exit os main =
     (if main < 0 then
        bnd (gets proc_pibr) (\<lambda>p.
        bnd (asks (sys_getpid os)) (\<lambda>pid.
        swap_and_flush_buffer os p pid))
      else if main = 0 then ret ()
      else if main = 1 then
        andthen (stop_flusher_thread os) (
        bnd (gets proc_pibr) (\<lambda>p.
        bnd (fetch_clear p) (\<lambda>w.
        if w \<noteq> 0 \<and> PIBR_PTR w \<noteq> 0 then flush_buffer os (PIBR_PTR w) else ret ())))
      else ret ())"

section \<open>What the flusher's set-up leaves alone\<close>

definition indep_flush :: "('w proc \<Rightarrow> 'v) \<Rightarrow> bool" where
  "indep_flush f \<longleftrightarrow> indep_name f \<and> (\<forall>s v. f (s\<lparr>flusher_v := v\<rparr>) = f s)"

lemma indep_flushD:
  assumes "indep_flush f"
  shows "indep_name f" "f (s\<lparr>flusher_v := v\<rparr>) = f s" "f (s\<lparr>world := w\<rparr>) = f s"
    "f (s\<lparr>logs := l\<rparr>) = f s"
    "logger_slot u \<Longrightarrow> f (s\<lparr>fptr := (fptr s)(u := g)\<rparr>) = f s"
  using assms by (simp_all add: indep_flush_def indep_nameD)

lemma keeps_upd_flusher [keep_rules]:
  "(\<And>s v. f (s\<lparr>flusher_v := v\<rparr>) = f s) \<Longrightarrow> keeps f (upd_flusher g)"
  unfolding upd_flusher_def by (intro keep_rules) simp

lemma keeps_start_flusher [keep_rules]:
  assumes "indep_flush f" shows "keeps f (start_flusher_thread os)"
proof -
  note f = indep_flushD [OF assms]
  have "keeps f (in_dir os d v n)" for d v n
    unfolding in_dir_def override_openat_def by (intro keep_rules) (simp_all add: f)
  then have "keeps f (skip_process os)"
    unfolding skip_process_def by (intro keep_rules) (simp_all add: f)
  moreover have "keeps f (init_pthread os)"
    unfolding init_pthread_def by (intro keep_rules) (simp_all add: f)
  moreover have "keeps f (free_ti os p)" "keeps f (store_ti p t)" "keeps f (cas_flusher_info p q)" for p t q
    unfolding free_ti_def store_ti_def cas_flusher_info_def by (intro keep_rules; simp add: f)+
  ultimately show ?thesis
    unfolding start_flusher_thread_def by (intro keep_rules) (simp_all add: f)
qed

lemma keeps_ti [keep_rules]:
  assumes "indep_flush f"
  shows "keeps f (load_ti p)" "keeps f (store_ti p t)" "keeps f (free_ti os p)"
  unfolding load_ti_def store_ti_def free_ti_def by (intro keep_rules; simp add: indep_flushD [OF assms])+

lemma keeps_flusher_loop [keep_rules]:
  fixes f :: "'w proc \<Rightarrow> 'v"
  assumes l: "indep_log f" and fl: "indep_flush f" shows "keeps f (flusher_loop os info)"
proof (rule keeps_by_runs)
  have st: "keeps f (flusher_step os info)" for os info
    unfolding flusher_step_def by (intro keep_rules l fl indep_logD [OF l])
  fix s :: "'w proc" and y assume "flusher_loop os info s = Some y"
  then show "\<forall>x s'. y = Inr (x, s') \<longrightarrow> f s' = f s"
  proof (rule flusher_loop.raw_induct
      [where P = "\<lambda>os info s y. \<forall>x s'. y = Inr (x, s') \<longrightarrow> f s' = f s", rotated])
    fix lp os info s y
    assume "\<And>os info s y. lp os info s = Some y \<Longrightarrow> \<forall>x s'. y = Inr (x, s') \<longrightarrow> f s' = f s"
      and body: "bnd (flusher_step os info) (\<lambda>on.
     if on then lp os info
     else andthen (err os ''flusher thread exiting'') (free_ti os info)) s = Some y" (is "?body s = _")
    then have lp: "keeps f (lp os info)" by (intro keeps_by_runs) blast
    have "keeps f ?body" by (intro keep_rules st lp fl indep_logD [OF l])
    with body show "\<forall>x s'. y = Inr (x, s') \<longrightarrow> f s' = f s" by (auto dest: keepsD)
  qed
qed

lemma keeps_bblog_init_exit [keep_rules]:
  assumes "indep_log f" "indep_flush f"
  shows "keeps f (bblog_init os main)" "keeps f (bblog_exit os main)"
proof -
  show "keeps f (bblog_init os main)" unfolding bblog_init_def by (intro keep_rules assms)
  have "keeps f (stop_flusher_thread os)" "keeps f (fetch_clear p)" for p
    unfolding stop_flusher_thread_def join_flusher_def fetch_clear_def
    by (intro keep_rules assms indep_logD [OF assms(1)]; simp add: indep_logD [OF assms(1)])+
  then show "keeps f (bblog_exit os main)" unfolding bblog_exit_def by (intro keep_rules assms)
qed

section \<open>Start-up\<close>

text \<open>A new prefix: the process identity changes and the name is looked up.\<close>

lemma reinit_procid_new:
  assumes "procid s \<noteq> pid" and nm: "process_name_str os s = Some (Inr (n, s1))"
    and len: "length (prefix_text pid n) < MAX_PREFIX_LEN"
  shows "reinit_procid os pid s = Some (Inr (0, s1\<lparr>prefix := prefix_text pid n,
      prefix_len := int (length (prefix_text pid n)), procid := pid\<rparr>))"
proof -
  have "procid s1 = procid s"
    using keepsD [OF keeps_process_name_str nm, of procid] by (simp add: indep_defs)
  moreover have "snprintf MAX_PREFIX_LEN (prefix_text pid n) = prefix_text pid n"
    using len by (simp add: snprintf_def)
  ultimately show ?thesis
    using assms by (subst reinit_procid.simps)
      (simp add: bnd_def andthen_def gets_def modify_def ret_def cas_procid_def)
qed

lemma prefix_text_no_NUL: "NUL \<notin> set n \<Longrightarrow> NUL \<notin> set (prefix_text pid n)"
proof -
  have "NUL \<notin> set (dec_int pid)"
    using dec_nat_digits [of NUL] by (auto simp: dec_int_def NUL_def is_digit_def)
  moreover assume "NUL \<notin> set n"
  ultimately show ?thesis by (simp add: prefix_text_def NUL_def)
qed

text \<open>
  The state \<open>s\<close> has allocated the page \<open>q\<close> and found the name \<open>n\<close>, which
  left \<open>s1\<close>; the process \<open>pid\<close> has no prefix of its own yet.
\<close>

definition new_identity ::
  "'w os \<Rightarrow> 'w proc \<Rightarrow> int \<Rightarrow> addr \<Rightarrow> string \<Rightarrow> 'w proc \<Rightarrow> bool" where
  "new_identity os s pid q n s1 \<longleftrightarrow>
     (case sys_memalign os 4096 LOGGER_ENTRY_MAX_PAYLOAD (world s) of ((a, g), w) \<Rightarrow>
        a = q \<and> length (buf g) = PIBR_BUF_SIZE \<and>
        process_name_str os (s\<lparr>world := w, bufs := (bufs s)(q \<mapsto> g)\<rparr>) = Some (Inr (n, s1))) \<and>
     q \<noteq> 0 \<and> 4096 dvd uint q \<and> bufs s q = None \<and>
     0 < pid \<and> pid \<le> PID_MAX \<and> procid s \<noteq> pid \<and> NUL \<notin> set n \<and>
     length (prefix_text pid n) < MAX_PREFIX_LEN"

lemma alloc_buffer_new_identity:
  assumes ni: "new_identity os s pid q n s1"
  obtains s' where "alloc_buffer os pid s = Some (Inr (q, s'))"
    and "holds s' q (prefix s')" and "prefix_ok s'" and "prefix s' = prefix_text pid n" and "procid s' = pid"
    and "proc_pibr s' = proc_pibr s" and "\<forall>a. a \<noteq> q \<longrightarrow> bufs s' a = bufs s a"
    and "logs s' = logs s1" and "world s' = world s1"
proof -
  obtain g w where m: "sys_memalign os 4096 LOGGER_ENTRY_MAX_PAYLOAD (world s) = ((q, g), w)"
    and g: "length (buf g) = PIBR_BUF_SIZE" and q: "q \<noteq> 0" "4096 dvd uint q"
    and nm: "process_name_str os (s\<lparr>world := w, bufs := (bufs s)(q \<mapsto> g)\<rparr>) = Some (Inr (n, s1))"
    and pid: "0 < pid" "pid \<le> PID_MAX" "procid s \<noteq> pid" and n: "NUL \<notin> set n"
    and len: "length (prefix_text pid n) < MAX_PREFIX_LEN"
    using ni by (auto simp: new_identity_def split: prod.splits)
  let ?pre = "prefix_text pid n" and ?s = "s\<lparr>world := w, bufs := (bufs s)(q \<mapsto> g)\<rparr>"
  have k1: "bufs s1 = (bufs s)(q \<mapsto> g)" "proc_pibr s1 = proc_pibr s"
    using keepsD [OF keeps_process_name_str nm, of bufs] keepsD [OF keeps_process_name_str nm, of proc_pibr]
    by (simp_all add: indep_defs)
  have ri: "reinit_procid os pid ?s =
      Some (Inr (0, s1\<lparr>prefix := ?pre, prefix_len := int (length ?pre), procid := pid\<rparr>))"
    using pid nm len by (intro reinit_procid_new) auto
  have "write_at 0 (?pre @ [NUL]) (buf g) \<noteq> None"
    using len by (simp add: write_at_def g size_defs)
  then obtain bs where bs: "write_at 0 (?pre @ [NUL]) (buf g) = Some bs" by blast
  let ?b = "g\<lparr>buf := bs, pibr := pack_word q pid (int (length ?pre)) 0\<rparr>"
  let ?s' = "s1\<lparr>prefix := ?pre, prefix_len := int (length ?pre), procid := pid,
    bufs := (bufs s1)(q \<mapsto> ?b)\<rparr>"
  have run: "alloc_buffer os pid s = Some (Inr (q, ?s'))"
    using m q bs ri pid k1
    by (simp add: alloc_buffer_def bnd_def andthen_def sysc_def ret_def gets_def aligned_low init_buffer_def
        run_rules)
  have "take (length ?pre) bs = ?pre"
    using bs by (auto simp: write_at_def split: if_splits)
  moreover have "pibr_is (pack_word q pid (int (length ?pre)) 0) pid (int (length ?pre)) q 0"
    using pid q len by (intro pack_word_is) (auto simp: PID_MAX_def size_defs)
  ultimately have "holds ?s' q ?pre"
    using q g length_write_at [OF bs] by (simp add: holds_def)
  moreover have "prefix_ok ?s'"
    using pid len prefix_text_no_NUL [OF n] by (simp add: prefix_ok_def)
  ultimately show thesis using run k1 that [of ?s'] by simp
qed

text \<open>The first \<open>bblog_init\<close> of a process leaves the logger batching with nothing pending.\<close>

lemma swap_buffers_first:
  assumes "proc_pibr s = 0" and ni: "new_identity os s pid q n s1"
  obtains s' where "swap_buffers os 0 pid s = Some (Inr (True, s'))" and "batching s' []"
    and "prefix s' = prefix_text pid n" and "procid s' = pid" and "logs s' = logs s1"
proof -
  have q: "q \<noteq> 0" and len: "length (prefix_text pid n) < MAX_PREFIX_LEN"
    using ni by (auto simp: new_identity_def)
  obtain s' where s': "alloc_buffer os pid s = Some (Inr (q, s'))" "holds s' q (prefix s')"
    "prefix_ok s'" "prefix s' = prefix_text pid n" "procid s' = pid" "proc_pibr s' = proc_pibr s"
    "logs s' = logs s1"
    using alloc_buffer_new_identity [OF ni] by metis
  have same: "s\<lparr>proc_pibr := 0\<rparr> = s" by (subst assms(1) [symmetric]) simp
  have "swap_buffers os 0 pid s = Some (Inr (True, s'\<lparr>proc_pibr := q\<rparr>))"
    using s' q assms(1)
    by (simp add: same swap_buffers_def cas_proc_pibr_def bnd_def andthen_def gets_def modify_def ret_def)
  moreover have "holds (s'\<lparr>proc_pibr := q\<rparr>) q (prefix s')"
    using s'(2) holds_frame [of "s'\<lparr>proc_pibr := q\<rparr>" q s'] by simp
  then have "batching (s'\<lparr>proc_pibr := q\<rparr>) []"
    using s'(3,4) len by (simp add: batching_def prefix_ok_def BATCH_LIMIT_num size_defs)
  ultimately show thesis using s' that [of "s'\<lparr>proc_pibr := q\<rparr>"] by simp
qed

lemma batching_frame:
  assumes "bufs s' = bufs s" "prefix s' = prefix s" "prefix_len s' = prefix_len s" "procid s' = procid s"
    "proc_pibr s' = proc_pibr s"
  shows "batching s' t = batching s t"
  using assms holds_frame [of s' "proc_pibr s" s] by (simp add: batching_def prefix_ok_def)

lemma start_flusher_batching:
  assumes "start_flusher_thread os s = Some (Inr (x, s'))"
  shows "batching s' t = batching s t" and "prefix s' = prefix s" and "procid s' = procid s"
proof -
  have k: "f s' = f s" if "indep_flush f" for f :: "'a proc \<Rightarrow> 'v"
    using keepsD [OF keeps_start_flusher assms] that by blast
  show "prefix s' = prefix s" "procid s' = procid s"
    by (rule k; simp add: indep_flush_def indep_defs)+
  show "batching s' t = batching s t"
    by (rule batching_frame; rule keepsD [OF keeps_start_flusher assms]; simp add: indep_flush_def indep_defs)
qed

text \<open>Later calls, one per thread, find the buffer and leave it.\<close>

lemma bblog_init_again:
  assumes "batching s t" and "bblog_init os main s = Some (Inr (x, s'))"
  shows "batching s' t" and "prefix s' = prefix s"
proof -
  have p: "proc_pibr s \<noteq> 0" using assms(1) by (auto simp: batching_def holds_def)
  have "swap_buffers os 0 pid s = Some (Inr (False, s))" for pid
    using p by (simp add: swap_buffers_def cas_proc_pibr_def bnd_def gets_def ret_def)
  then have "\<exists>y. start_flusher_thread os s = Some (Inr (y, s'))"
    using assms(2) by (auto simp: bblog_init_def asks_def bnd_def andthen_def gets_def ret_def
        split: option.splits sum.splits)
  then show "batching s' t" "prefix s' = prefix s"
    using start_flusher_batching assms(1) by blast+
qed

lemma bblog_init_first:
  assumes "proc_pibr s = 0" and "new_identity os s (sys_getpid os (world s)) q n s1"
    and "bblog_init os main s = Some (Inr (x, s'))"
  shows "batching s' []" and "prefix s' = prefix_text (sys_getpid os (world s)) n"
proof -
  obtain s2 where s2: "swap_buffers os 0 (sys_getpid os (world s)) s = Some (Inr (True, s2))"
    "batching s2 []" "prefix s2 = prefix_text (sys_getpid os (world s)) n"
    using swap_buffers_first [OF assms(1,2)] by metis
  then have "\<exists>y. start_flusher_thread os s2 = Some (Inr (y, s'))"
    using assms(3) by (auto simp: bblog_init_def asks_def bnd_def andthen_def gets_def ret_def
        split: option.splits sum.splits)
  then show "batching s' []" "prefix s' = prefix_text (sys_getpid os (world s)) n"
    using start_flusher_batching s2 by metis+
qed

section \<open>Fork\<close>

text \<open>
  The first record after \<open>fork\<close>: the buffer inherited from the parent is put aside
  without being written (the parent still owns its text), the child gets a buffer with
  a prefix of its own, and the record goes there.
\<close>

lemma swap_and_flush_fork:
  assumes old: "bufs s (proc_pibr s) = Some b" "pibr_is (pibr b) (procid s) i (proc_pibr s) 0"
    "proc_pibr s \<noteq> 0"
    and ni: "new_identity os s pid q n s1"
  obtains s' where "swap_and_flush_buffer os (proc_pibr s) pid s = Some (Inr ((), s'))"
    and "batching s' []" and "prefix s' = prefix_text pid n" and "procid s' = pid"
    and "logs s' = logs s1" and "bufs s' (proc_pibr s) = Some b" and "world s' = world s1"
proof -
  have q: "q \<noteq> 0" "bufs s q = None" and len: "length (prefix_text pid n) < MAX_PREFIX_LEN"
    and pid: "procid s \<noteq> pid"
    using ni by (auto simp: new_identity_def)
  have pq: "proc_pibr s \<noteq> q" using q(2) old(1) by auto
  obtain s2 where s2: "alloc_buffer os pid s = Some (Inr (q, s2))" "holds s2 q (prefix s2)"
    "prefix_ok s2" "prefix s2 = prefix_text pid n" "procid s2 = pid" "proc_pibr s2 = proc_pibr s"
    "\<forall>a. a \<noteq> q \<longrightarrow> bufs s2 a = bufs s a" "logs s2 = logs s1" "world s2 = world s1"
    using alloc_buffer_new_identity [OF ni] by metis
  let ?s = "s2\<lparr>proc_pibr := q\<rparr>"
  have sw: "swap_buffers os (proc_pibr s) pid s = Some (Inr (True, ?s))"
    using s2 q
    by (simp add: swap_buffers_def cas_proc_pibr_def bnd_def andthen_def gets_def modify_def ret_def)
  have al: "proc_pibr s AND NOT 0xfff = proc_pibr s"
    using old(2) by (intro aligned_and) (simp add: pibr_is_def)
  have "flush_buffer os (proc_pibr s) ?s = Some (Inr ((), ?s))"
    using flush_buffer_stale [of ?s "proc_pibr s" b os] old pq s2 pid pibr_is_fields(1) [OF old(2)] by simp
  then have run: "swap_and_flush_buffer os (proc_pibr s) pid s = Some (Inr ((), ?s))"
    using sw al old(3) by (simp add: swap_and_flush_buffer_def bnd_def)
  have "holds ?s q (prefix s2)"
    using s2(2) holds_frame [of ?s q s2] by simp
  then have "batching ?s []"
    using s2(3,4) len by (simp add: batching_def prefix_ok_def BATCH_LIMIT_num size_defs)
  then show thesis using run s2 old pq that [of ?s] by simp
qed

lemma do_blog_fork:
  assumes bt: "batching s t" and pid: "pid = sys_getpid os (world s)"
    and ni: "new_identity os s pid q n s1"
    and r: "NUL \<notin> set r" "int (length (prefix_text pid n) + length r) < BATCH_LIMIT"
  obtains s' where "do_blog os r s = Some (Inr (int (length r), s'))" and "batching s' r"
    and "prefix s' = prefix_text pid n" and "procid s' = pid" and "logs s' = logs s1"
    and "holds (s\<lparr>bufs := bufs s'\<rparr>) (proc_pibr s) (prefix s @ t)"
proof -
  have h: "holds s (proc_pibr s) (prefix s @ t)" using bt by (simp add: batching_def)
  obtain b where b: "bufs s (proc_pibr s) = Some b" "proc_pibr s \<noteq> 0"
    "pibr_is (pibr b) (procid s) (int (length (prefix s @ t))) (proc_pibr s) 0"
    using h by (rule holdsE)
  have np: "procid s \<noteq> pid" using ni by (simp add: new_identity_def)
  obtain s2 where s2: "swap_and_flush_buffer os (proc_pibr s) pid s = Some (Inr ((), s2))"
    "batching s2 []" "prefix s2 = prefix_text pid n" "procid s2 = pid" "logs s2 = logs s1"
    "bufs s2 (proc_pibr s) = Some b"
    using swap_and_flush_fork [OF b(1,3,2) ni] by metis
  have retry: "do_blog os r s = blog_loop os pid (pack_word 0 0 (int (length r)) 1) r s2"
    unfolding do_blog_loop pid [symmetric]
    using np s2(1) by (subst blog_loop_retry [OF b]) (simp_all add: bnd_def)
  have ft: "fits s2 [] r" using r(2) s2(3) by (simp add: fits_def)
  obtain c where c: "blog_loop os pid (pack_word 0 0 (int (length r)) 1) r s2 =
      Some (Inr (int (length r), s2\<lparr>bufs := (bufs s2)(proc_pibr s2 \<mapsto> c)\<rparr>))"
    "batching (s2\<lparr>bufs := (bufs s2)(proc_pibr s2 \<mapsto> c)\<rparr>) ([] @ r)"
    using blog_loop_fits [OF s2(2) ft _ r(1)] s2(4) by metis
  have "proc_pibr s2 \<noteq> proc_pibr s"
  proof
    assume eq: "proc_pibr s2 = proc_pibr s"
    then have "pibr_is (pibr b) pid (int (length (prefix s2))) (proc_pibr s) 0"
      using s2(2,4,6) by (auto simp: batching_def holds_def)
    then show False using pibr_is_fields(1) [OF b(3)] pibr_is_fields(1) np by metis
  qed
  then have "holds (s\<lparr>bufs := (bufs s2)(proc_pibr s2 \<mapsto> c)\<rparr>) (proc_pibr s) (prefix s @ t)"
    using h s2(6) b(1) holds_frame [of "s\<lparr>bufs := (bufs s2)(proc_pibr s2 \<mapsto> c)\<rparr>" "proc_pibr s" s] by simp
  then show thesis
    using retry c s2 that [of "s2\<lparr>bufs := (bufs s2)(proc_pibr s2 \<mapsto> c)\<rparr>"] by simp
qed

section \<open>Exit\<close>

text \<open>
  At process exit the packed word is cleared before \<open>flush_buffer\<close> reads it, so
  \<open>flush_buffer\<close> takes the buffer for another process's and returns.
\<close>

lemma bblog_exit_process:
  assumes bt: "batching s t" and fi: "flusher_info (flusher_v s) = 0"
  obtains b where "bblog_exit os 1 s = Some (Inr ((), s\<lparr>bufs := (bufs s)(proc_pibr s \<mapsto> b)\<rparr>))"
    and "pibr b = 0"
proof -
  obtain b where b: "bufs s (proc_pibr s) = Some b" "proc_pibr s \<noteq> 0"
    "pibr_is (pibr b) (procid s) (int (length (prefix s @ t))) (proc_pibr s) 0"
    using bt by (auto simp: batching_def elim!: holdsE)
  have pid: "0 < procid s" using bt by (simp add: batching_def prefix_ok_def)
  let ?s = "s\<lparr>bufs := (bufs s)(proc_pibr s \<mapsto> b\<lparr>pibr := 0\<rparr>)\<rparr>"
  have "flush_buffer os (proc_pibr s) ?s = Some (Inr ((), ?s))"
    using flush_buffer_stale [of ?s "proc_pibr s" "b\<lparr>pibr := 0\<rparr>" os] b(2) pid by (simp add: PIBR_PID_def)
  then have "bblog_exit os 1 s = Some (Inr ((), ?s))"
    using b fi pibr_is_fields(3) [OF b(3)]
    by (auto simp: bblog_exit_def stop_flusher_thread_def fetch_clear_def bnd_def andthen_def gets_def ret_def
        load_buf_run store_buf_run)
  then show thesis using that by simp
qed

text \<open>A delivered terminal signal writes the pending text and leaves the logger running.\<close>

lemma bblog_exit_signal:
  assumes "libc_ok os live" "roomy os live k" "ready os live k s t" "t \<noteq> []" "main < 0"
  obtains s' where "bblog_exit os main s = Some (Inr ((), s'))"
    and "logs s' = logs s @ [batch_ev (prefix s) t]" and "ready os live k s' []"
proof -
  have "sys_getpid os (world s) = procid s" using assms(3) by (simp add: ready_def)
  then have "bblog_exit os main s = swap_and_flush_buffer os (proc_pibr s) (procid s) s"
    using assms(5) by (simp add: bblog_exit_def bnd_def gets_def asks_def)
  then show thesis using swap_and_flush_ready [OF assms(1-4)] that by metis
qed

section \<open>The flusher at work\<close>

text \<open>Common to every turn of a flusher that goes on: it slept, found its name and no interrupt.\<close>

definition flusher_on :: "'w os \<Rightarrow> addr \<Rightarrow> 'w proc \<Rightarrow> bool" where
  "flusher_on os info s \<longleftrightarrow> info \<noteq> 0 \<and>
     (case tinfos (flusher_v s) info of None \<Rightarrow> False | Some ti \<Rightarrow> interrupt ti = 0) \<and>
     (\<exists>n. name_cached os s n \<and> n \<noteq> ''srg.cs.illinois.edu.storagestudy'')"

definition woken :: "'w os \<Rightarrow> 'w proc \<Rightarrow> 'w" where
  "woken os s = snd (sys_clock os (sys_sleep os FLUSH_TIMEOUT (world s)))"

definition idle_secs :: "'w os \<Rightarrow> 'w proc \<Rightarrow> int" where
  "idle_secs os s = u64 (fst (sys_clock os (sys_sleep os FLUSH_TIMEOUT (world s))) - last_flush_secs s)"

lemma name_cached_sleep:
  "libc_ok os live \<Longrightarrow> name_cached os (s\<lparr>world := sys_sleep os n (world s)\<rparr>) m = name_cached os s m"
  by (simp add: name_cached_def libc_waits)

lemma flusher_step_on:
  assumes lc: "libc_ok os live" and fo: "flusher_on os info s"
  shows "flusher_step os info s = (if idle_secs os s \<le> int FLUSH_TIMEOUT
     then Some (Inr (True, s\<lparr>world := woken os s\<rparr>))
     else bnd (gets proc_pibr) (\<lambda>p.
     if p = 0 then ret True else
     bnd (load_buf p) (\<lambda>b.
     if pibr b = 0 \<or> PIBR_PTR (pibr b) = 0 then ret True else
     bnd (asks (sys_getpid os)) (\<lambda>new_pid.
     if PIBR_PID (pibr b) \<noteq> new_pid then ret True else
     if PIBR_IDX (pibr b) < FLUSH_BUF_SIZE then ret True else
     bnd (gets proc_pibr) (\<lambda>p.
     andthen (swap_and_flush_buffer os p new_pid) (ret True))))) (s\<lparr>world := woken os s\<rparr>))"
proof -
  obtain n ti where n: "name_cached os s n" "n \<noteq> ''srg.cs.illinois.edu.storagestudy''"
    and ti: "tinfos (flusher_v s) info = Some ti" "interrupt ti = 0" "info \<noteq> 0"
    using fo by (auto simp: flusher_on_def split: option.splits)
  have "process_name_str os (s\<lparr>world := sys_sleep os FLUSH_TIMEOUT (world s)\<rparr>) =
      Some (Inr (n, s\<lparr>world := sys_sleep os FLUSH_TIMEOUT (world s)\<rparr>))"
    using n(1) name_cached_sleep [OF lc] by (intro process_name_str_hit) simp
  then show ?thesis
    using n(2) ti
    by (simp add: flusher_step_def bnd_def andthen_def sysc_def gets_def ret_def strcmp0_def load_ti_def
        idle_secs_def woken_def split: prod.splits)
qed

lemma ready_waits:
  assumes "libc_ok os live"
  shows "ready os live k (s\<lparr>world := woken os s\<rparr>) t = ready os live k s t"
  using libc_waits [OF assms] batching_frame [of "s\<lparr>world := woken os s\<rparr>" s]
  by (simp add: ready_def woken_def)

lemma flusher_step_flush:
  assumes lc: "libc_ok os live" "roomy os live k" and rd: "ready os live k s t"
    and fo: "flusher_on os info s" and idle: "int FLUSH_TIMEOUT < idle_secs os s"
    and big: "FLUSH_BUF_SIZE \<le> int (length (prefix s @ t))"
  obtains s' where "flusher_step os info s = Some (Inr (True, s'))"
    and "logs s' = logs s @ [batch_ev (prefix s) t]" and "ready os live k s' []"
proof -
  let ?s = "s\<lparr>world := woken os s\<rparr>"
  have rd': "ready os live k ?s t" using rd ready_waits [OF lc(1)] by blast
  have bt: "batching s t" using rd by (simp add: ready_def)
  obtain b where b: "bufs s (proc_pibr s) = Some b" "proc_pibr s \<noteq> 0"
    "pibr_is (pibr b) (procid s) (int (length (prefix s @ t))) (proc_pibr s) 0"
    using bt by (auto simp: batching_def elim!: holdsE)
  note f = pibr_is_fields [OF b(3)]
  have t: "t \<noteq> []"
    using big bt by (auto simp: batching_def prefix_ok_def FLUSH_BUF_SIZE_def size_defs)
  have pid: "sys_getpid os (world ?s) = procid s" using rd' by (simp add: ready_def)
  have nz: "pibr b \<noteq> 0" using f(3) b(2) by (auto simp: PIBR_PTR_def)
  obtain s' where s': "swap_and_flush_buffer os (proc_pibr ?s) (procid ?s) ?s = Some (Inr ((), s'))"
    "logs s' = logs ?s @ [batch_ev (prefix ?s) t]" "ready os live k s' []"
    using swap_and_flush_ready [OF lc rd' t] by metis
  have "flusher_step os info s = Some (Inr (True, s'))"
    unfolding flusher_step_on [OF lc(1) fo]
    using idle b f nz pid big s'(1)
    by (simp add: bnd_def andthen_def gets_def ret_def asks_def load_buf_run)
  then show thesis using s' that by simp
qed

lemma flusher_step_small:
  assumes lc: "libc_ok os live" and rd: "ready os live k s t" and fo: "flusher_on os info s"
    and small: "idle_secs os s \<le> int FLUSH_TIMEOUT \<or> int (length (prefix s @ t)) < FLUSH_BUF_SIZE"
  shows "flusher_step os info s = Some (Inr (True, s\<lparr>world := woken os s\<rparr>))"
proof -
  have rd': "ready os live k (s\<lparr>world := woken os s\<rparr>) t" using rd ready_waits [OF lc] by blast
  have bt: "batching s t" using rd by (simp add: ready_def)
  obtain b where b: "bufs s (proc_pibr s) = Some b" "proc_pibr s \<noteq> 0"
    "pibr_is (pibr b) (procid s) (int (length (prefix s @ t))) (proc_pibr s) 0"
    using bt by (auto simp: batching_def elim!: holdsE)
  note f = pibr_is_fields [OF b(3)]
  have pid: "sys_getpid os (woken os s) = procid s" using rd' by (simp add: ready_def)
  show ?thesis
    unfolding flusher_step_on [OF lc fo]
    using b f pid small
    by (auto simp: bnd_def andthen_def gets_def ret_def asks_def load_buf_run)
qed

section \<open>Stopping the flusher\<close>

text \<open>
  The thread frees its \<open>thread_info\<close> when it ends, and \<open>stop_flusher_thread\<close> frees
  it again after joining it.
\<close>

lemma free_ti_gone: "free_ti os p s = Some (Inr (x, s')) \<Longrightarrow> tinfos (flusher_v s') p = None"
  by (auto simp: free_ti_def upd_flusher_def exec_defs sysc_def split: if_splits)

lemma flusher_loop_frees:
  fixes s :: "'w proc"
  assumes "flusher_loop os info s = Some (Inr (x, s'))"
  shows "tinfos (flusher_v s') info = None"
proof -
  let ?P = "\<lambda>os info s (y :: fault + unit \<times> 'w proc). \<forall>x s'. y = Inr (x, s') \<longrightarrow> tinfos (flusher_v s') info = None"
  have "?P os info s (Inr (x, s'))"
  proof (rule flusher_loop.raw_induct [where P = ?P, OF _ assms])
    fix fl os info s and y :: "fault + unit \<times> 'w proc"
    assume IH: "\<And>os info s y. fl os info s = Some y \<Longrightarrow> ?P os info s y"
      and body: "bnd (flusher_step os info) (\<lambda>on.
        if on then fl os info else andthen (err os ''flusher thread exiting'') (free_ti os info)) s = Some y"
    show "?P os info s y"
    proof (intro allI impI)
      fix x s' assume y: "y = Inr (x, s')"
      with body obtain on s1 where
        "(if on then fl os info else andthen (err os ''flusher thread exiting'') (free_ti os info)) s1 = Some (Inr (x, s'))"
        by (auto elim: bndE)
      then show "tinfos (flusher_v s') info = None"
        using IH by (auto simp: andthen_def split: if_splits elim!: bndE dest: free_ti_gone)
    qed
  qed
  then show ?thesis by blast
qed

lemma stop_flusher_twice:
  assumes "flusher_info (flusher_v s) \<noteq> 0"
  shows "stop_flusher_thread os s \<noteq> Some (Inr (x, s'))"
proof
  assume run: "stop_flusher_thread os s = Some (Inr (x, s'))"
  let ?fi = "flusher_info (flusher_v s)"
  let ?rest = "bnd (err os ''flusher thread exited'') (\<lambda>_. free_ti os ?fi)"
  have "bnd (load_ti ?fi) (\<lambda>ti. bnd (store_ti ?fi (ti\<lparr>interrupt := interrupt ti OR 1\<rparr>)) (\<lambda>_.
      bnd (join_flusher os ?fi (tid ti)) (\<lambda>_. ?rest))) s = Some (Inr (x, s'))"
    using run assms by (simp add: stop_flusher_thread_def andthen_def bnd_gets)
  then obtain ti s0 where "bnd (store_ti ?fi (ti\<lparr>interrupt := interrupt ti OR 1\<rparr>)) (\<lambda>_.
      bnd (join_flusher os ?fi (tid ti)) (\<lambda>_. ?rest)) s0 = Some (Inr (x, s'))"
    by (rule bndE)
  then obtain u s1 where "bnd (join_flusher os ?fi (tid ti)) (\<lambda>_. ?rest) s1 = Some (Inr (x, s'))"
    by (rule bndE)
  then obtain y s2 where j: "join_flusher os ?fi (tid ti) s1 = Some (Inr (y, s2))"
    and rest: "?rest s2 = Some (Inr (x, s'))"
    by (rule bndE)
  have "tinfos (flusher_v s2) ?fi = None"
    using j flusher_loop_frees
    by (auto simp: join_flusher_def andthen_def sysc_def elim!: bndE)
  moreover obtain z s3 where e: "err os ''flusher thread exited'' s2 = Some (Inr (z, s3))"
    and fr: "free_ti os ?fi s3 = Some (Inr (x, s'))"
    using rest by (rule bndE)
  moreover have "flusher_v s3 = flusher_v s2"
    using keepsD [OF keeps_err e, of flusher_v] by (simp add: indep_defs)
  ultimately have "tinfos (flusher_v s3) ?fi = None" by simp
  then show False
    using fr by (simp add: free_ti_def bnd_def gets_def crash_def)
qed

lemma bblog_exit_with_flusher:
  assumes "flusher_info (flusher_v s) \<noteq> 0"
  shows "bblog_exit os 1 s \<noteq> Some (Inr (x, s'))"
  using stop_flusher_twice [OF assms] by (auto simp: bblog_exit_def andthen_def elim!: bndE)

end
