(* ===== verification/Notify.thy ===== *)
theory Notify
  imports Lifecycle
begin

unbundle bit_operations_syntax

text \<open>
  The records the tracer writes (\<open>notify.c\<close>): one function per kind of event, each
  of which asks for the time and hands a JSON text to \<open>bblog\<close> (the macro \<open>BLOG\<close>
  of the batching build).  The texts are functions of their own.
\<close>

section \<open>Texts\<close>

text \<open>The macro \<open>mode\<close>.\<close>

definition mode_str :: "int \<Rightarrow> string" where
  "mode_str flags =
     (if flags AND S_IFMT = S_IFREG OR S_IFDIR then ''FILE_OR_DIR''
      else if flags AND S_IFMT = S_IFREG then ''FILE''
      else if flags AND S_IFMT = S_IFDIR then ''DIR'' else ''UNKNOWN'')"

text \<open>\<open>%li.%06li\<close> of a \<open>struct timeval\<close>.\<close>

definition ts_str :: "int \<times> int \<Rightarrow> string" where
  "ts_str t = dec_int (fst t) @ ''.'' @ dec_06 (snd t)"

definition head_text :: "int \<Rightarrow> string \<Rightarrow> string" where
  \<open>head_text me op = ''{"TID":'' @ dec_int me @ '',"OP":"'' @ op @ ''"''\<close>

text \<open>
  The size that \<open>notify_munmap\<close> passes has 32 bits, and \<open>%llu\<close> takes 64 from the stack: its upper half
  is the next word of the caller's frame, \<open>spill\<close>, which is no argument of the call.
\<close>

definition munmap_text :: "addr \<Rightarrow> int \<Rightarrow> string \<Rightarrow> int \<times> int \<Rightarrow> addr \<Rightarrow> addr \<Rightarrow> string" where
  \<open>munmap_text spill me op t addr sz =
     head_text me op @ '',"TS":'' @ ts_str t @ '',"ADDR":'' @ dec_nat (unat addr) @
     '',"SIZE":'' @ dec_nat (unat spill * 2 ^ 32 + unat sz) @ ''}''\<close>

definition mmap_text ::
  "int \<Rightarrow> string \<Rightarrow> string \<Rightarrow> int \<times> int \<Rightarrow> addr \<Rightarrow> string \<Rightarrow> int \<Rightarrow> int \<Rightarrow> string" where
  \<open>mmap_text me op pth t addr prot sz off =
     head_text me op @ '',"PATH":"'' @ pth @ ''","TS":'' @ ts_str t @
     '',"ADDR":'' @ dec_nat (unat addr) @ '',"SIZE":'' @ dec_int sz @ '',"OFF":'' @ dec_int off @
     '',"PROT":"'' @ prot @ ''"}''\<close>

definition rw_text ::
  "int \<Rightarrow> string \<Rightarrow> string \<Rightarrow> int \<times> int \<Rightarrow> int \<Rightarrow> int \<Rightarrow> string \<Rightarrow> string" where
  \<open>rw_text me op pth t sz off str =
     head_text me op @ '',"PATH":"'' @ pth @ ''","TS":'' @ ts_str t @
     '',"SIZE":'' @ dec_int sz @ '',"OFF":'' @ dec_int off @ '',"RW":"'' @ str @ ''"}''\<close>

definition unlink_text :: "int \<Rightarrow> string \<Rightarrow> int \<Rightarrow> string \<Rightarrow> int \<times> int \<Rightarrow> string" where
  \<open>unlink_text me op flags pth t =
     head_text me op @ '',"MODE":"'' @ mode_str flags @ ''","PATH":"'' @ pth @ ''","TS":'' @ ts_str t @ ''}''\<close>

definition rename_text :: "int \<Rightarrow> string \<Rightarrow> int \<Rightarrow> string \<Rightarrow> string \<Rightarrow> int \<times> int \<Rightarrow> string" where
  \<open>rename_text me op flags old new t =
     head_text me op @ '',"MODE":"'' @ mode_str flags @ ''","OLD":"'' @ old @ ''","NEW":"'' @ new @
     ''","TS":'' @ ts_str t @ ''}''\<close>

definition create_text :: "int \<Rightarrow> string \<Rightarrow> string \<Rightarrow> int \<times> int \<Rightarrow> string" where
  \<open>create_text me op pth t =
     head_text me op @ '',"PATH":"'' @ pth @ ''","TS":'' @ ts_str t @ ''}''\<close>

section \<open>The functions\<close>

text \<open>\<open>gettimeofday\<close>, \<open>gettid\<close>, and \<open>BLOG\<close> of the text made from them.\<close>

definition stamped :: "'w os \<Rightarrow> (int \<Rightarrow> int \<times> int \<Rightarrow> string) \<Rightarrow> ('w proc, unit) exec" where
  "stamped os mk =
     bnd (sysc (sys_gettimeofday os)) (\<lambda>t.
     bnd (asks (sys_gettid os)) (\<lambda>me.
     andthen (bblog os (mk me t)) (ret ())))"

definition notify_munmap :: "'w os \<Rightarrow> addr \<Rightarrow> string \<Rightarrow> addr \<Rightarrow> addr \<Rightarrow> ('w proc, int) exec" where
  "notify_munmap os spill op addr sz =
     andthen (stamped os (\<lambda>me t. munmap_text spill me op t addr sz)) (ret 0)"

definition notify_mmap ::
  "'w os \<Rightarrow> string \<Rightarrow> string \<Rightarrow> addr \<Rightarrow> string \<Rightarrow> int \<Rightarrow> int \<Rightarrow> ('w proc, int) exec" where
  "notify_mmap os op pth addr prot sz off =
     andthen (stamped os (\<lambda>me t. mmap_text me op pth t addr prot sz off)) (ret 0)"

text \<open>
  \<open>notify_read_write\<close> cuts the last character off the access string in place (the
  trailing semicolon) and prints it; the cut string is returned here.  On an empty
  string the cut writes before the array.
\<close>

definition notify_read_write ::
  "'w os \<Rightarrow> string \<Rightarrow> string \<Rightarrow> int \<Rightarrow> int \<Rightarrow> int \<Rightarrow> string \<Rightarrow> ('w proc, string) exec" where
  "notify_read_write os op pth fd sz off str =
     bnd (sysc (sys_gettimeofday os)) (\<lambda>t.
     if str = [] then crash OutOfBounds else
     bnd (asks (sys_gettid os)) (\<lambda>me.
     andthen (bblog os (rw_text me op pth t sz off (butlast str))) (ret (butlast str))))"

definition notify_unlink :: "'w os \<Rightarrow> string \<Rightarrow> int \<Rightarrow> string \<Rightarrow> ('w proc, int) exec" where
  "notify_unlink os op flags pth =
     andthen (stamped os (\<lambda>me t. unlink_text me op flags pth t)) (ret 0)"

definition notify_rename :: "'w os \<Rightarrow> string \<Rightarrow> int \<Rightarrow> string \<Rightarrow> string \<Rightarrow> ('w proc, int) exec" where
  "notify_rename os op flags old new =
     andthen (stamped os (\<lambda>me t. rename_text me op flags old new t)) (ret 0)"

definition notify_close :: "string \<Rightarrow> ('w proc, int) exec" where
  "notify_close pth = ret 0"

definition notify_create :: "'w os \<Rightarrow> string \<Rightarrow> string \<Rightarrow> ('w proc, int) exec" where
  "notify_create os op pth =
     andthen (stamped os (\<lambda>me t. create_text me op pth t)) (ret 0)"

definition notify_thread_init :: "'w os \<Rightarrow> int \<Rightarrow> ('w proc, unit) exec" where
  "notify_thread_init os main = bblog_init os main"

definition notify_thread_exit :: "'w os \<Rightarrow> int \<Rightarrow> ('w proc, unit) exec" where
  "notify_thread_exit os main = bblog_exit os main"

section \<open>What they leave alone\<close>

text \<open>Observations that do not look at the logger or the record counter.\<close>

definition indep_rec :: "('w proc \<Rightarrow> 'v) \<Rightarrow> bool" where
  "indep_rec f \<longleftrightarrow> indep_log f \<and> (\<forall>s v. f (s\<lparr>cntr_v := v\<rparr>) = f s)"

lemmas indep_rec_simps = indep_rec_def indep_log_def indep_defs

lemma indep_recD:
  assumes "indep_rec f"
  shows "indep_log f" "indep_name f" "f (s\<lparr>cntr_v := v\<rparr>) = f s" "f (s\<lparr>world := w\<rparr>) = f s"
    "f (s\<lparr>logs := l\<rparr>) = f s"
  using assms by (simp_all add: indep_rec_def indep_logD indep_nameD)

lemma keeps_stamped [keep_rules]: "indep_rec f \<Longrightarrow> keeps f (stamped os mk)"
  unfolding stamped_def by (intro keep_rules) (simp_all add: indep_recD)

lemma keeps_notify [keep_rules]:
  assumes "indep_rec f"
  shows "keeps f (notify_munmap os spill op addr sz')"
    and "keeps f (notify_mmap os op pth addr prot sz off)"
    and "keeps f (notify_unlink os op flags pth)"
    and "keeps f (notify_rename os op flags old new)"
    and "keeps f (notify_create os op pth)"
  unfolding notify_munmap_def notify_mmap_def notify_unlink_def notify_rename_def notify_create_def
  by (intro keep_rules assms)+

lemma keeps_notify_read_write [keep_rules]:
  "indep_rec f \<Longrightarrow> keeps f (notify_read_write os op pth fd sz off str)"
  unfolding notify_read_write_def by (intro keep_rules) (simp_all add: indep_recD)

text \<open>The record of an unmapping has the size that was unmapped only if that word happens to be zero.\<close>

lemma munmap_size:
  "munmap_text spill me op t addr sz = munmap_text 0 me op t addr sz \<longleftrightarrow> spill = 0"
proof -
  have "dec_nat m = dec_nat n \<longleftrightarrow> m = n" for m n using dec_nat_inj by blast
  then show ?thesis by (simp add: munmap_text_def unat_eq_0)
qed

lemma notify_read_write_str:
  "notify_read_write os op pth fd sz off str s = Some (Inr (t, s')) \<Longrightarrow> str \<noteq> [] \<and> t = butlast str"
  by (auto simp: notify_read_write_def andthen_def ret_def crash_def split: if_splits elim!: bndE)

end
