(* ===== verification/Batch.thy ===== *)
theory Batch
  imports Notify
begin

unbundle bit_operations_syntax

text \<open>
  Per-file batching of reads and writes (\<open>batch.c\<close>).  Consecutive accesses to one
  file whose block ranges overlap or touch are merged into one record that gives the
  first block, the number of blocks and the string of the single accesses
  (\<open>size@offset;\<close>).  The pointer arguments of the C functions are the addresses of one
  channel's variables; here they are the channel's name.
\<close>

section \<open>The functions\<close>

definition BLKSIZE_SHIFT :: nat where
  "BLKSIZE_SHIFT = 12"

definition BLKSIZE :: int where
  "BLKSIZE = push_bit BLKSIZE_SHIFT 1"

text \<open>\<open>"%llu@%llu;"\<close>\<close>

definition io_entry :: "int \<Rightarrow> int \<Rightarrow> string" where
  "io_entry sz off = dec_nat (nat sz) @ ''@'' @ dec_nat (nat off) @ '';''"

definition batch_read_write_notify ::
  "'w os \<Rightarrow> chanid \<Rightarrow> string \<Rightarrow> int \<Rightarrow> int \<Rightarrow> int \<Rightarrow> int \<Rightarrow> int \<Rightarrow> ('w proc, unit) exec" where
  "batch_read_write_notify os c op fd curr_start curr_end sz off =
     bnd (gets (\<lambda>s. chans s c)) (\<lambda>ch.
     andthen
       (if last_fd ch \<noteq> - 1 \<and> last_size ch \<noteq> 0
        then bnd (notify_read_write os op (path ch) (last_fd ch) (last_size ch) (last_off ch) (iostr ch))
               (\<lambda>str. upd_chan c (\<lambda>ch. ch\<lparr>iostr := str\<rparr>))
        else ret ())
       (upd_chan c (\<lambda>ch. ch\<lparr>last_fd := fd, last_off := curr_start,
          last_size := u32 (curr_end - curr_start + 1),
          iostr := snprintf IOSTR_BUFSIZE (io_entry sz off)\<rparr>)))"

definition record_iostr ::
  "'w os \<Rightarrow> chanid \<Rightarrow> string \<Rightarrow> int \<Rightarrow> int \<Rightarrow> int \<Rightarrow> int \<Rightarrow> int \<Rightarrow> ('w proc, unit) exec" where
  "record_iostr os c op fd curr_start curr_end sz off =
     bnd (gets (\<lambda>s. iostr (chans s c))) (\<lambda>acc.
     let idx = length acc in
     if IOSTR_BUFSIZE \<le> idx + 64
     then batch_read_write_notify os c op fd curr_start curr_end sz off
     else upd_chan c (\<lambda>ch. ch\<lparr>iostr := acc @ snprintf (IOSTR_BUFSIZE - idx) (io_entry sz off)\<rparr>))"

text \<open>Starting and ending block numbers.\<close>

definition blk_start :: "int \<Rightarrow> int" where
  "blk_start off = drop_bit BLKSIZE_SHIFT off"

definition blk_end :: "int \<Rightarrow> int \<Rightarrow> int" where
  "blk_end off sz = drop_bit BLKSIZE_SHIFT (s64 (off + sz - 1 + BLKSIZE - 1))"

definition batch_read_write_second ::
  "'w os \<Rightarrow> chanid \<Rightarrow> string \<Rightarrow> int \<Rightarrow> int \<Rightarrow> int \<Rightarrow> ('w proc, unit) exec" where
  "batch_read_write_second os c op fd sz off =
     (if fd < 0 \<or> sz = 0 \<or> off < 0
      then aloge os TAG_DBG ''batch_read_write_second: invalid args''
      else batch_read_write_notify os c op fd (blk_start off) (blk_end off sz) sz off)"

definition batch_read_write_first ::
  "'w os \<Rightarrow> chanid \<Rightarrow> string \<Rightarrow> int \<Rightarrow> int \<Rightarrow> int \<Rightarrow> ('w proc, int) exec" where
  "batch_read_write_first os c op fd sz off =
     (if fd < 0 \<or> sz = 0 \<or> off < 0
      then andthen (aloge os TAG_DBG ''batch_read_write_first: invalid args'') (ret (- 1))
      else
     bnd (gets (\<lambda>s. chans s c)) (\<lambda>ch.
     let last_start = last_off ch;
         last_end = s64 (last_off ch + last_size ch - 1);
         curr_start = blk_start off;
         curr_end = blk_end off sz;
         next = s64 (last_end + 1);
         prev = s64 (last_start - 1);
         curr_size = s64 (curr_end - curr_start + 1)
     in
     if next < curr_start \<or> curr_end < prev
     then andthen (batch_read_write_notify os c op fd curr_start curr_end sz off) (ret 0)
     else
     andthen (record_iostr os c op fd curr_start curr_end sz off) (
     if last_start \<le> curr_start \<and> curr_end \<le> last_end then ret 0
     else if last_start \<le> curr_start \<and> curr_start \<le> next \<and> next \<le> curr_end
     then andthen (upd_chan c (\<lambda>ch. ch\<lparr>last_size := u32 (last_size ch + (curr_end - last_end))\<rparr>)) (ret 0)
     else if curr_start \<le> last_start \<and> last_end \<le> curr_end
     then andthen (upd_chan c (\<lambda>ch. ch\<lparr>last_off := curr_start, last_size := u32 curr_size\<rparr>)) (ret 0)
     else if curr_start < last_start \<and> prev \<le> curr_end \<and> curr_end \<le> last_end
     then andthen (upd_chan c (\<lambda>ch. ch\<lparr>last_off := curr_start,
            last_size := u32 (last_size ch + (last_start - curr_start))\<rparr>)) (ret 0)
     else ret (- 1))))"

section \<open>Blocks\<close>

lemma BLKSIZE_num: "BLKSIZE = 4096"
  by (simp add: BLKSIZE_def BLKSIZE_SHIFT_def)

lemma blk_start_num: "blk_start off = off div 4096"
  by (simp add: blk_start_def BLKSIZE_SHIFT_def drop_bit_eq_div)

text \<open>An access as the callers pass it: a byte count of at most 2 GB at a file offset.\<close>

definition access_ok :: "int \<Rightarrow> int \<Rightarrow> int \<Rightarrow> bool" where
  "access_ok fd sz off \<longleftrightarrow> 0 \<le> fd \<and> 0 < sz \<and> sz < 2 ^ 31 \<and> 0 \<le> off \<and> off < 2 ^ 62"

lemma blk_end_num: "access_ok fd sz off \<Longrightarrow> blk_end off sz = (off + sz + 4094) div 4096"
  by (simp add: blk_end_def access_ok_def BLKSIZE_SHIFT_def BLKSIZE_num drop_bit_eq_div)

lemma blk_order:
  assumes "access_ok fd sz off"
  shows "0 \<le> blk_start off" "blk_start off \<le> blk_end off sz" "blk_end off sz < 2 ^ 51"
  using assms unfolding blk_end_num [OF assms] blk_start_num
  by (auto simp: access_ok_def intro: zdiv_mono1)

text \<open>The range covers every byte of the access.\<close>

lemma blk_cover:
  assumes "access_ok fd sz off" and "off \<le> x" and "x < off + sz"
  shows "blk_start off \<le> x div 4096 \<and> x div 4096 \<le> blk_end off sz"
  using assms unfolding blk_end_num [OF assms(1)] blk_start_num
  by (auto intro!: zdiv_mono1)

text \<open>
  Its last block is touched only when the last byte is the first of a block; in every
  other case the range has one block more than the access.
\<close>

lemma blk_end_tight:
  assumes "access_ok fd sz off"
  shows "blk_end off sz = (off + sz - 1) div 4096 + (if 4096 dvd off + sz - 1 then 0 else 1)"
proof -
  have "(z + 4095) div 4096 = z div 4096 + (if 4096 dvd z then 0 else 1)" for z :: int
  proof -
    define k r where "k = z div 4096" and "r = z mod 4096"
    have z: "z = r + 4096 * k" and r: "0 \<le> r" "r < 4096" by (simp_all add: k_def r_def)
    have "(z + 4095) div 4096 = ((r + 4095) + 4096 * k) div 4096" unfolding z by (simp add: ac_simps)
    also have "\<dots> = k + (r + 4095) div 4096" by (rule div_mult_self2) simp
    also have "(r + 4095) div 4096 = (if r = 0 then 0 else 1)"
      using r int_div_pos_eq [of "r + 4095" 4096 1 "r - 1"] by auto
    finally show ?thesis by (simp add: k_def r_def dvd_eq_mod_eq_0)
  qed
  from this [of "off + sz - 1"] show ?thesis
    unfolding blk_end_num [OF assms] by (simp add: algebra_simps)
qed

section \<open>Access strings\<close>

lemma length_io_entry:
  assumes "access_ok fd sz off" shows "length (io_entry sz off) \<le> 31"
proof -
  have "length (dec_nat (nat sz)) \<le> 10" and "length (dec_nat (nat off)) \<le> 19"
    using assms by (intro length_dec_nat; simp add: access_ok_def nat_less_iff)+
  then show ?thesis by (simp add: io_entry_def)
qed

text \<open>Reading an access string back.\<close>

fun split_at :: "char \<Rightarrow> string \<Rightarrow> string \<times> string" where
  "split_at c [] = ([], [])"
| "split_at c (x # xs) = (if x = c then ([], xs) else (let (a, b) = split_at c xs in (x # a, b)))"

lemma split_at_append: "c \<notin> set a \<Longrightarrow> split_at c (a @ c # b) = (a, b)"
  by (induction a) auto

function (sequential) parse_iostr :: "string \<Rightarrow> (int \<times> int) list" where
  "parse_iostr [] = []"
| "parse_iostr (x # xs) =
     (let (a, r) = split_at CHR ''@'' (x # xs); (b, r') = split_at CHR '';'' r
      in (int (undec a), int (undec b)) # (if length r' < length (x # xs) then parse_iostr r' else []))"
  by pat_completeness auto
termination by (relation "measure length") auto

lemma dec_nat_not_sep: "c \<in> {CHR ''@'', CHR '';''} \<Longrightarrow> c \<notin> set (dec_nat n)"
  using dec_nat_digits [of c n] by (auto simp: is_digit_def)

lemma parse_io_entry:
  assumes "0 \<le> sz" "0 \<le> off"
  shows "parse_iostr (io_entry sz off @ rest) = (sz, off) # parse_iostr rest"
proof -
  have a: "split_at CHR ''@'' (io_entry sz off @ rest) = (dec_nat (nat sz), dec_nat (nat off) @ '';'' @ rest)"
    using split_at_append [of "CHR ''@''" "dec_nat (nat sz)"] dec_nat_not_sep by (simp add: io_entry_def)
  have b: "split_at CHR '';'' (dec_nat (nat off) @ '';'' @ rest) = (dec_nat (nat off), rest)"
    using split_at_append [of "CHR '';''" "dec_nat (nat off)"] dec_nat_not_sep by simp
  obtain x xs where x: "io_entry sz off @ rest = x # xs"
    by (cases "io_entry sz off @ rest") (auto simp: io_entry_def)
  have "length rest < length (x # xs)" unfolding x [symmetric] by (simp add: io_entry_def)
  then show ?thesis
    unfolding x parse_iostr.simps using a b assms unfolding x by simp
qed

definition io_string :: "(int \<times> int) list \<Rightarrow> string" where
  "io_string as = concat (map (\<lambda>(sz, off). io_entry sz off) as)"

lemma parse_io_string: "\<forall>(sz, off)\<in>set as. 0 \<le> sz \<and> 0 \<le> off \<Longrightarrow> parse_iostr (io_string as) = as"
  by (induction as) (auto simp: io_string_def parse_io_entry)

section \<open>Merging\<close>

text \<open>
  The contract: a batch is a range of blocks and the accesses in it.  \<open>touches\<close> says
  that an access overlaps the range or borders on it; \<open>merge\<close> adds it.
\<close>

type_synonym batch = "int \<times> int \<times> (int \<times> int) list"

definition touches :: "batch \<Rightarrow> int \<times> int \<Rightarrow> bool" where
  "touches b a = (case (b, a) of ((lo, hi, as), (sz, off)) \<Rightarrow>
     blk_start off \<le> hi + 1 \<and> lo - 1 \<le> blk_end off sz)"

definition merge :: "batch \<Rightarrow> int \<times> int \<Rightarrow> batch" where
  "merge b a = (case (b, a) of ((lo, hi, as), (sz, off)) \<Rightarrow>
     (min lo (blk_start off), max hi (blk_end off sz), as @ [(sz, off)]))"

definition single :: "int \<times> int \<Rightarrow> batch" where
  "single a = (case a of (sz, off) \<Rightarrow> (blk_start off, blk_end off sz, [(sz, off)]))"

text \<open>The block count of a batch must fit the 32-bit \<open>size_t\<close>, its accesses the string.\<close>

definition batch_ok :: "batch \<Rightarrow> bool" where
  "batch_ok b = (case b of (lo, hi, as) \<Rightarrow>
     0 \<le> lo \<and> lo \<le> hi \<and> hi < 2 ^ 51 \<and> hi - lo + 1 < 2 ^ 32 \<and> as \<noteq> [] \<and>
     length (io_string as) < IOSTR_BUFSIZE)"

definition with_batch :: "int \<Rightarrow> batch \<Rightarrow> chan \<Rightarrow> chan" where
  "with_batch fd b ch = (case b of (lo, hi, as) \<Rightarrow>
     ch\<lparr>last_fd := fd, last_off := lo, last_size := hi - lo + 1, iostr := io_string as\<rparr>)"

definition chan_is :: "chan \<Rightarrow> int \<Rightarrow> batch \<Rightarrow> bool" where
  "chan_is ch fd b \<longleftrightarrow> 0 \<le> fd \<and> batch_ok b \<and> ch = with_batch fd b ch"

definition set_chan :: "chanid \<Rightarrow> chan \<Rightarrow> 'w proc \<Rightarrow> 'w proc" where
  "set_chan c ch s = s\<lparr>chans := (chans s)(c := ch)\<rparr>"

lemma with_batch_same:
  "last_fd ch = fd \<Longrightarrow> with_batch fd (lo, hi, as) ch =
     ch\<lparr>iostr := io_string as, last_off := lo, last_size := hi - lo + 1\<rparr>"
  by (cases ch) (simp add: with_batch_def)

lemma chan_isD:
  assumes "chan_is ch fd (lo, hi, as)"
  shows "last_fd ch = fd" "last_off ch = lo" "last_size ch = hi - lo + 1" "iostr ch = io_string as"
    "0 \<le> lo" "lo \<le> hi" "hi < 2251799813685248" "hi - lo + 1 < 4294967296" "0 \<le> fd"
  using assms unfolding chan_is_def with_batch_def batch_ok_def
  by (auto simp: dest: arg_cong [of ch _ last_fd] arg_cong [of ch _ last_off] arg_cong [of ch _ last_size]
      arg_cong [of ch _ iostr])

lemma io_string_snoc: "io_string (as @ [(sz, off)]) = io_string as @ io_entry sz off"
  by (simp add: io_string_def)

lemma blk_nums:
  assumes "access_ok fd sz off"
  shows "0 \<le> blk_start off" "blk_start off \<le> blk_end off sz" "blk_end off sz < 2251799813685248"
  using blk_order [OF assms] by simp_all

text \<open>The string of one more access, cut by nothing.\<close>

lemma record_iostr_room:
  assumes "access_ok fd sz off" and "iostr (chans s c) = io_string as"
    and "length (io_string as) + 64 < IOSTR_BUFSIZE"
  shows "record_iostr os c op fd cs ce sz off s =
    Some (Inr ((), set_chan c ((chans s c)\<lparr>iostr := io_string (as @ [(sz, off)])\<rparr>) s))"
proof -
  have "snprintf (IOSTR_BUFSIZE - length (io_string as)) (io_entry sz off) = io_entry sz off"
    using length_io_entry [OF assms(1)] assms(3) by (simp add: snprintf_def)
  then show ?thesis
    using assms by (simp add: record_iostr_def bnd_gets Let_def upd_chan_def modify_def set_chan_def io_string_snoc)
qed

text \<open>What \<open>batch_read_write_first\<close> does with an access that touches the batch.\<close>

definition grow_batch :: "chanid \<Rightarrow> int \<Rightarrow> int \<Rightarrow> int \<Rightarrow> int \<Rightarrow> ('w proc, int) exec" where
  "grow_batch c lo hi cs ce =
     (if lo \<le> cs \<and> ce \<le> hi then ret 0
      else if lo \<le> cs \<and> cs \<le> hi + 1 \<and> hi + 1 \<le> ce
      then andthen (upd_chan c (\<lambda>ch. ch\<lparr>last_size := u32 (last_size ch + (ce - hi))\<rparr>)) (ret 0)
      else if cs \<le> lo \<and> hi \<le> ce
      then andthen (upd_chan c (\<lambda>ch. ch\<lparr>last_off := cs, last_size := u32 (ce - cs + 1)\<rparr>)) (ret 0)
      else if cs < lo \<and> lo - 1 \<le> ce \<and> ce \<le> hi
      then andthen (upd_chan c (\<lambda>ch. ch\<lparr>last_off := cs, last_size := u32 (last_size ch + (lo - cs))\<rparr>)) (ret 0)
      else ret (- 1))"

lemma batch_first_grows:
  assumes ci: "chan_is (chans s c) fd (lo, hi, as)" and ac: "access_ok fd sz off"
    and t: "touches (lo, hi, as) (sz, off)"
  shows "batch_read_write_first os c op fd sz off s =
    bnd (record_iostr os c op fd (blk_start off) (blk_end off sz) sz off)
      (\<lambda>_. grow_batch c lo hi (blk_start off) (blk_end off sz)) s"
proof -
  note d = chan_isD [OF ci] and n = blk_nums [OF ac]
  have args: "\<not> (fd < 0 \<or> sz = 0 \<or> off < 0)" using ac by (auto simp: access_ok_def)
  have far: "\<not> (hi + 1 < blk_start off \<or> blk_end off sz < lo - 1)"
    using t by (auto simp: touches_def)
  have le: "s64 (lo + (hi - lo + 1) - 1) = hi" "s64 (hi + 1) = hi + 1"
    "s64 (lo - 1) = lo - 1" "s64 (blk_end off sz - blk_start off + 1) = blk_end off sz - blk_start off + 1"
    using d n by simp_all
  show ?thesis
    unfolding batch_read_write_first_def if_not_P [OF args] bnd_gets Let_def d(2,3) le if_not_P [OF far]
      andthen_def grow_batch_def by (rule refl)
qed

text \<open>The four cases of the code together take the hull of the two ranges.\<close>

lemma grow_batch_hull:
  assumes "lo \<le> hi" "cs \<le> ce" "cs \<le> hi + 1" "lo - 1 \<le> ce" "max hi ce - min lo cs + 1 < 4294967296"
    and "last_off (chans s c) = lo" "last_size (chans s c) = hi - lo + 1"
  shows "grow_batch c lo hi cs ce s = Some (Inr (0, set_chan c
    ((chans s c)\<lparr>last_off := min lo cs, last_size := max hi ce - min lo cs + 1\<rparr>) s))"
proof -
  note defs = grow_batch_def ret_def andthen_def bnd_def set_chan_def upd_chan_def modify_def
  consider (within) "lo \<le> cs" "ce \<le> hi"
    | (up) "lo \<le> cs" "hi < ce"
    | (around) "cs < lo" "hi \<le> ce"
    | (down) "cs < lo" "ce < hi"
    by linarith
  then show ?thesis
  proof cases
    case within
    then have "min lo cs = lo" "max hi ce = hi" by auto
    moreover have "(chans s c)\<lparr>last_off := lo, last_size := hi - lo + 1\<rparr> = chans s c"
    proof -
      let ?ch = "chans s c"
      have "?ch\<lparr>last_off := last_off ?ch, last_size := last_size ?ch\<rparr> = ?ch" by simp
      then show ?thesis unfolding assms(6,7) .
    qed
    moreover have "grow_batch c lo hi cs ce s = Some (Inr (0, s))"
      using within by (simp add: grow_batch_def ret_def)
    ultimately show ?thesis by (simp only: set_chan_def fun_upd_triv) simp
  next
    case up
    then have "min lo cs = lo" "max hi ce = ce" by auto
    moreover have "(chans s c)\<lparr>last_off := lo\<rparr> = chans s c"
      unfolding assms(6) [symmetric] by simp
    moreover have "u32 (hi - lo + 1 + (ce - hi)) = ce - lo + 1" using up assms by simp
    moreover have "\<not> (lo \<le> cs \<and> ce \<le> hi)" "lo \<le> cs \<and> cs \<le> hi + 1 \<and> hi + 1 \<le> ce" using up assms by auto
    ultimately show ?thesis using assms(7) by (simp add: defs)
  next
    case around
    then have "min lo cs = cs" "max hi ce = ce" by auto
    moreover have "u32 (ce - cs + 1) = ce - cs + 1" using around assms by simp
    moreover have "\<not> lo \<le> cs" "cs \<le> lo \<and> hi \<le> ce" using around by auto
    ultimately show ?thesis by (simp add: defs)
  next
    case down
    then have "min lo cs = cs" "max hi ce = hi" by auto
    moreover have "u32 (hi - lo + 1 + (lo - cs)) = hi - cs + 1" using down assms by simp
    moreover have "\<not> lo \<le> cs" "\<not> hi \<le> ce" "cs < lo \<and> lo - 1 \<le> ce \<and> ce \<le> hi" using down assms by auto
    ultimately show ?thesis using assms(7) by (simp add: defs)
  qed
qed

lemma batch_first_touches:
  assumes ci: "chan_is (chans s c) fd b" and ac: "access_ok fd sz off" and t: "touches b (sz, off)"
    and ok: "batch_ok (merge b (sz, off))"
    and room: "length (iostr (chans s c)) + 64 < IOSTR_BUFSIZE"
  shows "batch_read_write_first os c op fd sz off s =
    Some (Inr (0, set_chan c (with_batch fd (merge b (sz, off)) (chans s c)) s))"
proof -
  obtain lo hi as where b: "b = (lo, hi, as)" by (cases b)
  note d = chan_isD [OF ci [unfolded b]] and n = blk_nums [OF ac]
  let ?cs = "blk_start off" and ?ce = "blk_end off sz"
  let ?s = "set_chan c ((chans s c)\<lparr>iostr := io_string (as @ [(sz, off)])\<rparr>) s"
  have near: "?cs \<le> hi + 1" "lo - 1 \<le> ?ce" using t by (simp_all add: b touches_def)
  have hull: "max hi ?ce - min lo ?cs + 1 < 4294967296"
    using ok by (simp add: b merge_def batch_ok_def)
  have ri: "record_iostr os c op fd ?cs ?ce sz off s = Some (Inr ((), ?s))"
    using room d(4) by (intro record_iostr_room [OF ac]) auto
  have "grow_batch c lo hi ?cs ?ce ?s =
      Some (Inr (0, set_chan c (with_batch fd (merge b (sz, off)) (chans s c)) s))"
    using grow_batch_hull [of lo hi ?cs ?ce ?s c] d n near hull
    by (simp add: set_chan_def with_batch_same b merge_def)
  then show ?thesis
    unfolding batch_first_grows [OF ci [unfolded b] ac t [unfolded b]] by (simp add: bnd_def ri)
qed

lemma chan_is_with_batch: "0 \<le> fd \<Longrightarrow> batch_ok b \<Longrightarrow> chan_is (with_batch fd b ch) fd b"
  by (cases b) (simp add: chan_is_def with_batch_def)

lemma with_batch_twice [simp]: "with_batch fd b (with_batch fd' b' ch) = with_batch fd b ch"
  by (cases b; cases b'; cases ch) (simp add: with_batch_def)

lemma chans_set_chan [simp]: "chans (set_chan c ch s) = (chans s)(c := ch)"
  by (simp add: set_chan_def)

lemma set_chan_twice [simp]: "set_chan c ch (set_chan c ch' s) = set_chan c ch s"
  by (simp add: set_chan_def)

text \<open>A run of accesses each of which touches the batch of those before it.\<close>

primrec first_all :: "'w os \<Rightarrow> chanid \<Rightarrow> string \<Rightarrow> int \<Rightarrow> (int \<times> int) list \<Rightarrow> ('w proc, unit) exec" where
  "first_all os c op fd [] = ret ()"
| "first_all os c op fd (a # as) =
     bnd (batch_read_write_first os c op fd (fst a) (snd a)) (\<lambda>_. first_all os c op fd as)"

primrec mergeable :: "batch \<Rightarrow> (int \<times> int) list \<Rightarrow> bool" where
  "mergeable b [] = True"
| "mergeable b (a # as) = (touches b a \<and> batch_ok (merge b a) \<and>
     length (io_string (snd (snd b))) + 64 < IOSTR_BUFSIZE \<and> mergeable (merge b a) as)"

lemma chan_is_iostr: "chan_is ch fd b \<Longrightarrow> iostr ch = io_string (snd (snd b))"
  by (cases b) (simp add: chan_isD(4))

lemma first_all_merges:
  assumes "chan_is (chans s c) fd b" and "\<forall>a\<in>set as. access_ok fd (fst a) (snd a)" and "mergeable b as"
  shows "first_all os c op fd as s =
    Some (Inr ((), set_chan c (with_batch fd (foldl merge b as) (chans s c)) s))"
  using assms
proof (induction as arbitrary: s b)
  case Nil
  then have "with_batch fd b (chans s c) = chans s c" by (simp add: chan_is_def)
  then show ?case by (simp add: ret_def set_chan_def)
next
  case (Cons a as)
  have fd: "0 \<le> fd" using Cons.prems(1) by (simp add: chan_is_def)
  have ac: "access_ok fd (fst a) (snd a)" using Cons.prems(2) by simp
  have m: "touches b (fst a, snd a)" "batch_ok (merge b (fst a, snd a))"
    "length (iostr (chans s c)) + 64 < IOSTR_BUFSIZE"
    using Cons.prems(3) chan_is_iostr [OF Cons.prems(1)] by simp_all
  let ?s = "set_chan c (with_batch fd (merge b a) (chans s c)) s"
  have "batch_read_write_first os c op fd (fst a) (snd a) s = Some (Inr (0, ?s))"
    using batch_first_touches [OF Cons.prems(1) ac m] by simp
  moreover have "first_all os c op fd as ?s =
      Some (Inr ((), set_chan c (with_batch fd (foldl merge (merge b a) as) (chans ?s c)) ?s))"
    using Cons.prems fd m by (intro Cons.IH) (auto intro: chan_is_with_batch)
  ultimately show ?case by (simp add: bnd_def)
qed

lemma foldl_merge:
  "foldl merge (lo, hi, bs) as = (foldl min lo (map (\<lambda>a. blk_start (snd a)) as),
     foldl max hi (map (\<lambda>a. blk_end (snd a) (fst a)) as), bs @ as)"
  by (induction as arbitrary: lo hi bs) (auto simp: merge_def)

section \<open>An access elsewhere\<close>

text \<open>The batch is written out under the channel's path and the access starts a new one.\<close>

lemma batch_size_u32:
  assumes ac: "access_ok fd sz off"
  shows "u32 (blk_end off sz - blk_start off + 1) = blk_end off sz - blk_start off + 1"
proof -
  have "off + sz + 4094 - off < 2147487743"
    using ac by (simp add: access_ok_def)
  moreover have "off - 4095 \<le> 4096 * (off div 4096)" by simp
  moreover have "4096 * ((off + sz + 4094) div 4096) \<le> off + sz + 4094" by simp
  ultimately have "blk_end off sz - blk_start off + 1 < 4294967296"
    unfolding blk_end_num [OF ac] blk_start_num by linarith
  then show ?thesis using blk_nums [OF ac] by simp
qed

lemma single_ok: "access_ok fd sz off \<Longrightarrow> batch_ok (single (sz, off))"
proof -
  assume ac: "access_ok fd sz off"
  have "blk_end off sz - blk_start off + 1 = (blk_end off sz - blk_start off + 1) mod 2 ^ 32"
    using batch_size_u32 [OF ac] by (simp add: u32_def)
  moreover have "\<dots> < 2 ^ 32" by simp
  ultimately have "blk_end off sz - blk_start off + 1 < 2 ^ 32" by linarith
  then show ?thesis
    using blk_nums [OF ac] length_io_entry [OF ac] by (simp add: single_def batch_ok_def size_defs io_string_def)
qed

lemma batch_notify_emits:
  assumes ci: "chan_is (chans s c) fd (lo, hi, as)" and ac: "access_ok fd' sz off"
    and rw: "notify_read_write os op (path (chans s c)) fd (hi - lo + 1) lo (io_string as) s = Some (Inr (t, s1))"
  shows "batch_read_write_notify os c op fd' (blk_start off) (blk_end off sz) sz off s =
    Some (Inr ((), set_chan c (with_batch fd' (single (sz, off)) (chans s c)) s1))"
proof -
  note d = chan_isD [OF ci] and n = blk_nums [OF ac]
  have k: "chans s1 = chans s"
    using keepsD [OF keeps_notify_read_write rw, of chans] by (simp add: indep_rec_simps)
  note u = batch_size_u32 [OF ac]
  have sn: "snprintf IOSTR_BUFSIZE (io_entry sz off) = io_entry sz off"
    using length_io_entry [OF ac] by (simp add: snprintf_def size_defs)
  show ?thesis
    using d rw
    by (simp add: batch_read_write_notify_def gets_def andthen_def bnd_def upd_chan_def modify_def k u sn
        set_chan_def single_def with_batch_def io_string_def)
qed

lemma batch_first_apart:
  assumes ci: "chan_is (chans s c) fd (lo, hi, as)" and ac: "access_ok fd sz off"
    and t: "\<not> touches (lo, hi, as) (sz, off)"
  shows "batch_read_write_first os c op fd sz off s =
    bnd (batch_read_write_notify os c op fd (blk_start off) (blk_end off sz) sz off) (\<lambda>_. ret 0) s"
proof -
  note d = chan_isD [OF ci] and n = blk_nums [OF ac]
  have args: "\<not> (fd < 0 \<or> sz = 0 \<or> off < 0)" using ac by (auto simp: access_ok_def)
  have far: "hi + 1 < blk_start off \<or> blk_end off sz < lo - 1"
    using t by (auto simp: touches_def)
  have le: "s64 (lo + (hi - lo + 1) - 1) = hi" "s64 (hi + 1) = hi + 1" "s64 (lo - 1) = lo - 1"
    using d by simp_all
  show ?thesis
    unfolding batch_read_write_first_def if_not_P [OF args] bnd_gets Let_def d(2,3) le if_P [OF far]
      andthen_def by (rule refl)
qed

lemma batch_first_far:
  assumes ci: "chan_is (chans s c) fd (lo, hi, as)" and ac: "access_ok fd sz off"
    and t: "\<not> touches (lo, hi, as) (sz, off)"
    and rw: "notify_read_write os op (path (chans s c)) fd (hi - lo + 1) lo (io_string as) s = Some (Inr (t, s1))"
  shows "batch_read_write_first os c op fd sz off s =
    Some (Inr (0, set_chan c (with_batch fd (single (sz, off)) (chans s c)) s1))"
  by (simp add: batch_first_apart [OF ci ac t] bnd_def batch_notify_emits [OF ci ac rw] ret_def)

text \<open>With good arguments the function never falls through its cases to \<open>-1\<close>.\<close>

lemma batch_first_total:
  assumes ci: "chan_is (chans s c) fd b" and ac: "access_ok fd sz off"
    and run: "batch_read_write_first os c op fd sz off s = Some (Inr (x, s'))"
  shows "x = 0"
proof (cases "touches b (sz, off)")
  case True
  obtain lo hi as where b: "b = (lo, hi, as)" by (cases b)
  note d = chan_isD [OF ci [unfolded b]]
  have near: "blk_start off \<le> hi + 1" "lo - 1 \<le> blk_end off sz"
    using True by (simp_all add: b touches_def)
  obtain s1 where "grow_batch c lo hi (blk_start off) (blk_end off sz) s1 = Some (Inr (x, s'))"
    using run unfolding batch_first_grows [OF ci [unfolded b] ac True [unfolded b]] by (rule bndE)
  then show ?thesis
    using near d by (auto simp: grow_batch_def ret_def andthen_def upd_chan_def modify_def bnd_def split: if_splits)
next
  case False
  obtain lo hi as where b: "b = (lo, hi, as)" by (cases b)
  have "bnd (batch_read_write_notify os c op fd (blk_start off) (blk_end off sz) sz off)
      (\<lambda>_. ret 0) s = Some (Inr (x, s'))"
    using run batch_first_apart [OF ci [unfolded b] ac False [unfolded b]] by simp
  then show ?thesis by (auto simp: ret_def elim!: bndE)
qed

section \<open>A full access string\<close>

text \<open>
  When the access string is full, \<open>record_iostr\<close> writes the batch out and restarts it
  with the current access, but the code after it still compares with the old range and
  then enlarges the restarted one.
\<close>

lemma batch_first_overflow:
  assumes ci: "chan_is (chans s c) fd (lo, hi, as)" and ac: "access_ok fd sz off"
    and t: "touches (lo, hi, as) (sz, off)" and up: "lo \<le> blk_start off" "hi < blk_end off sz"
    and full: "IOSTR_BUFSIZE \<le> length (io_string as) + 64"
    and rw: "notify_read_write os op (path (chans s c)) fd (hi - lo + 1) lo (io_string as) s = Some (Inr (t', s1))"
    and run: "batch_read_write_first os c op fd sz off s = Some (Inr (x, s'))"
  shows "last_off (chans s' c) = blk_start off"
    and "last_size (chans s' c) = u32 ((blk_end off sz - blk_start off + 1) + (blk_end off sz - hi))"
    and "iostr (chans s' c) = io_entry sz off"
proof -
  note d = chan_isD [OF ci]
  have near: "blk_start off \<le> hi + 1" using t by (simp add: touches_def)
  let ?s = "set_chan c (with_batch fd (single (sz, off)) (chans s c)) s1"
  have ri: "record_iostr os c op fd (blk_start off) (blk_end off sz) sz off s = Some (Inr ((), ?s))"
    using full d(4) batch_notify_emits [OF ci ac rw] by (simp add: record_iostr_def bnd_gets Let_def)
  have "grow_batch c lo hi (blk_start off) (blk_end off sz) ?s = Some (Inr (x, s'))"
    using run unfolding batch_first_grows [OF ci ac t] by (simp add: bnd_def ri)
  then have "s' = set_chan c ((with_batch fd (single (sz, off)) (chans s c))\<lparr>last_size :=
      u32 ((blk_end off sz - blk_start off + 1) + (blk_end off sz - hi))\<rparr>) s1"
    using up near by (auto simp: grow_batch_def andthen_def bnd_def upd_chan_def modify_def ret_def set_chan_def
        with_batch_def single_def)
  then show "last_off (chans s' c) = blk_start off"
    and "last_size (chans s' c) = u32 ((blk_end off sz - blk_start off + 1) + (blk_end off sz - hi))"
    and "iostr (chans s' c) = io_entry sz off"
    by (simp_all add: with_batch_def single_def io_string_def)
qed

end
