(* ===== verification/Fs.thy ===== *)
theory Fs
  imports Batch
begin

unbundle bit_operations_syntax

text \<open>
  Which files are traced (\<open>fs.c\<close>): the path behind a descriptor, the list of
  path prefixes, and the check of the file type.
\<close>

section \<open>The functions\<close>

text \<open>
  \<open>fd_to_path\<close> returns \<open>-1\<close> and leaves the caller's array alone, or fills it and
  returns the length: \<open>None\<close>, or \<open>Some\<close> of the array's new string.
\<close>

definition fd_link :: "int \<Rightarrow> int \<Rightarrow> string" where
  "fd_link pid fdesc = snprintf 128 (''/proc/'' @ dec_int pid @ ''/fd/'' @ dec_int fdesc)"

definition fd_to_path :: "'w os \<Rightarrow> int \<Rightarrow> ('w proc, string option) exec" where
  "fd_to_path os fdesc =
     (if fdesc = - 1 then ret None else
     bnd (asks (sys_getpid os)) (\<lambda>pid.
     bnd (sysc (sys_readlink os (fd_link pid fdesc))) (\<lambda>r.
     case r of None \<Rightarrow> ret None | Some p \<Rightarrow> ret (Some (take (PATH_MAX - 1) p)))))"

definition skip_path :: "string \<Rightarrow> bool" where
  "skip_path p =
     (if strncmp0 p ''/mnt/asec/'' (length ''/mnt/asec'') \<or>
         strncmp0 p ''/mnt/secure/'' (length ''/mnt/secure'') then True
      else \<not> strncmp0 p ''/system/'' (length ''/system/'') \<and>
         \<not> strncmp0 p ''/sdcard/'' (length ''/sdcard/'') \<and>
         \<not> strncmp0 p ''/mnt/'' (length ''/mnt/'') \<and>
         \<not> strncmp0 p ''/storage/'' (length ''/storage/'') \<and>
         \<not> strncmp0 p ''/data/'' (length ''/data/''))"

definition notify :: "'w os \<Rightarrow> int \<Rightarrow> int \<Rightarrow> string \<Rightarrow> ('w proc, int) exec" where
  "notify os fd flags p =
     (if skip_path p then ret 0 else
     bnd (if 0 < fd then sysc (sys_fstat os fd) else sysc (sys_lstat os p)) (\<lambda>(r, st_mode).
     bnd (asks (errno os)) (\<lambda>e.
     if r = - 1 \<and> (e = ENOENT \<or> e = EPERM) then ret (flags AND S_IFMT)
     else if r = - 1 then andthen (aloge os TAG_DBG ''stat failed'') (ret 0)
     else let md = st_mode AND S_IFMT in
       if flags AND md = 0 then andthen (aloge os TAG_DBG ''mode mistmatch'') (ret 0)
       else ret md)))"

section \<open>Which paths\<close>

definition traced_roots :: "string list" where
  "traced_roots = [''/system/'', ''/sdcard/'', ''/mnt/'', ''/storage/'', ''/data/'']"

definition hidden_roots :: "string list" where
  "hidden_roots = [''/mnt/asec'', ''/mnt/secure'']"

definition starts_with :: "string \<Rightarrow> string \<Rightarrow> bool" where
  "starts_with p r \<longleftrightarrow> (\<exists>rest. p = r @ rest)"

lemma strncmp0_cut:
  assumes "n \<le> length r" shows "strncmp0 p r n \<longleftrightarrow> starts_with p (take n r)"
proof
  assume "strncmp0 p r n"
  then have "p = take n r @ drop n p" by (metis strncmp0_def append_take_drop_id)
  then show "starts_with p (take n r)" unfolding starts_with_def by blast
next
  assume "starts_with p (take n r)"
  with assms show "strncmp0 p r n" by (auto simp: starts_with_def strncmp0_def min_def)
qed

lemma strncmp0_prefix: "strncmp0 p r (length r) \<longleftrightarrow> starts_with p r"
  using strncmp0_cut [of "length r" r p] by simp

lemma skip_path_spec:
  "skip_path p \<longleftrightarrow> (\<exists>r\<in>set hidden_roots. starts_with p r) \<or> (\<forall>r\<in>set traced_roots. \<not> starts_with p r)"
proof -
  have "strncmp0 p ''/mnt/asec/'' (length ''/mnt/asec'') = starts_with p ''/mnt/asec''"
    and "strncmp0 p ''/mnt/secure/'' (length ''/mnt/secure'') = starts_with p ''/mnt/secure''"
    by (subst strncmp0_cut; simp)+
  then show ?thesis
    unfolding skip_path_def strncmp0_prefix by (auto simp: hidden_roots_def traced_roots_def)
qed

section \<open>The type check\<close>

lemma keeps_fd_to_path [keep_rules]: "(\<And>s w. f (s\<lparr>world := w\<rparr>) = f s) \<Longrightarrow> keeps f (fd_to_path os fd)"
  unfolding fd_to_path_def by (intro keep_rules)

lemma keeps_notify_check [keep_rules]:
  "(\<And>s w. f (s\<lparr>world := w\<rparr>) = f s) \<Longrightarrow> (\<And>s l. f (s\<lparr>logs := l\<rparr>) = f s) \<Longrightarrow> keeps f (notify os fd flags p)"
  unfolding notify_def by (intro keep_rules)

text \<open>What \<open>notify\<close> answers when the file can be examined.\<close>

lemma notify_stat:
  assumes "\<not> skip_path p" and "0 < fd" and "sys_fstat os fd (world s) = ((r, m), w)" and "r \<noteq> - 1"
    and "flags AND (m AND S_IFMT) \<noteq> 0"
  shows "notify os fd flags p s = Some (Inr (m AND S_IFMT, s\<lparr>world := w\<rparr>))"
  using assms
  by (simp add: notify_def bnd_def sysc_def asks_def gets_def Let_def ret_def)

lemma notify_skips: "skip_path p \<Longrightarrow> notify os fd flags p s = Some (Inr (0, s))"
  by (simp add: notify_def ret_def)

lemma notify_result:
  assumes "notify os fd flags p s = Some (Inr (x, s'))"
  shows "x = 0 \<or> x = flags AND S_IFMT \<or> (flags AND x \<noteq> 0)"
  using assms
  by (auto simp: notify_def ret_def aloge_def andthen_def Let_def split: if_splits elim!: bndE)

end
