(* ===== verification/Rw.thy ===== *)
theory Rw
  imports Fs
begin

unbundle bit_operations_syntax

text \<open>
  The interposed read and write calls (\<open>read.c\<close>, \<open>write.c\<close>, \<open>pread.c\<close>,
  \<open>pwrite.c\<close>, \<open>fread.c\<close>, \<open>fwrite.c\<close>).

  The six files are one text up to names and to where the offset comes from: the
  file position (\<open>trace_seek\<close>) or an argument (\<open>trace_at\<close>).  Each has its own
  channel of thread-local variables.
\<close>

section \<open>The shared text\<close>

definition sym_init :: "'w os \<Rightarrow> fslot \<Rightarrow> string \<Rightarrow> string \<Rightarrow> ('w proc, unit) exec \<Rightarrow> ('w proc, int) exec" where
  "sym_init os v name alt complain =
     andthen (load_sym os v name alt) (
     bnd (gets (\<lambda>s. fptr s v)) (\<lambda>f.
     if f = 0 then andthen (seterr os EIO) (andthen complain (ret (- 1))) else ret 0))"

text \<open>\<open>read_close\<close> and its five copies; \<open>fd = -1\<close> means that the thread exits.\<close>

definition rw_close :: "'w os \<Rightarrow> chanid \<Rightarrow> string \<Rightarrow> int \<Rightarrow> ('w proc, unit) exec" where
  "rw_close os c op fd =
     bnd (gets (\<lambda>s. chans s c)) (\<lambda>ch.
     if (fd = - 1 \<and> last_fd ch \<noteq> - 1) \<or> (fd \<noteq> - 1 \<and> fd = last_fd ch)
     then bnd (notify_read_write os (op @ (if fd = - 1 then '' (exit)'' else '' (close)''))
                (path ch) (last_fd ch) (last_size ch) (last_off ch) (iostr ch)) (\<lambda>str.
          upd_chan c (\<lambda>ch. ch\<lparr>iostr := str, last_fd := - 1\<rparr>))
     else ret ())"

text \<open>\<open>fd_to_path(fd, path) != -1 && notify(fd, S_IFREG, path)\<close>; the path array is overwritten.\<close>

definition retarget :: "'w os \<Rightarrow> chanid \<Rightarrow> int \<Rightarrow> ('w proc, bool) exec" where
  "retarget os c fd =
     bnd (fd_to_path os fd) (\<lambda>r.
     case r of None \<Rightarrow> ret False
     | Some p \<Rightarrow> andthen (upd_chan c (\<lambda>ch. ch\<lparr>path := p\<rparr>))
         (bnd (notify os fd S_IFREG p) (\<lambda>m. ret (m \<noteq> 0))))"

text \<open>\<open>off64_t off = lseek64(fd, 0, SEEK_CUR) - ret;\<close> and what is done with it when it is good.\<close>

definition with_pos :: "'w os \<Rightarrow> int \<Rightarrow> int \<Rightarrow> (int \<Rightarrow> ('w proc, bool) exec) \<Rightarrow> ('w proc, bool) exec" where
  "with_pos os fd n k =
     bnd (sysc (sys_lseek64 os fd)) (\<lambda>pos.
     let off = s64 (pos - n) in
     if off < 0 then andthen (aloge os TAG_DBG ''err'') (ret False) else k off)"

text \<open>The stream functions test \<open>fd != -1\<close> as well (\<open>check\<close>): \<open>fileno\<close> may fail.\<close>

definition trace_seek :: "'w os \<Rightarrow> chanid \<Rightarrow> string \<Rightarrow> bool \<Rightarrow> int \<Rightarrow> int \<Rightarrow> ('w proc, unit) exec" where
  "trace_seek os c op check fd n =
     bnd (gets (\<lambda>s. last_fd (chans s c))) (\<lambda>last.
     bnd (if (check \<longrightarrow> fd \<noteq> - 1) \<and> last = fd
          then with_pos os fd n (\<lambda>off. bnd (batch_read_write_first os c op fd n off) (\<lambda>r. ret (r = 0)))
          else ret False) (\<lambda>finished.
     if finished then ret () else
     bnd (retarget os c fd) (\<lambda>ok.
     if ok then andthen (with_pos os fd n (\<lambda>off. andthen (batch_read_write_second os c op fd n off) (ret True)))
                        (ret ())
     else ret ())))"

definition trace_at :: "'w os \<Rightarrow> chanid \<Rightarrow> string \<Rightarrow> int \<Rightarrow> int \<Rightarrow> int \<Rightarrow> ('w proc, unit) exec" where
  "trace_at os c op fd n off =
     bnd (gets (\<lambda>s. last_fd (chans s c))) (\<lambda>last.
     bnd (if last = fd then bnd (batch_read_write_first os c op fd n off) (\<lambda>r. ret (r = 0)) else ret False)
       (\<lambda>finished.
     if finished then ret () else
     bnd (retarget os c fd) (\<lambda>ok.
     if ok then batch_read_write_second os c op fd n off else ret ())))"

section \<open>The six files\<close>

text \<open>\<open>read.c\<close>\<close>

definition read_init :: "'w os \<Rightarrow> ('w proc, int) exec" where
  "read_init os = sym_init os Read_read ''read'' ''__read'' (err os ''_read'')"

definition read_close :: "'w os \<Rightarrow> int \<Rightarrow> ('w proc, unit) exec" where
  "read_close os fd = rw_close os Rd ''read'' fd"

definition read_io :: "'w os \<Rightarrow> int \<Rightarrow> nat \<Rightarrow> ('w proc, int \<times> char list) exec" where
  "read_io os fd sz =
     bnd (read_init os) (\<lambda>i.
     if i = - 1 then ret (- 1, []) else
     bnd (call Read_read (\<lambda>f. sys_read os f fd sz)) (\<lambda>(n, bytes).
     bnd (gets notify_v) (\<lambda>on.
     andthen (only_if (0 < n \<and> on \<noteq> 0) (trace_seek os Rd ''read'' False fd n))
             (ret (n, bytes)))))"

text \<open>\<open>write.c\<close>\<close>

definition write_init :: "'w os \<Rightarrow> ('w proc, int) exec" where
  "write_init os = sym_init os Write_write ''write'' ''__write'' (aloge os TAG_DBG ''NULL _write!'')"

definition write_close :: "'w os \<Rightarrow> int \<Rightarrow> ('w proc, unit) exec" where
  "write_close os fd = rw_close os Wr ''write'' fd"

definition write_io :: "'w os \<Rightarrow> int \<Rightarrow> char list \<Rightarrow> ('w proc, int) exec" where
  "write_io os fd bytes =
     bnd (write_init os) (\<lambda>i.
     if i = - 1 then ret (- 1) else
     bnd (call Write_write (\<lambda>f. sys_write os f fd bytes)) (\<lambda>n.
     bnd (gets notify_v) (\<lambda>on.
     andthen (only_if (0 < n \<and> on \<noteq> 0) (trace_seek os Wr ''write'' False fd n))
             (ret n))))"

text \<open>\<open>pread.c\<close>\<close>

definition pread64_init :: "'w os \<Rightarrow> ('w proc, int) exec" where
  "pread64_init os = sym_init os Pread_pread64 ''pread64'' ''__pread64'' (err os ''_pread64'')"

definition pread64_close :: "'w os \<Rightarrow> int \<Rightarrow> ('w proc, unit) exec" where
  "pread64_close os fd = rw_close os Prd ''pread64'' fd"

definition do_pread64 :: "'w os \<Rightarrow> string \<Rightarrow> int \<Rightarrow> nat \<Rightarrow> int \<Rightarrow> ('w proc, int \<times> char list) exec" where
  "do_pread64 os op fd sz off =
     bnd (pread64_init os) (\<lambda>i.
     if i = - 1 then ret (- 1, []) else
     bnd (call Pread_pread64 (\<lambda>f. sys_pread64 os f fd sz off)) (\<lambda>(n, bytes).
     bnd (gets notify_v) (\<lambda>on.
     andthen (only_if (0 < n \<and> on \<noteq> 0) (trace_at os Prd op fd n off))
             (ret (n, bytes)))))"

definition pread64 :: "'w os \<Rightarrow> int \<Rightarrow> nat \<Rightarrow> int \<Rightarrow> ('w proc, int \<times> char list) exec" where
  "pread64 os fd sz off = do_pread64 os ''pread64'' fd sz off"

definition pread :: "'w os \<Rightarrow> int \<Rightarrow> nat \<Rightarrow> int \<Rightarrow> ('w proc, int \<times> char list) exec" where
  "pread os fd sz off = do_pread64 os ''pread'' fd sz off"

text \<open>\<open>pwrite.c\<close>\<close>

definition pwrite64_init :: "'w os \<Rightarrow> ('w proc, int) exec" where
  "pwrite64_init os = sym_init os Pwrite_pwrite64 ''pwrite64'' ''__pwrite64'' (err os ''_pwrite64'')"

definition pwrite64_close :: "'w os \<Rightarrow> int \<Rightarrow> ('w proc, unit) exec" where
  "pwrite64_close os fd = rw_close os Pwr ''pwrite64'' fd"

definition do_pwrite64 :: "'w os \<Rightarrow> string \<Rightarrow> int \<Rightarrow> char list \<Rightarrow> int \<Rightarrow> ('w proc, int) exec" where
  "do_pwrite64 os op fd bytes off =
     bnd (pwrite64_init os) (\<lambda>i.
     if i = - 1 then ret (- 1) else
     bnd (call Pwrite_pwrite64 (\<lambda>f. sys_pwrite64 os f fd bytes off)) (\<lambda>n.
     bnd (gets notify_v) (\<lambda>on.
     andthen (only_if (0 < n \<and> on \<noteq> 0) (trace_at os Pwr op fd n off))
             (ret n))))"

definition pwrite64 :: "'w os \<Rightarrow> int \<Rightarrow> char list \<Rightarrow> int \<Rightarrow> ('w proc, int) exec" where
  "pwrite64 os fd bytes off = do_pwrite64 os ''pwrite64'' fd bytes off"

definition pwrite :: "'w os \<Rightarrow> int \<Rightarrow> char list \<Rightarrow> int \<Rightarrow> ('w proc, int) exec" where
  "pwrite os fd bytes off = do_pwrite64 os ''pwrite'' fd bytes off"

text \<open>\<open>fread.c\<close>; on a missing symbol the \<open>size_t\<close> result is \<open>(size_t)-1\<close>.\<close>

definition fread_init :: "'w os \<Rightarrow> ('w proc, int) exec" where
  "fread_init os = sym_init os Fread_fread ''fread'' ''__fread'' (err os ''_fread'')"

definition fread_close :: "'w os \<Rightarrow> int \<Rightarrow> ('w proc, unit) exec" where
  "fread_close os fd = rw_close os Frd ''fread'' fd"

definition fread :: "'w os \<Rightarrow> nat \<Rightarrow> nat \<Rightarrow> nat \<Rightarrow> ('w proc, int \<times> char list) exec" where
  "fread os sz count fp =
     bnd (fread_init os) (\<lambda>i.
     if i = - 1 then ret (u32 (- 1), []) else
     bnd (call Fread_fread (\<lambda>f. sys_fread os f sz count fp)) (\<lambda>(n, bytes).
     bnd (asks (sys_ferror os fp)) (\<lambda>bad.
     bnd (gets notify_v) (\<lambda>on.
     andthen (only_if (\<not> bad \<and> 0 < n \<and> on \<noteq> 0)
               (bnd (asks (sys_fileno os fp)) (\<lambda>fd. trace_seek os Frd ''fread'' True fd n)))
             (ret (n, bytes))))))"

text \<open>\<open>fwrite.c\<close>\<close>

definition fwrite_init :: "'w os \<Rightarrow> ('w proc, int) exec" where
  "fwrite_init os = sym_init os Fwrite_fwrite ''fwrite'' ''__fwrite'' (aloge os TAG_DBG ''NULL _fwrite!'')"

definition fwrite_close :: "'w os \<Rightarrow> int \<Rightarrow> ('w proc, unit) exec" where
  "fwrite_close os fd = rw_close os Fwr ''fwrite'' fd"

definition fwrite :: "'w os \<Rightarrow> char list \<Rightarrow> nat \<Rightarrow> nat \<Rightarrow> nat \<Rightarrow> ('w proc, int) exec" where
  "fwrite os bytes sz count fp =
     bnd (fwrite_init os) (\<lambda>i.
     if i = - 1 then ret (u32 (- 1)) else
     bnd (call Fwrite_fwrite (\<lambda>f. sys_fwrite os f bytes sz count fp)) (\<lambda>n.
     bnd (asks (sys_ferror os fp)) (\<lambda>bad.
     bnd (gets notify_v) (\<lambda>on.
     andthen (only_if (\<not> bad \<and> 0 < n \<and> on \<noteq> 0)
               (bnd (asks (sys_fileno os fp)) (\<lambda>fd. trace_seek os Fwr ''fwrite'' True fd n)))
             (ret n)))))"

section \<open>Moving to another file\<close>

text \<open>
  The descriptor \<open>fd\<close> leads to the traced regular file \<open>p\<close>, and the access of \<open>n\<close>
  bytes that has just been made on it was at offset \<open>off\<close>; asking leaves the world \<open>w\<close>.
\<close>

definition located :: "'w os \<Rightarrow> 'w proc \<Rightarrow> int \<Rightarrow> int \<Rightarrow> string \<Rightarrow> int \<Rightarrow> 'w \<Rightarrow> bool" where
  "located os s fd n p off w \<longleftrightarrow> 0 < fd \<and> \<not> skip_path p \<and> length p < PATH_MAX \<and>
     (case sys_readlink os (fd_link (sys_getpid os (world s)) fd) (world s) of (r, w1) \<Rightarrow> r = Some p \<and>
     (case sys_fstat os fd w1 of ((e, m), w2) \<Rightarrow> e \<noteq> - 1 \<and> S_IFREG AND (m AND S_IFMT) \<noteq> 0 \<and>
     (case sys_lseek64 os fd w2 of (pos, w3) \<Rightarrow> off = s64 (pos - n) \<and> w = w3)))"

lemma retarget_file:
  assumes h: "0 < fd" "\<not> skip_path p" "length p < PATH_MAX"
      "sys_readlink os (fd_link (sys_getpid os (world s)) fd) (world s) = (Some p, w1)"
      "sys_fstat os fd w1 = ((e, m), w2)" "e \<noteq> - 1" "S_IFREG AND (m AND S_IFMT) \<noteq> 0"
  shows "retarget os c fd s = Some (Inr (True, set_chan c ((chans s c)\<lparr>path := p\<rparr>) (s\<lparr>world := w2\<rparr>)))"
proof -
  have tk: "take (PATH_MAX - 1) p = p" using h(3) by simp
  have f: "fd_to_path os fd s = Some (Inr (Some p, s\<lparr>world := w1\<rparr>))"
    using h(1,4) tk by (simp add: fd_to_path_def asks_def bnd_def gets_def sysc_def ret_def)
  let ?s = "set_chan c ((chans s c)\<lparr>path := p\<rparr>) (s\<lparr>world := w1\<rparr>)"
  have n: "notify os fd S_IFREG p ?s = Some (Inr (m AND S_IFMT, ?s\<lparr>world := w2\<rparr>))"
    using h by (intro notify_stat) (simp_all add: set_chan_def)
  have nz: "m AND S_IFMT \<noteq> 0" using h(7) by auto
  show ?thesis
    using f n nz
    by (simp add: retarget_def bnd_def andthen_def upd_chan_def modify_def ret_def set_chan_def)
qed

lemma retarget_located:
  assumes "located os s fd n p off w"
  obtains w2 pos where "retarget os c fd s =
      Some (Inr (True, set_chan c ((chans s c)\<lparr>path := p\<rparr>) (s\<lparr>world := w2\<rparr>)))"
    and "sys_lseek64 os fd w2 = (pos, w)" and "off = s64 (pos - n)"
proof -
  obtain w1 e m w2 pos where
    h: "0 < fd" "\<not> skip_path p" "length p < PATH_MAX"
      "sys_readlink os (fd_link (sys_getpid os (world s)) fd) (world s) = (Some p, w1)"
      "sys_fstat os fd w1 = ((e, m), w2)" "e \<noteq> - 1" "S_IFREG AND (m AND S_IFMT) \<noteq> 0"
      "sys_lseek64 os fd w2 = (pos, w)" "off = s64 (pos - n)"
    using assms unfolding located_def by (auto split: prod.splits)
  show thesis using retarget_file [OF h(1-7)] h(8,9) that by simp
qed

text \<open>An access to a file the channel is not batching starts a batch of its own.\<close>

lemma trace_seek_other:
  assumes lo: "located os s fd n p off w" and ac: "access_ok fd n off" and ne: "last_fd (chans s c) \<noteq> fd"
  shows "trace_seek os c op check fd n s =
    batch_read_write_notify os c op fd (blk_start off) (blk_end off n) n off
      (set_chan c ((chans s c)\<lparr>path := p\<rparr>) (s\<lparr>world := w\<rparr>))"
proof -
  obtain w2 pos where r: "retarget os c fd s =
      Some (Inr (True, set_chan c ((chans s c)\<lparr>path := p\<rparr>) (s\<lparr>world := w2\<rparr>)))"
    and ls: "sys_lseek64 os fd w2 = (pos, w)" and off: "off = s64 (pos - n)"
    using retarget_located [OF lo] by metis
  have swap: "(set_chan c ch (s\<lparr>world := w2\<rparr>))\<lparr>world := w\<rparr> = set_chan c ch (s\<lparr>world := w\<rparr>)" for ch
    by (simp add: set_chan_def)
  have wp: "with_pos os fd n k (set_chan c ch (s\<lparr>world := w2\<rparr>)) = k off (set_chan c ch (s\<lparr>world := w\<rparr>))"
    if "\<not> off < 0" for k ch
  proof -
    have "world (set_chan c ch (s\<lparr>world := w2\<rparr>)) = w2" by (simp add: set_chan_def)
    then show ?thesis using that ls off by (simp add: with_pos_def bnd_def sysc_def Let_def swap)
  qed
  have args: "\<not> off < 0" "\<not> (fd < 0 \<or> n = 0 \<or> off < 0)" using ac by (auto simp: access_ok_def)
  let ?k = "batch_read_write_notify os c op fd (blk_start off) (blk_end off n) n off"
  have "trace_seek os c op check fd n s = andthen (andthen ?k (ret True)) (ret ())
      (set_chan c ((chans s c)\<lparr>path := p\<rparr>) (s\<lparr>world := w\<rparr>))"
    using ne args
    by (simp add: trace_seek_def bnd_gets bnd_Some [of "retarget os c fd", OF r] batch_read_write_second_def)
      (simp add: andthen_def bnd_def wp)
  also have "andthen (andthen ?k (ret True)) (ret ()) = ?k"
    by (rule ext) (simp add: andthen_def bnd_assoc bnd_def ret_def split: option.split sum.split prod.split)
  finally show ?thesis .
qed

text \<open>An access to the file the channel is batching goes to the batch.\<close>

lemma with_pos_at:
  assumes "sys_lseek64 os fd (world s) = (pos, w)" and "\<not> s64 (pos - n) < 0"
  shows "with_pos os fd n k s = k (s64 (pos - n)) (s\<lparr>world := w\<rparr>)"
  using assms by (simp add: with_pos_def bnd_def sysc_def Let_def)

lemma trace_seek_more:
  assumes "sys_lseek64 os fd (world s) = (pos, w)" "\<not> s64 (pos - n) < 0" and fd: "last_fd (chans s c) = fd"
    and first: "batch_read_write_first os c op fd n (s64 (pos - n)) (s\<lparr>world := w\<rparr>) = Some (Inr (0, s'))"
  shows "trace_seek os c op False fd n s = Some (Inr ((), s'))"
proof -
  define k where "k = (\<lambda>off. bnd (batch_read_write_first os c op fd n off) (\<lambda>r. ret (r = 0)))"
  have "with_pos os fd n k s = Some (Inr (True, s'))"
    unfolding with_pos_at [OF assms(1,2)] unfolding k_def by (simp add: bnd_def first ret_def)
  then show ?thesis
    unfolding trace_seek_def bnd_gets fd k_def [symmetric] by (simp add: bnd_def ret_def)
qed

text \<open>On a channel at rest nothing is reported yet.\<close>

lemma batch_notify_fresh:
  assumes ac: "access_ok fd n off" and fr: "last_fd (chans s c) = - 1"
  shows "batch_read_write_notify os c op fd (blk_start off) (blk_end off n) n off s =
    Some (Inr ((), set_chan c (with_batch fd (single (n, off)) (chans s c)) s))"
proof -
  have sn: "snprintf IOSTR_BUFSIZE (io_entry n off) = io_entry n off"
    using length_io_entry [OF ac] by (simp add: snprintf_def size_defs)
  show ?thesis
    using fr batch_size_u32 [OF ac] sn
    by (simp add: batch_read_write_notify_def andthen_def bnd_def gets_def ret_def upd_chan_def modify_def
        set_chan_def with_batch_def single_def io_string_def)
qed

lemma trace_seek_fresh:
  assumes lo: "located os s fd n p off w" and ac: "access_ok fd n off" and fr: "last_fd (chans s c) = - 1"
  shows "trace_seek os c op check fd n s = Some (Inr ((), set_chan c
    (with_batch fd (single (n, off)) ((chans s c)\<lparr>path := p\<rparr>)) (s\<lparr>world := w\<rparr>)))"
proof -
  have ne: "last_fd (chans s c) \<noteq> fd" using fr ac by (simp add: access_ok_def)
  show ?thesis
    unfolding trace_seek_other [OF lo ac ne] using fr
    by (subst batch_notify_fresh [OF ac]) simp_all
qed

text \<open>The same for the calls that are given the offset.\<close>

lemma trace_at_fresh:
  assumes ac: "access_ok fd n off" and fr: "last_fd (chans s c) = - 1"
    and re: "retarget os c fd s = Some (Inr (True, set_chan c ((chans s c)\<lparr>path := p\<rparr>) (s\<lparr>world := w\<rparr>)))"
  shows "trace_at os c op fd n off s = Some (Inr ((), set_chan c
    (with_batch fd (single (n, off)) ((chans s c)\<lparr>path := p\<rparr>)) (s\<lparr>world := w\<rparr>)))"
proof -
  have a: "\<not> (fd < 0 \<or> n = 0 \<or> off < 0)" "last_fd (chans s c) \<noteq> fd"
    using ac fr by (auto simp: access_ok_def)
  show ?thesis
    using a batch_notify_fresh [OF ac, of "set_chan c ((chans s c)\<lparr>path := p\<rparr>) (s\<lparr>world := w\<rparr>)" c] fr
    by (simp add: trace_at_def bnd_gets bnd_Some [of "retarget os c fd" s, OF re] batch_read_write_second_def)
qed

lemma trace_at_merges:
  assumes ci: "chan_is (chans s c) fd b" and ac: "access_ok fd n off" and m: "mergeable b [(n, off)]"
  shows "trace_at os c op fd n off s = Some (Inr ((), set_chan c (with_batch fd (merge b (n, off)) (chans s c)) s))"
proof -
  have "batch_read_write_first os c op fd n off s =
    Some (Inr (0, set_chan c (with_batch fd (merge b (n, off)) (chans s c)) s))"
    using m chan_is_iostr [OF ci] by (intro batch_first_touches [OF ci ac]) simp_all
  moreover have "last_fd (chans s c) = fd" using ci by (cases b) (simp add: chan_isD)
  ultimately show ?thesis by (simp add: trace_at_def bnd_def gets_def ret_def)
qed

text \<open>
  On a channel with a batch for the descriptor \<open>fd0\<close>, that batch is reported now, under
  the path that has just been put in the channel: the path of the other file.
\<close>

lemma trace_seek_mislabels:
  assumes lo: "located os s fd n p off w" and ac: "access_ok fd n off"
    and ci: "chan_is (chans s c) fd0 (l, h, as)" and ne: "fd0 \<noteq> fd"
    and rw: "notify_read_write os op p fd0 (h - l + 1) l (io_string as)
      (set_chan c ((chans s c)\<lparr>path := p\<rparr>) (s\<lparr>world := w\<rparr>)) = Some (Inr (t, s1))"
  shows "trace_seek os c op check fd n s = Some (Inr ((), set_chan c
    (with_batch fd (single (n, off)) ((chans s c)\<lparr>path := p\<rparr>)) s1))"
proof -
  have ne': "last_fd (chans s c) \<noteq> fd" using ne chan_isD(1) [OF ci] by simp
  let ?s = "set_chan c ((chans s c)\<lparr>path := p\<rparr>) (s\<lparr>world := w\<rparr>)"
  have ci': "chan_is (chans ?s c) fd0 (l, h, as)"
    using ci unfolding chan_is_def with_batch_def by (cases "chans s c") simp
  show ?thesis
    unfolding trace_seek_other [OF lo ac ne']
    using batch_notify_emits [OF ci' ac, of os op t s1] rw by (simp add: set_chan_def)
qed

section \<open>The contract of an interposed call\<close>

text \<open>
  Seen from the program, an interposed call is the real call: it is made once, first,
  with the caller's arguments, and its result is returned; the report comes after.
  \<open>a\<close> stands for the arguments.
\<close>

locale passthru =
  fixes io :: "'w os \<Rightarrow> 'a \<Rightarrow> ('w proc, 'r) exec"
    and slot :: fslot and name alt :: string
    and complain :: "'w os \<Rightarrow> ('w proc, unit) exec"
    and real :: "'w os \<Rightarrow> 'a \<Rightarrow> nat \<Rightarrow> 'w \<Rightarrow> 'r \<times> 'w"
    and fail :: 'r
    and report :: "'w os \<Rightarrow> 'a \<Rightarrow> 'r \<Rightarrow> ('w proc, unit) exec"
  assumes shape: "io os a =
      bnd (sym_init os slot name alt (complain os)) (\<lambda>i.
      if i = - 1 then ret fail
      else bnd (call slot (real os a)) (\<lambda>r. andthen (report os a r) (ret r)))"
    and quiet: "notify_v s = 0 \<Longrightarrow> report os a r s = Some (Inr ((), s))"
begin

text \<open>The state in which the report starts.\<close>

definition after_call :: "'w os \<Rightarrow> 'a \<Rightarrow> 'w proc \<Rightarrow> 'w proc" where
  "after_call os a s = s\<lparr>fptr := (fptr s)(slot := resolved os s slot name alt),
     world := snd (real os a (resolved os s slot name alt) (world s))\<rparr>"

lemma io_run:
  assumes "resolved os s slot name alt \<noteq> 0"
  shows "io os a s = andthen (report os a (fst (real os a (resolved os s slot name alt) (world s))))
    (ret (fst (real os a (resolved os s slot name alt) (world s)))) (after_call os a s)"
  using assms unfolding shape sym_init_def after_call_def
  by (cases "real os a (resolved os s slot name alt) (world s)")
    (simp add: bnd_def andthen_def load_sym_run gets_def ret_def call_def sysc_def)

lemma result:
  assumes "resolved os s slot name alt \<noteq> 0" and "io os a s = Some (Inr (r, s'))"
  shows "r = fst (real os a (resolved os s slot name alt) (world s))"
  using assms by (auto simp: io_run andthen_def ret_def elim!: bndE)

lemma untraced:
  assumes "resolved os s slot name alt \<noteq> 0" and "notify_v s = 0"
  shows "io os a s = Some (Inr (fst (real os a (resolved os s slot name alt) (world s)), after_call os a s))"
proof -
  have "notify_v (after_call os a s) = 0" using assms(2) by (simp add: after_call_def)
  then show ?thesis using assms(1) by (simp add: io_run andthen_def bnd_def quiet ret_def)
qed

lemma unresolved:
  assumes "resolved os s slot name alt = 0" and "io os a s = Some (Inr (r, s'))"
  shows "r = fail"
  using assms unfolding shape sym_init_def
  by (auto simp: andthen_def load_sym_run gets_def ret_def elim!: bndE split: if_splits)

end

text \<open>What each file reports after the call.\<close>

definition report_seek :: "'w os \<Rightarrow> chanid \<Rightarrow> string \<Rightarrow> int \<Rightarrow> int \<Rightarrow> ('w proc, unit) exec" where
  "report_seek os c op fd n =
     bnd (gets notify_v) (\<lambda>on. only_if (0 < n \<and> on \<noteq> 0) (trace_seek os c op False fd n))"

definition report_at :: "'w os \<Rightarrow> chanid \<Rightarrow> string \<Rightarrow> int \<Rightarrow> int \<Rightarrow> int \<Rightarrow> ('w proc, unit) exec" where
  "report_at os c op fd off n =
     bnd (gets notify_v) (\<lambda>on. only_if (0 < n \<and> on \<noteq> 0) (trace_at os c op fd n off))"

definition report_stream :: "'w os \<Rightarrow> chanid \<Rightarrow> string \<Rightarrow> nat \<Rightarrow> int \<Rightarrow> ('w proc, unit) exec" where
  "report_stream os c op fp n =
     bnd (asks (sys_ferror os fp)) (\<lambda>bad.
     bnd (gets notify_v) (\<lambda>on. only_if (\<not> bad \<and> 0 < n \<and> on \<noteq> 0)
       (bnd (asks (sys_fileno os fp)) (\<lambda>fd. trace_seek os c op True fd n))))"

lemmas report_defs = report_seek_def report_at_def report_stream_def

lemma report_then:
  "andthen (report_seek os c op fd n) k =
     bnd (gets notify_v) (\<lambda>on. andthen (only_if (0 < n \<and> on \<noteq> 0) (trace_seek os c op False fd n)) k)"
  "andthen (report_at os c op fd off n) k =
     bnd (gets notify_v) (\<lambda>on. andthen (only_if (0 < n \<and> on \<noteq> 0) (trace_at os c op fd n off)) k)"
  "andthen (report_stream os c op fp n) k =
     bnd (asks (sys_ferror os fp)) (\<lambda>bad.
     bnd (gets notify_v) (\<lambda>on. andthen (only_if (\<not> bad \<and> 0 < n \<and> on \<noteq> 0)
       (bnd (asks (sys_fileno os fp)) (\<lambda>fd. trace_seek os c op True fd n))) k))"
  by (simp_all add: report_defs andthen_def bnd_assoc)

lemma report_quiet:
  assumes "notify_v s = 0"
  shows "report_seek os c op fd n s = Some (Inr ((), s))"
    and "report_at os c op fd off n s = Some (Inr ((), s))"
    and "report_stream os c op fp n s = Some (Inr ((), s))"
  using assms by (simp_all add: report_defs asks_def bnd_def gets_def ret_def)

interpretation read_call: passthru "\<lambda>os (fd, sz). read_io os fd sz" Read_read "''read''" "''__read''"
  "\<lambda>os. err os ''_read''" "\<lambda>os (fd, sz) f. sys_read os f fd sz" "(- 1, [])"
  "\<lambda>os (fd, sz) (n, bytes). report_seek os Rd ''read'' fd n"
  by unfold_locales (auto simp: read_io_def read_init_def report_then report_quiet split_def cong: if_cong)

interpretation write_call: passthru "\<lambda>os (fd, bytes). write_io os fd bytes" Write_write "''write''" "''__write''"
  "\<lambda>os. aloge os TAG_DBG ''NULL _write!''" "\<lambda>os (fd, bytes) f. sys_write os f fd bytes" "- 1"
  "\<lambda>os (fd, bytes) n. report_seek os Wr ''write'' fd n"
  by unfold_locales (auto simp: write_io_def write_init_def report_then report_quiet split_def cong: if_cong)

interpretation pread_call: passthru "\<lambda>os (op, fd, sz, off). do_pread64 os op fd sz off"
  Pread_pread64 "''pread64''" "''__pread64''"
  "\<lambda>os. err os ''_pread64''" "\<lambda>os (op, fd, sz, off) f. sys_pread64 os f fd sz off" "(- 1, [])"
  "\<lambda>os (op, fd, sz, off) (n, bytes). report_at os Prd op fd off n"
  by unfold_locales (auto simp: do_pread64_def pread64_init_def report_then report_quiet split_def cong: if_cong)

interpretation pwrite_call: passthru "\<lambda>os (op, fd, bytes, off). do_pwrite64 os op fd bytes off"
  Pwrite_pwrite64 "''pwrite64''" "''__pwrite64''"
  "\<lambda>os. err os ''_pwrite64''" "\<lambda>os (op, fd, bytes, off) f. sys_pwrite64 os f fd bytes off" "- 1"
  "\<lambda>os (op, fd, bytes, off) n. report_at os Pwr op fd off n"
  by unfold_locales (auto simp: do_pwrite64_def pwrite64_init_def report_then report_quiet split_def cong: if_cong)

interpretation fread_call: passthru "\<lambda>os (sz, count, fp). fread os sz count fp" Fread_fread "''fread''" "''__fread''"
  "\<lambda>os. err os ''_fread''" "\<lambda>os (sz, count, fp) f. sys_fread os f sz count fp" "(u32 (- 1), [])"
  "\<lambda>os (sz, count, fp) (n, bytes). report_stream os Frd ''fread'' fp n"
  by unfold_locales (auto simp: fread_def fread_init_def report_then report_quiet split_def cong: if_cong)

interpretation fwrite_call: passthru "\<lambda>os (bytes, sz, count, fp). fwrite os bytes sz count fp"
  Fwrite_fwrite "''fwrite''" "''__fwrite''"
  "\<lambda>os. aloge os TAG_DBG ''NULL _fwrite!''" "\<lambda>os (bytes, sz, count, fp) f. sys_fwrite os f bytes sz count fp"
  "u32 (- 1)" "\<lambda>os (bytes, sz, count, fp) n. report_stream os Fwr ''fwrite'' fp n"
  by unfold_locales (auto simp: fwrite_def fwrite_init_def report_then report_quiet split_def cong: if_cong)

end
