(* ===== verification/Files.thy ===== *)
theory Files
  imports Rw
begin

unbundle bit_operations_syntax

text \<open>
  The interposed calls that create, name, remove and map files (\<open>open.c\<close>,
  \<open>fopen.c\<close>, \<open>rename.c\<close>, \<open>unlink.c\<close>, \<open>mmap.c\<close>).  Each calls the real function
  exactly once and reports what it did when the path is traced.
\<close>

section \<open>Absolute paths\<close>

text \<open>\<open>snprintf(&abs_path[ret], PATH_MAX - ret, "/%s", path)\<close> behind the directory's path.\<close>

definition abs_path :: "string \<Rightarrow> string \<Rightarrow> string" where
  "abs_path dir name = dir @ snprintf (PATH_MAX - length dir) (''/'' @ name)"

text \<open>\<open>ret = fd_to_path(fd, buf); if (ret > 0) snprintf(...)\<close>: the string in \<open>buf\<close> if there is one.\<close>

definition at_path :: "'w os \<Rightarrow> int \<Rightarrow> string \<Rightarrow> ('w proc, string option) exec" where
  "at_path os fd name =
     bnd (fd_to_path os fd) (\<lambda>r.
     case r of None \<Rightarrow> ret None
     | Some dir \<Rightarrow> ret (if dir = [] then None else Some (abs_path dir name)))"

text \<open>\<open>access(path, F_OK) == -1 && errno == ENOENT\<close>\<close>

definition missing :: "'w os \<Rightarrow> string \<Rightarrow> ('w proc, bool) exec" where
  "missing os p =
     bnd (sysc (sys_access os p)) (\<lambda>r.
     bnd (asks (errno os)) (\<lambda>e. ret (r = - 1 \<and> e = ENOENT)))"

section \<open>open.c\<close>

definition open_init :: "'w os \<Rightarrow> ('w proc, int) exec" where
  "open_init os = sym_init os Open_openat ''openat'' ''__open'' (err os ''_openat'')"

text \<open>\<open>if (ret != -1 && !exists && notify(ret, S_IFREG, path)) notify_create(op, path);\<close>\<close>

definition report_create :: "'w os \<Rightarrow> string \<Rightarrow> bool \<Rightarrow> int \<Rightarrow> string \<Rightarrow> ('w proc, unit) exec" where
  "report_create os op created r p =
     only_if (r \<noteq> - 1 \<and> created)
       (bnd (notify os r S_IFREG p) (\<lambda>m. only_if (m \<noteq> 0) (andthen (notify_create os op p) (ret ()))))"

definition do_openat :: "'w os \<Rightarrow> string \<Rightarrow> int \<Rightarrow> string \<Rightarrow> int \<Rightarrow> int \<Rightarrow> ('w proc, int) exec" where
  "do_openat os op fd p flags md =
     bnd (open_init os) (\<lambda>i.
     if i = - 1 then ret (- 1) else
     bnd (gets notify_v) (\<lambda>on.
     if on = 0 \<or> flags AND O_CREAT = 0
     then call Open_openat (\<lambda>f. sys_openat os f fd p flags md)
     else if fd = AT_FDCWD
     then bnd (missing os p) (\<lambda>created.
          bnd (call Open_openat (\<lambda>f. sys_openat os f AT_FDCWD p flags md)) (\<lambda>r.
          andthen (report_create os op created r p) (ret r)))
     else bnd (at_path os fd p) (\<lambda>ap.
          bnd (case ap of None \<Rightarrow> ret False | Some a \<Rightarrow> missing os a) (\<lambda>created.
          bnd (call Open_openat (\<lambda>f. sys_openat os f fd p flags md)) (\<lambda>r.
          andthen (case ap of None \<Rightarrow> ret () | Some a \<Rightarrow> report_create os op created r a) (ret r))))))"

definition creat :: "'w os \<Rightarrow> string \<Rightarrow> int \<Rightarrow> ('w proc, int) exec" where
  "creat os p md = do_openat os ''creat (create)'' AT_FDCWD p (O_CREAT OR O_TRUNC OR O_WRONLY) md"

text \<open>\<open>md\<close> is the optional argument; it is read only with \<open>O_CREAT\<close>.\<close>

definition open_file :: "'w os \<Rightarrow> string \<Rightarrow> int \<Rightarrow> int \<Rightarrow> ('w proc, int) exec" where
  "open_file os p flags md =
     do_openat os ''open (create)'' AT_FDCWD p flags (if flags AND O_CREAT \<noteq> 0 then md else 0)"

definition openat :: "'w os \<Rightarrow> int \<Rightarrow> string \<Rightarrow> int \<Rightarrow> int \<Rightarrow> ('w proc, int) exec" where
  "openat os fd p flags md =
     do_openat os ''openat (create)'' fd p flags (if flags AND O_CREAT \<noteq> 0 then md else 0)"

section \<open>fopen.c\<close>

definition fopen_init :: "'w os \<Rightarrow> ('w proc, int) exec" where
  "fopen_init os = sym_init os Fopen_fopen ''fopen'' ''__fopen'' (aloge os TAG_DBG ''NULL _fopen!'')"

definition fopen :: "'w os \<Rightarrow> string \<Rightarrow> string \<Rightarrow> ('w proc, nat) exec" where
  "fopen os p flags =
     bnd (fopen_init os) (\<lambda>i.
     if i = - 1 then ret 0 else
     bnd (if strstr flags ''w+'' \<or> strstr flags ''a+'' then missing os p else ret False) (\<lambda>created.
     bnd (call Fopen_fopen (\<lambda>f. sys_fopen os f p flags)) (\<lambda>fp.
     bnd (gets notify_v) (\<lambda>on.
     andthen
       (only_if (fp \<noteq> 0 \<and> created \<and> on \<noteq> 0)
         (bnd (asks (sys_fileno os fp)) (\<lambda>fd.
          bnd (notify os fd S_IFREG p) (\<lambda>m.
          only_if (m \<noteq> 0) (andthen (notify_create os ''fopen (create)'' p) (ret ()))))))
       (ret fp)))))"

section \<open>rename.c\<close>

definition rename_init :: "'w os \<Rightarrow> ('w proc, int) exec" where
  "rename_init os = sym_init os Rename_renameat ''renameat'' ''__renameat'' (err os ''_renameat'')"

text \<open>
  On the path with two directory descriptors the variable \<open>ret\<close> that held the
  result of the real call is reused for \<open>fd_to_path\<close>.
\<close>

definition do_renameat :: "'w os \<Rightarrow> string \<Rightarrow> int \<Rightarrow> string \<Rightarrow> int \<Rightarrow> string \<Rightarrow> ('w proc, int) exec" where
  "do_renameat os op fromfd from tofd to =
     bnd (rename_init os) (\<lambda>i.
     if i = - 1 then ret (- 1) else
     bnd (gets notify_v) (\<lambda>on.
     if on = 0 then call Rename_renameat (\<lambda>f. sys_renameat os f fromfd from tofd to)
     else if fromfd = AT_FDCWD
     then bnd (notify os (- 1) (S_IFDIR OR S_IFREG) from) (\<lambda>flag.
          bnd (call Rename_renameat (\<lambda>f. sys_renameat os f AT_FDCWD from tofd to)) (\<lambda>r.
          andthen (only_if (r = 0 \<and> flag \<noteq> 0) (andthen (notify_rename os op flag from to) (ret ()))) (ret r)))
     else bnd (at_path os fromfd from) (\<lambda>ap.
          bnd (case ap of None \<Rightarrow> ret 0 | Some a \<Rightarrow> notify os (- 1) (S_IFDIR OR S_IFREG) a) (\<lambda>flag.
          bnd (call Rename_renameat (\<lambda>f. sys_renameat os f fromfd from tofd to)) (\<lambda>r.
          case ap of None \<Rightarrow> ret r
          | Some a \<Rightarrow>
            if r = 0 \<and> flag \<noteq> 0
            then if tofd = AT_FDCWD then andthen (notify_rename os op flag a to) (ret r)
                 else bnd (fd_to_path os tofd) (\<lambda>d.
                      case d of None \<Rightarrow> andthen (notify_rename os op flag a to) (ret (- 1))
                      | Some dir \<Rightarrow>
                        andthen (notify_rename os op flag a (if dir = [] then to else abs_path dir to))
                                (ret (int (length dir))))
            else ret r)))))"

definition renameat :: "'w os \<Rightarrow> int \<Rightarrow> string \<Rightarrow> int \<Rightarrow> string \<Rightarrow> ('w proc, int) exec" where
  "renameat os fromfd from tofd to = do_renameat os ''renameat'' fromfd from tofd to"

definition rename :: "'w os \<Rightarrow> string \<Rightarrow> string \<Rightarrow> ('w proc, int) exec" where
  "rename os old new = do_renameat os ''rename'' AT_FDCWD old AT_FDCWD new"

section \<open>unlink.c\<close>

definition unlink_init :: "'w os \<Rightarrow> ('w proc, int) exec" where
  "unlink_init os = sym_init os Unlink_unlinkat ''unlinkat'' ''__unlinkat'' (err os ''_unlinkat'')"

text \<open>The real call is made with \<open>AT_FDCWD\<close> on both paths.\<close>

definition do_unlinkat :: "'w os \<Rightarrow> string \<Rightarrow> int \<Rightarrow> string \<Rightarrow> int \<Rightarrow> ('w proc, int) exec" where
  "do_unlinkat os op fd p flags =
     bnd (unlink_init os) (\<lambda>i.
     if i = - 1 then ret (- 1) else
     bnd (gets notify_v) (\<lambda>on.
     if on = 0 then call Unlink_unlinkat (\<lambda>f. sys_unlinkat os f fd p flags)
     else if fd = AT_FDCWD
     then bnd (notify os (- 1) (S_IFREG OR S_IFDIR) p) (\<lambda>flag.
          bnd (call Unlink_unlinkat (\<lambda>f. sys_unlinkat os f AT_FDCWD p flags)) (\<lambda>r.
          andthen (only_if (r = 0 \<and> flag \<noteq> 0) (andthen (notify_unlink os op flag p) (ret ()))) (ret r)))
     else bnd (at_path os fd p) (\<lambda>ap.
          bnd (case ap of None \<Rightarrow> ret 0 | Some a \<Rightarrow> notify os (- 1) (S_IFREG OR S_IFDIR) a) (\<lambda>flag.
          bnd (call Unlink_unlinkat (\<lambda>f. sys_unlinkat os f AT_FDCWD p flags)) (\<lambda>r.
          andthen (case ap of None \<Rightarrow> ret ()
                   | Some a \<Rightarrow> only_if (r = 0 \<and> flag \<noteq> 0) (andthen (notify_unlink os op flag a) (ret ())))
                  (ret r))))))"

definition unlinkat :: "'w os \<Rightarrow> int \<Rightarrow> string \<Rightarrow> int \<Rightarrow> ('w proc, int) exec" where
  "unlinkat os fd p flags = do_unlinkat os ''unlinkat'' fd p flags"

definition unlink :: "'w os \<Rightarrow> string \<Rightarrow> ('w proc, int) exec" where
  "unlink os p = do_unlinkat os ''unlink'' AT_FDCWD p 0"

section \<open>mmap.c\<close>

definition PROT_READ :: int where "PROT_READ = 1"
definition PROT_WRITE :: int where "PROT_WRITE = 2"
definition PROT_EXEC :: int where "PROT_EXEC = 4"
definition MAP_SHARED :: int where "MAP_SHARED = 1"
definition MAP_PRIVATE :: int where "MAP_PRIVATE = 2"
definition MAP_ANONYMOUS :: int where "MAP_ANONYMOUS = 32"
definition MAP_FAILED :: addr where "MAP_FAILED = - 1"

lemmas map_defs = PROT_READ_def PROT_WRITE_def PROT_EXEC_def MAP_SHARED_def MAP_PRIVATE_def
  MAP_ANONYMOUS_def MAP_FAILED_def

definition mmap_init :: "'w os \<Rightarrow> ('w proc, int) exec" where
  "mmap_init os = sym_init os Mmap_mmap64 ''mmap64'' ''__mmap64'' (aloge os TAG_IO ''NULL _mmap!'')"

definition upd_mmap :: "(mmap_vars \<Rightarrow> mmap_vars) \<Rightarrow> ('w proc, unit) exec" where
  "upd_mmap f = modify (\<lambda>s. s\<lparr>mmap_v := f (mmap_v s)\<rparr>)"

definition mmap_close :: "int \<Rightarrow> ('w proc, unit) exec" where
  "mmap_close fd =
     bnd (gets (\<lambda>s. last_mmap_fd (mmap_v s))) (\<lambda>last.
     only_if ((fd = - 1 \<and> last \<noteq> - 1) \<or> (fd \<noteq> - 1 \<and> fd = last))
       (upd_mmap (\<lambda>v. v\<lparr>last_mmap_fd := - 1\<rparr>)))"

definition prot_text :: "int \<Rightarrow> int \<Rightarrow> string" where
  "prot_text prot flags =
     [if prot AND PROT_READ \<noteq> 0 then CHR ''R'' else CHR ''-'',
      if prot AND PROT_WRITE \<noteq> 0 then CHR ''W'' else CHR ''-'',
      if prot AND PROT_EXEC \<noteq> 0 then CHR ''X'' else CHR ''-'',
      if flags AND MAP_SHARED \<noteq> 0 then CHR ''S''
      else if flags AND MAP_PRIVATE \<noteq> 0 then CHR ''P'' else CHR ''-'']"

definition prot_str :: "int \<Rightarrow> int \<Rightarrow> ('w proc, unit) exec" where
  "prot_str prot flags = upd_mmap (\<lambda>v. v\<lparr>protstr := prot_text prot flags\<rparr>)"

definition do_mmap64 ::
  "'w os \<Rightarrow> string \<Rightarrow> addr \<Rightarrow> nat \<Rightarrow> int \<Rightarrow> int \<Rightarrow> int \<Rightarrow> int \<Rightarrow> ('w proc, addr) exec" where
  "do_mmap64 os op addr len prot flags fd off =
     bnd (mmap_init os) (\<lambda>i.
     if i = - 1 then ret 0 else
     bnd (call Mmap_mmap64 (\<lambda>f. sys_mmap64 os f addr len prot flags fd off)) (\<lambda>r.
     bnd (gets notify_v) (\<lambda>on.
     andthen
       (only_if (r \<noteq> MAP_FAILED \<and> on \<noteq> 0 \<and> fd \<noteq> - 1 \<and> flags AND MAP_ANONYMOUS = 0)
         (bnd (fd_to_path os fd) (\<lambda>p.
          case p of None \<Rightarrow> ret ()
          | Some p \<Rightarrow>
            andthen (upd_mmap (\<lambda>v. v\<lparr>mmap_path := p\<rparr>)) (
            bnd (notify os fd S_IFREG p) (\<lambda>m.
            only_if (m \<noteq> 0) (
              andthen (prot_str prot flags) (
              bnd (gets (\<lambda>s. protstr (mmap_v s))) (\<lambda>ps.
              andthen (notify_mmap os op p r ps (int len) off) (ret ())))))))))
       (ret r))))"

definition mmap64 :: "'w os \<Rightarrow> addr \<Rightarrow> nat \<Rightarrow> int \<Rightarrow> int \<Rightarrow> int \<Rightarrow> int \<Rightarrow> ('w proc, addr) exec" where
  "mmap64 os addr len prot flags fd off = do_mmap64 os ''mmap64'' addr len prot flags fd off"

definition mmap :: "'w os \<Rightarrow> addr \<Rightarrow> nat \<Rightarrow> int \<Rightarrow> int \<Rightarrow> int \<Rightarrow> int \<Rightarrow> ('w proc, addr) exec" where
  "mmap os addr len prot flags fd off = do_mmap64 os ''mmap'' addr len prot flags fd off"

section \<open>Results\<close>

text \<open>\<open>sym_init\<close> when there is a real function.\<close>

lemma sym_init_run:
  "resolved os s v name alt \<noteq> 0 \<Longrightarrow> sym_init os v name alt m s =
     Some (Inr (0, s\<lparr>fptr := (fptr s)(v := resolved os s v name alt)\<rparr>))"
  by (simp add: sym_init_def bnd_def andthen_def load_sym_run gets_def ret_def)

text \<open>A call through a slot, whatever was done in between.\<close>

lemma call_value:
  "call v g s = Some (Inr (r, s')) \<Longrightarrow> r = fst (g (fptr s v) (world s)) \<and> fptr s v \<noteq> 0 \<and>
     s' = s\<lparr>world := snd (g (fptr s v) (world s))\<rparr>"
  by (auto simp: call_def bnd_def gets_def crash_def sysc_def split: if_splits prod.splits)

text \<open>An open that cannot create, or an untraced process: the real call and nothing else.\<close>

lemma do_openat_plain:
  assumes "resolved os s Open_openat ''openat'' ''__open'' \<noteq> 0" (is "?f \<noteq> 0")
    and "notify_v s = 0 \<or> flags AND O_CREAT = 0"
  shows "do_openat os op fd p flags md s = Some (Inr (fst (sys_openat os ?f fd p flags md (world s)),
    s\<lparr>fptr := (fptr s)(Open_openat := ?f), world := snd (sys_openat os ?f fd p flags md (world s))\<rparr>))"
  using assms
  by (simp add: do_openat_def open_init_def bnd_def sym_init_run gets_def call_def sysc_def split: prod.splits)

text \<open>What keeps the function pointers of the file calls.\<close>

lemma keeps_at_path [keep_rules]: "(\<And>s w. f (s\<lparr>world := w\<rparr>) = f s) \<Longrightarrow> keeps f (at_path os fd p)"
  unfolding at_path_def by (intro keep_rules)

lemma unlinkat_cwd:
  assumes f: "resolved os s Unlink_unlinkat ''unlinkat'' ''__unlinkat'' = g" "g \<noteq> 0" and on: "notify_v s \<noteq> 0"
    and run: "do_unlinkat os op fd p flags s = Some (Inr (r, s'))"
  shows "\<exists>w. r = fst (sys_unlinkat os g AT_FDCWD p flags w)"
proof -
  let ?s = "s\<lparr>fptr := (fptr s)(Unlink_unlinkat := g)\<rparr>"
  have k: "fptr s2 Unlink_unlinkat = g"
    if "keeps fptr m" "m ?s = Some (Inr (x, s2))" for m :: "('a proc, 'x) exec" and x s2
    using keepsD [OF that] by simp
  show ?thesis
  proof (cases "fd = AT_FDCWD")
    case True
    then have "bnd (notify os (- 1) (S_IFREG OR S_IFDIR) p) (\<lambda>flag.
          bnd (call Unlink_unlinkat (\<lambda>f. sys_unlinkat os f AT_FDCWD p flags)) (\<lambda>r.
          andthen (only_if (r = 0 \<and> flag \<noteq> 0) (andthen (notify_unlink os op flag p) (ret ()))) (ret r))) ?s
        = Some (Inr (r, s'))"
      using run f on by (simp add: do_unlinkat_def unlink_init_def bnd_Some [OF sym_init_run] bnd_gets)
    then obtain flag s1 r1 s2 where "notify os (- 1) (S_IFREG OR S_IFDIR) p ?s = Some (Inr (flag, s1))"
      and c: "call Unlink_unlinkat (\<lambda>f. sys_unlinkat os f AT_FDCWD p flags) s1 = Some (Inr (r1, s2))" "r = r1"
      by (auto simp: andthen_def ret_def elim!: bndE)
    then have "fptr s1 Unlink_unlinkat = g"
      by (intro k [of "notify os (- 1) (S_IFREG OR S_IFDIR) p"]) (auto intro!: keep_rules)
    then show ?thesis using call_value [OF c(1)] c(2) by auto
  next
    case False
    let ?m = "bnd (at_path os fd p) (\<lambda>ap.
          bnd (case ap of None \<Rightarrow> ret 0 | Some a \<Rightarrow> notify os (- 1) (S_IFREG OR S_IFDIR) a) (\<lambda>flag. ret (ap, flag)))"
    have "bnd ?m (\<lambda>(ap, flag).
          bnd (call Unlink_unlinkat (\<lambda>f. sys_unlinkat os f AT_FDCWD p flags)) (\<lambda>r.
          andthen (case ap of None \<Rightarrow> ret ()
                   | Some a \<Rightarrow> only_if (r = 0 \<and> flag \<noteq> 0) (andthen (notify_unlink os op flag a) (ret ())))
                  (ret r))) ?s = Some (Inr (r, s'))"
      using run f on False by (simp add: do_unlinkat_def unlink_init_def bnd_Some [OF sym_init_run] bnd_gets bnd_assoc)
    then obtain x s1 where m: "?m ?s = Some (Inr (x, s1))"
      and rest: "(case x of (ap, flag) \<Rightarrow>
          bnd (call Unlink_unlinkat (\<lambda>f. sys_unlinkat os f AT_FDCWD p flags)) (\<lambda>r.
          andthen (case ap of None \<Rightarrow> ret ()
                   | Some a \<Rightarrow> only_if (r = 0 \<and> flag \<noteq> 0) (andthen (notify_unlink os op flag a) (ret ())))
                  (ret r))) s1 = Some (Inr (r, s'))"
      by (rule bndE)
    from rest obtain r1 s2 where
      c: "call Unlink_unlinkat (\<lambda>f. sys_unlinkat os f AT_FDCWD p flags) s1 = Some (Inr (r1, s2))" "r = r1"
      by (auto simp: andthen_def ret_def split: prod.splits elim!: bndE)
    have km: "keeps fptr ?m" by (auto intro!: keep_rules)
    have "fptr s1 Unlink_unlinkat = g" by (rule k [OF km m])
    then show ?thesis using call_value [OF c(1)] c(2) by auto
  qed
qed

text \<open>
  A successful \<open>renameat\<close> between two directory descriptors: what comes back is the
  length of the target directory's path.
\<close>

lemma renameat_two_dirs:
  assumes f: "resolved os s Rename_renameat ''renameat'' ''__renameat'' = g" "g \<noteq> 0"
    and on: "notify_v s \<noteq> 0" and fds: "fromfd \<noteq> AT_FDCWD" "tofd \<noteq> AT_FDCWD"
    and at: "at_path os fromfd from (s\<lparr>fptr := (fptr s)(Rename_renameat := g)\<rparr>) = Some (Inr (Some a, s1))"
    and nt: "notify os (- 1) (S_IFDIR OR S_IFREG) a s1 = Some (Inr (flag, s2))" "flag \<noteq> 0"
    and ok: "fst (sys_renameat os g fromfd from tofd to (world s2)) = 0"
    and to: "fd_to_path os tofd (s2\<lparr>world := snd (sys_renameat os g fromfd from tofd to (world s2))\<rparr>) =
      Some (Inr (Some dir, s3))"
    and rn: "notify_rename os op flag a (if dir = [] then to else abs_path dir to) s3 = Some (Inr (x, s4))"
  shows "do_renameat os op fromfd from tofd to s = Some (Inr (int (length dir), s4))"
proof -
  have "fptr s1 = (fptr s)(Rename_renameat := g)"
  proof -
    have "keeps fptr (at_path os fromfd from)" by (intro keep_rules) simp
    from keepsD [OF this at] show ?thesis by simp
  qed
  moreover have "fptr s2 = fptr s1"
  proof -
    have "keeps fptr (notify os (- 1) (S_IFDIR OR S_IFREG) a)" by (intro keep_rules) simp_all
    from keepsD [OF this nt(1)] show ?thesis .
  qed
  ultimately have fg: "fptr s2 Rename_renameat = g" by simp
  let ?w = "snd (sys_renameat os g fromfd from tofd to (world s2))"
  have c: "call Rename_renameat (\<lambda>f. sys_renameat os f fromfd from tofd to) s2 =
      Some (Inr (0, s2\<lparr>world := ?w\<rparr>))"
    using f ok
    by (cases "sys_renameat os g fromfd from tofd to (world s2)") (simp add: call_def bnd_def gets_def sysc_def fg)
  show ?thesis
    using f on fds at nt(2) rn
    by (simp add: do_renameat_def rename_init_def bnd_Some [OF sym_init_run] bnd_gets)
      (simp add: bnd_def nt(1) c to andthen_def ret_def)
qed

end
