(* ===== verification/Close.thy ===== *)
theory Close
  imports Files
begin

unbundle bit_operations_syntax

text \<open>
  Closing descriptors (\<open>close.c\<close>): before a descriptor goes away every channel that
  is batching accesses to it writes its batch out.  The contract the seven
  \<open>*_close\<close> functions share is the locale \<open>closer\<close>.
\<close>

section \<open>The functions\<close>

definition close_common :: "'w os \<Rightarrow> int \<Rightarrow> ('w proc, unit) exec" where
  "close_common os fd =
     andthen (read_close os fd) (
     andthen (pread64_close os fd) (
     andthen (fread_close os fd) (
     andthen (write_close os fd) (
     andthen (fwrite_close os fd) (
     andthen (pwrite64_close os fd)
             (mmap_close fd))))))"

definition fclose_init :: "'w os \<Rightarrow> ('w proc, unit) exec" where
  "fclose_init os = load_sym os Close_fclose ''fclose'' ''__fclose''"

definition fclose :: "'w os \<Rightarrow> nat \<Rightarrow> ('w proc, int) exec" where
  "fclose os fp =
     andthen (fclose_init os) (
     bnd (gets (\<lambda>s. fptr s Close_fclose)) (\<lambda>f.
     if f = 0 then andthen (seterr os EIO) (andthen (aloge os TAG_DBG ''NULL _fclose!'') (ret (- 1))) else
     bnd (asks (sys_fileno os fp)) (\<lambda>fd.
     bnd (gets notify_v) (\<lambda>on.
     andthen (only_if (fd \<noteq> - 1 \<and> on \<noteq> 0) (close_common os fd))
             (call Close_fclose (\<lambda>f. sys_fclose os f fp))))))"

definition close_init :: "'w os \<Rightarrow> ('w proc, unit) exec" where
  "close_init os = load_sym os Close_close ''close'' ''__close''"

definition close_fd :: "'w os \<Rightarrow> int \<Rightarrow> ('w proc, int) exec" where
  "close_fd os fd =
     andthen (close_init os) (
     bnd (gets (\<lambda>s. fptr s Close_close)) (\<lambda>f.
     if f = 0 then andthen (seterr os EIO) (andthen (aloge os TAG_DBG ''NULL _close!'') (ret (- 1))) else
     bnd (gets notify_v) (\<lambda>on.
     andthen (only_if (fd \<noteq> - 1 \<and> on \<noteq> 0) (close_common os fd))
             (call Close_close (\<lambda>f. sys_close os f fd)))))"

section \<open>The contract of the closing functions\<close>

text \<open>A descriptor variable that no longer refers to \<open>fd\<close> (to any descriptor for \<open>fd = -1\<close>).\<close>

definition forgotten :: "int \<Rightarrow> int \<Rightarrow> bool" where
  "forgotten fd l \<longleftrightarrow> l = - 1 \<or> (fd \<noteq> - 1 \<and> l \<noteq> fd)"

text \<open>The descriptor variables of the tracer: one per channel and the one of \<open>mmap.c\<close>.\<close>

datatype fdvar = Chan chanid | Mmap

fun fd_of :: "fdvar \<Rightarrow> 'w proc \<Rightarrow> int" where
  "fd_of (Chan c) s = last_fd (chans s c)"
| "fd_of Mmap s = last_mmap_fd (mmap_v s)"

locale closer =
  fixes cl :: "'w os \<Rightarrow> int \<Rightarrow> ('w proc, unit) exec" and v :: fdvar
  assumes drops: "cl os fd s = Some (Inr (x, s')) \<Longrightarrow> forgotten fd (fd_of v s')"
    and frame: "u \<noteq> v \<Longrightarrow> keeps (fd_of u) (cl os fd)"
    and idle: "forgotten fd (fd_of v s) \<Longrightarrow> cl os fd s = Some (Inr ((), s))"
begin

text \<open>No closing function makes another variable remember.\<close>

lemma keeps_forgotten:
  assumes "cl os fd s = Some (Inr (x, s'))" and "forgotten fd (fd_of u s)"
  shows "forgotten fd (fd_of u s')"
proof (cases "u = v")
  case True
  then show ?thesis using drops [OF assms(1)] by simp
next
  case False
  then show ?thesis using keepsD [OF frame assms(1)] assms(2) by simp
qed

text \<open>Closing twice is closing once.\<close>

lemma twice:
  assumes "cl os fd s = Some (Inr (x, s'))"
  shows "cl os fd s' = Some (Inr ((), s'))"
  using drops [OF assms] by (rule idle)

end

lemma rw_close_drops: "rw_close os c op fd s = Some (Inr (x, s')) \<Longrightarrow> forgotten fd (last_fd (chans s' c))"
  by (auto simp: rw_close_def gets_def ret_def upd_chan_def modify_def forgotten_def
      elim!: bndE split: if_splits)

lemma keeps_rw_close:
  assumes "indep_rec f" and "\<And>s ch. f (s\<lparr>chans := (chans s)(c := ch)\<rparr>) = f s"
  shows "keeps f (rw_close os c op fd)"
  unfolding rw_close_def upd_chan_def using assms by (intro keep_rules) simp_all

lemma keeps_close_common: "indep_rec f \<Longrightarrow> (\<And>s h. f (s\<lparr>chans := h\<rparr>) = f s) \<Longrightarrow>
    (\<And>s v. f (s\<lparr>mmap_v := v\<rparr>) = f s) \<Longrightarrow> keeps f (close_common os fd)"
  unfolding close_common_def read_close_def pread64_close_def fread_close_def write_close_def
    fwrite_close_def pwrite64_close_def mmap_close_def upd_mmap_def
  by (intro keep_rules keeps_rw_close) simp_all

lemma rw_close_frame: "u \<noteq> Chan c \<Longrightarrow> keeps (fd_of u) (rw_close os c op fd)"
  by (cases u) (auto simp: indep_rec_simps intro!: keeps_rw_close)

lemma rw_close_idle:
  "forgotten fd (last_fd (chans s c)) \<Longrightarrow> rw_close os c op fd s = Some (Inr ((), s))"
  by (auto simp: rw_close_def bnd_gets forgotten_def ret_def)

lemma mmap_close_laws:
  "mmap_close fd s = Some (Inr (x, s')) \<Longrightarrow> forgotten fd (last_mmap_fd (mmap_v s'))"
  "u \<noteq> Mmap \<Longrightarrow> keeps (fd_of u) (mmap_close fd)"
  "forgotten fd (last_mmap_fd (mmap_v s)) \<Longrightarrow> mmap_close fd s = Some (Inr ((), s))"
  by (auto simp: mmap_close_def upd_mmap_def exec_defs forgotten_def keeps_def split: if_splits)
    (cases u; auto)+

interpretation rd: closer read_close "Chan Rd"
  by unfold_locales (auto simp: read_close_def rw_close_drops rw_close_frame rw_close_idle)

interpretation prd: closer pread64_close "Chan Prd"
  by unfold_locales (auto simp: pread64_close_def rw_close_drops rw_close_frame rw_close_idle)

interpretation frd: closer fread_close "Chan Frd"
  by unfold_locales (auto simp: fread_close_def rw_close_drops rw_close_frame rw_close_idle)

interpretation wr: closer write_close "Chan Wr"
  by unfold_locales (auto simp: write_close_def rw_close_drops rw_close_frame rw_close_idle)

interpretation fwr: closer fwrite_close "Chan Fwr"
  by unfold_locales (auto simp: fwrite_close_def rw_close_drops rw_close_frame rw_close_idle)

interpretation pwr: closer pwrite64_close "Chan Pwr"
  by unfold_locales (auto simp: pwrite64_close_def rw_close_drops rw_close_frame rw_close_idle)

interpretation mm: closer "\<lambda>_. mmap_close" Mmap
  by unfold_locales (auto simp: mmap_close_laws)

text \<open>After \<open>close_common\<close> no variable refers to the descriptor.\<close>

lemma close_common_forgets:
  assumes "close_common os fd s = Some (Inr (x, s'))"
  shows "forgotten fd (fd_of u s')"
proof -
  obtain x1 s1 x2 s2 x3 s3 x4 s4 x5 s5 x6 s6 where
    1: "read_close os fd s = Some (Inr (x1, s1))" and 2: "pread64_close os fd s1 = Some (Inr (x2, s2))"
    and 3: "fread_close os fd s2 = Some (Inr (x3, s3))" and 4: "write_close os fd s3 = Some (Inr (x4, s4))"
    and 5: "fwrite_close os fd s4 = Some (Inr (x5, s5))" and 6: "pwrite64_close os fd s5 = Some (Inr (x6, s6))"
    and 7: "mmap_close fd s6 = Some (Inr (x, s'))"
    using assms unfolding close_common_def andthen_def by (elim bndE) (rule that; assumption)
  note drops = rd.drops [OF 1] prd.drops [OF 2] frd.drops [OF 3] wr.drops [OF 4] fwr.drops [OF 5]
    pwr.drops [OF 6] mm.drops [OF 7]
  note keeps = rd.keeps_forgotten [OF 1] prd.keeps_forgotten [OF 2] frd.keeps_forgotten [OF 3]
    wr.keeps_forgotten [OF 4] fwr.keeps_forgotten [OF 5] pwr.keeps_forgotten [OF 6] mm.keeps_forgotten [OF 7]
  show ?thesis
  proof (cases u)
    case (Chan c)
    then show ?thesis using drops keeps by (cases c) blast+
  next
    case Mmap
    then show ?thesis using drops(7) by simp
  qed
qed

end
