(* ===== verification/Channels.thy ===== *)
theory Channels
  imports Close
begin

text \<open>
  The invariant of the batching variables.  \<open>Batch\<close> shows what one call does to a batch; here
  is the property of a channel that every call keeps, whatever the kernel answers and also
  where the code goes wrong (a full access string, a channel moved to another file): the block
  range of a pending batch covers every access of its access string, its size is not zero and
  does not wrap, and the string fits its array.
\<close>

section \<open>The invariant\<close>

text \<open>What a reader of a report relies on, as a test of the variables alone.\<close>

definition chan_sound :: "chan \<Rightarrow> bool" where
  "chan_sound ch \<longleftrightarrow> length (path ch) < PATH_MAX \<and> (last_fd ch = - 1 \<or>
     0 \<le> last_fd ch \<and> 0 \<le> last_off ch \<and> 0 < last_size ch \<and> last_size ch < 2 ^ 32 \<and>
     length (iostr ch) < IOSTR_BUFSIZE \<and> parse_iostr (iostr ch) \<noteq> [] \<and>
     list_all (\<lambda>(sz, off). last_off ch \<le> blk_start off \<and> blk_end off sz < last_off ch + last_size ch)
       (parse_iostr (iostr ch)))"

text \<open>
  What the calls keep.  One access spans at most \<open>span\<close> blocks, so the number of accesses
  bounds the range; the accesses are bounded by the string.  A batch restarted with a full
  string may span one access more than it lists.
\<close>

definition span :: int where
  "span = 524290"

definition bounded :: "batch \<Rightarrow> bool" where
  "bounded b = (case b of (lo, hi, as) \<Rightarrow>
     hi < 2 ^ 50 + 2 ^ 21 \<and> hi - lo + 1 \<le> (int (length as) + 1) * span \<and>
     (\<forall>(sz, off)\<in>set as. 0 \<le> sz \<and> 0 \<le> off \<and> lo \<le> blk_start off \<and> blk_end off sz \<le> hi))"

definition pending :: "chan \<Rightarrow> bool" where
  "pending ch \<longleftrightarrow> (\<exists>b. chan_is ch (last_fd ch) b \<and> bounded b)"

definition chan_inv :: "chan \<Rightarrow> bool" where
  "chan_inv ch \<longleftrightarrow> length (path ch) < PATH_MAX \<and> (last_fd ch = - 1 \<or> pending ch)"

lemma chan_inv_sound:
  assumes "chan_inv ch" shows "chan_sound ch"
proof (cases "last_fd ch = - 1")
  case True
  then show ?thesis using assms by (simp add: chan_inv_def chan_sound_def)
next
  case False
  then obtain lo hi as where ci: "chan_is ch (last_fd ch) (lo, hi, as)" and b: "bounded (lo, hi, as)"
    using assms by (auto simp: chan_inv_def pending_def)
  have "\<forall>(sz, off)\<in>set as. 0 \<le> sz \<and> 0 \<le> off" using b by (auto simp: bounded_def)
  then have "parse_iostr (iostr ch) = as" by (simp add: chan_isD(4) [OF ci] parse_io_string)
  moreover have "as \<noteq> []" "length (iostr ch) < IOSTR_BUFSIZE"
    using ci by (simp_all add: chan_is_def batch_ok_def chan_isD(4) [OF ci])
  ultimately show ?thesis
    using assms chan_isD [OF ci] b by (auto simp: chan_inv_def chan_sound_def bounded_def list_all_iff)
qed

section \<open>Bounds\<close>

lemma access_span:
  assumes "access_ok fd sz off"
  shows "blk_end off sz - blk_start off + 1 \<le> span" and "blk_end off sz < 2 ^ 50 + 2 ^ 20"
proof -
  have d: "off \<le> 4096 * (off div 4096) + 4095" "4096 * ((off + sz + 4094) div 4096) \<le> off + sz + 4094"
    by simp_all
  show "blk_end off sz - blk_start off + 1 \<le> span"
    using d assms unfolding blk_end_num [OF assms] blk_start_num span_def access_ok_def by (simp; linarith)
  show "blk_end off sz < 2 ^ 50 + 2 ^ 20"
    using d assms unfolding blk_end_num [OF assms] access_ok_def by (simp; linarith)
qed

lemma length_io_string: "4 * length as \<le> length (io_string as)"
proof (induction as)
  case (Cons a as)
  obtain sz off where a: "a = (sz, off)" by (cases a)
  have "1 \<le> length (dec_nat n)" for n by (simp add: Suc_le_eq)
  from this [of "nat sz"] this [of "nat off"] have "4 \<le> length (io_entry sz off)"
    unfolding io_entry_def by simp
  then show ?case using Cons.IH by (simp add: io_string_def a)
qed (simp add: io_string_def)

text \<open>A batch with a bounded range whose accesses fit the string is a good one.\<close>

lemma bounded_ok:
  assumes "bounded (lo, hi, as)" "0 \<le> lo" "lo \<le> hi" "as \<noteq> []" "length (io_string as) < IOSTR_BUFSIZE"
  shows "batch_ok (lo, hi, as)"
proof -
  have "int (length as) < 1024" using length_io_string [of as] assms(5) by (simp add: size_defs)
  then have "(int (length as) + 1) * span \<le> 1024 * span" by (simp add: span_def)
  then show ?thesis using assms by (simp add: bounded_def batch_ok_def span_def)
qed

lemma single_bounded:
  assumes "access_ok fd sz off" shows "bounded (single (sz, off))"
  using access_span [OF assms] assms by (simp add: bounded_def single_def span_def access_ok_def)

lemma merge_bounded:
  assumes b: "bounded (lo, hi, as)" and ac: "access_ok fd sz off" and t: "touches (lo, hi, as) (sz, off)"
    and le: "lo \<le> hi"
  shows "bounded (merge (lo, hi, as) (sz, off))"
proof -
  note n = blk_nums [OF ac] and s = access_span [OF ac]
  have near: "blk_start off \<le> hi + 1" "lo - 1 \<le> blk_end off sz" using t by (simp_all add: touches_def)
  have w: "hi - lo + 1 \<le> (int (length as) + 1) * span" using b by (simp add: bounded_def)
  have "max hi (blk_end off sz) - min lo (blk_start off) + 1
      \<le> (hi - lo + 1) + (blk_end off sz - blk_start off + 1)"
    using near n le by (auto simp: max_def min_def)
  also have "\<dots> \<le> (int (length (as @ [(sz, off)])) + 1) * span"
    using w s(1) by (simp add: span_def)
  finally show ?thesis
    using b ac s(2) by (fastforce simp: bounded_def merge_def access_ok_def min.coboundedI1 max.coboundedI1)
qed

text \<open>
  When a full string restarts the batch with the current access, the cases that follow still
  compare with the old range; the restarted range only grows, by at most one access.
\<close>

lemma grow_batch_restart:
  assumes "lo \<le> hi" "cs \<le> ce" "cs \<le> hi + 1" "lo - 1 \<le> ce" "0 \<le> cs" "ce - cs + 1 \<le> span"
    and "last_off (chans s c) = cs" "last_size (chans s c) = ce - cs + 1"
  shows "\<exists>hi'. ce \<le> hi' \<and> hi' - ce \<le> ce - cs + 1 \<and> grow_batch c lo hi cs ce s =
    Some (Inr (0, set_chan c ((chans s c)\<lparr>last_off := cs, last_size := hi' - cs + 1\<rparr>) s))"
proof -
  note defs = grow_batch_def ret_def andthen_def bnd_def set_chan_def upd_chan_def modify_def
  have same: "(chans s c)\<lparr>last_off := cs, last_size := ce - cs + 1\<rparr> = chans s c"
    using assms(7,8) by (cases "chans s c") simp
  have same_off: "(chans s c)\<lparr>last_off := cs\<rparr> = chans s c"
    using assms(7) by (cases "chans s c") simp
  consider (within) "lo \<le> cs" "ce \<le> hi" | (up) "lo \<le> cs" "hi < ce" | (around) "cs < lo" "hi \<le> ce"
    | (down) "cs < lo" "ce < hi"
    by linarith
  then show ?thesis
  proof cases
    case within
    then have "grow_batch c lo hi cs ce s = Some (Inr (0, set_chan c (chans s c) s))"
      by (simp add: grow_batch_def ret_def set_chan_def)
    then show ?thesis using assms(2) by (intro exI [of _ ce]) (simp add: same)
  next
    case up
    then have "\<not> (lo \<le> cs \<and> ce \<le> hi)" "lo \<le> cs \<and> cs \<le> hi + 1 \<and> hi + 1 \<le> ce"
      "u32 (ce - cs + 1 + (ce - hi)) = ce + (ce - hi) - cs + 1" "ce - hi \<le> ce - cs + 1"
      using assms by (auto simp: span_def)
    then show ?thesis using assms(7,8) up
      by (intro exI [of _ "ce + (ce - hi)"]) (simp add: defs same_off)
  next
    case around
    then have "\<not> lo \<le> cs" "cs \<le> lo \<and> hi \<le> ce" "u32 (ce - cs + 1) = ce - cs + 1"
      using assms by (auto simp: span_def)
    then show ?thesis using assms by (intro exI [of _ ce]) (simp add: defs)
  next
    case down
    then have "\<not> lo \<le> cs" "\<not> hi \<le> ce" "cs < lo \<and> lo - 1 \<le> ce \<and> ce \<le> hi"
      "u32 (ce - cs + 1 + (lo - cs)) = ce + (lo - cs) - cs + 1" "lo - cs \<le> ce - cs + 1"
      using assms by (auto simp: span_def)
    then show ?thesis using assms(8) down by (intro exI [of _ "ce + (lo - cs)"]) (simp add: defs)
  qed
qed


section \<open>The batching functions\<close>

text \<open>Both functions leave the other channels alone and keep the invariant of theirs.\<close>

definition chan_step :: "chanid \<Rightarrow> (chan \<Rightarrow> bool) \<Rightarrow> 'w proc \<Rightarrow> 'w proc \<Rightarrow> bool" where
  "chan_step c P s s' \<longleftrightarrow> P (chans s' c) \<and> path (chans s' c) = path (chans s c) \<and>
     (\<forall>d. d \<noteq> c \<longrightarrow> chans s' d = chans s d)"

lemma pending_with_batch:
  "0 \<le> fd \<Longrightarrow> batch_ok b \<Longrightarrow> bounded b \<Longrightarrow> pending (with_batch fd b ch)"
  unfolding pending_def using chan_is_with_batch [of fd b ch]
  by (cases b) (auto simp: with_batch_def chan_isD(1))

lemma chan_step_with_batch:
  assumes "s' = set_chan c (with_batch fd b (chans s c)) s1" and "chans s1 = chans s"
    and "0 \<le> fd" "batch_ok b" "bounded b"
  shows "chan_step c pending s s'"
  using assms pending_with_batch [of fd b "chans s c"] by (cases b) (simp add: chan_step_def with_batch_def)

lemma notify_chans: "notify_read_write os op p fd n off str s = Some (Inr (t, s')) \<Longrightarrow> chans s' = chans s"
  by (rule keepsD [OF keeps_notify_read_write]) (simp_all add: indep_rec_simps)

lemma batch_notify_pending:
  assumes ac: "access_ok fd sz off"
    and run: "batch_read_write_notify os c op fd (blk_start off) (blk_end off sz) sz off s = Some (Inr (x, s'))"
  shows "\<exists>s1. chans s1 = chans s \<and> s' = set_chan c (with_batch fd (single (sz, off)) (chans s c)) s1"
proof -
  have sn: "snprintf IOSTR_BUFSIZE (io_entry sz off) = io_entry sz off"
    using length_io_entry [OF ac] by (simp add: snprintf_def size_defs)
  show ?thesis
    using run batch_size_u32 [OF ac] sn
    by (auto simp: batch_read_write_notify_def andthen_def bnd_gets upd_chan_def modify_def ret_def
        set_chan_def with_batch_def single_def io_string_def elim!: bndE split: if_splits dest!: notify_chans)
qed

text \<open>An access that touches a batch whose string is full.\<close>

lemma batch_full_pending:
  assumes ci: "chan_is (chans s c) fd (lo, hi, as)" and ac: "access_ok fd sz off"
    and t: "touches (lo, hi, as) (sz, off)" and full: "IOSTR_BUFSIZE \<le> length (io_string as) + 64"
    and run: "batch_read_write_first os c op fd sz off s = Some (Inr (x, s'))"
  shows "x = 0 \<and> chan_step c pending s s'"
proof -
  note d = chan_isD [OF ci] and n = blk_nums [OF ac] and sp = access_span [OF ac]
  let ?cs = "blk_start off" and ?ce = "blk_end off sz"
  have near: "?cs \<le> hi + 1" "lo - 1 \<le> ?ce" using t by (simp_all add: touches_def)
  obtain y s1 where r: "record_iostr os c op fd ?cs ?ce sz off s = Some (Inr (y, s1))"
    and g: "grow_batch c lo hi ?cs ?ce s1 = Some (Inr (x, s'))"
    using run unfolding batch_first_grows [OF ci ac t] by (elim bndE)
  have "batch_read_write_notify os c op fd ?cs ?ce sz off s = Some (Inr (y, s1))"
    using r full d(4) by (simp add: record_iostr_def bnd_gets Let_def)
  then obtain s2 where s2: "chans s2 = chans s" "s1 = set_chan c (with_batch fd (single (sz, off)) (chans s c)) s2"
    using batch_notify_pending [OF ac] by blast
  have at: "last_off (chans s1 c) = ?cs" "last_size (chans s1 c) = ?ce - ?cs + 1"
    by (simp_all add: s2 with_batch_def single_def)
  obtain h where h: "?ce \<le> h" "h - ?ce \<le> ?ce - ?cs + 1"
    and s': "x = 0" "s' = set_chan c ((chans s1 c)\<lparr>last_off := ?cs, last_size := h - ?cs + 1\<rparr>) s1"
    using grow_batch_restart [OF d(6) n(2) near n(1) sp(1) at] g by auto
  have "s' = set_chan c (with_batch fd (?cs, h, [(sz, off)]) (chans s c)) s2"
    unfolding s' by (cases "chans s c") (simp add: s2 with_batch_def single_def io_string_def)
  moreover have b: "bounded (?cs, h, [(sz, off)])"
    using h sp ac by (simp add: bounded_def span_def access_ok_def)
  moreover have "batch_ok (?cs, h, [(sz, off)])"
    using n h length_io_entry [OF ac] by (intro bounded_ok b) (simp_all add: io_string_def size_defs)
  ultimately show ?thesis using chan_step_with_batch [OF _ s2(1) d(9)] s'(1) by blast
qed

lemma merge_ok:
  assumes ci: "chan_is ch fd (lo, hi, as)" and b: "bounded (lo, hi, as)" and ac: "access_ok fd sz off"
    and t: "touches (lo, hi, as) (sz, off)" and room: "length (io_string as) + 64 < IOSTR_BUFSIZE"
  shows "batch_ok (merge (lo, hi, as) (sz, off))"
proof -
  note d = chan_isD [OF ci] and n = blk_nums [OF ac]
  have "length (io_string as @ io_entry sz off) < IOSTR_BUFSIZE" using room length_io_entry [OF ac] by simp
  then show ?thesis
    using merge_bounded [OF b ac t d(6)] d(5,6) n
    by (simp add: merge_def, intro bounded_ok) (simp_all add: io_string_snoc max.coboundedI1 min.coboundedI1)
qed

lemma batch_first_pending:
  assumes inv: "pending (chans s c)" and fd: "last_fd (chans s c) = fd" and ac: "access_ok fd sz off"
    and run: "batch_read_write_first os c op fd sz off s = Some (Inr (x, s'))"
  shows "x = 0 \<and> chan_step c pending s s'"
proof -
  obtain lo hi as where ci: "chan_is (chans s c) fd (lo, hi, as)" and b: "bounded (lo, hi, as)"
    using inv fd by (auto simp: pending_def)
  note d = chan_isD [OF ci]
  consider (far) "\<not> touches (lo, hi, as) (sz, off)"
    | (full) "touches (lo, hi, as) (sz, off)" "IOSTR_BUFSIZE \<le> length (io_string as) + 64"
    | (room) "touches (lo, hi, as) (sz, off)" "length (io_string as) + 64 < IOSTR_BUFSIZE"
    by linarith
  then show ?thesis
  proof cases
    case far
    obtain y s1 where m: "batch_read_write_notify os c op fd (blk_start off) (blk_end off sz) sz off s =
        Some (Inr (y, s1))" and x: "ret 0 s1 = Some (Inr (x, s'))"
      using run unfolding batch_first_apart [OF ci ac far] by (elim bndE)
    show ?thesis
      using batch_notify_pending [OF ac m] x
        chan_step_with_batch [OF _ _ d(9) single_ok [OF ac] single_bounded [OF ac]] by (auto simp: ret_def)
  next
    case full
    then show ?thesis using batch_full_pending [OF ci ac _ _ run] by simp
  next
    case room
    note ok = merge_ok [OF ci b ac room] merge_bounded [OF b ac room(1) d(6)]
    have "batch_read_write_first os c op fd sz off s =
        Some (Inr (0, set_chan c (with_batch fd (merge (lo, hi, as) (sz, off)) (chans s c)) s))"
      using room(2) d(4) by (intro batch_first_touches [OF ci ac room(1) ok(1)]) simp
    then show ?thesis using run chan_step_with_batch [OF _ refl d(9) ok] by auto
  qed
qed


section \<open>The interposers\<close>

definition chans_inv :: "(chanid \<Rightarrow> chan) \<Rightarrow> bool" where
  "chans_inv h \<longleftrightarrow> (\<forall>c. chan_inv (h c))"

text \<open>\<open>upholds m\<close>: a returning run of \<open>m\<close> keeps the invariant of all channels.\<close>

abbreviation upholds :: "('w proc, 'a) exec \<Rightarrow> bool" where
  "upholds \<equiv> preserves (\<lambda>s. chans_inv (chans s))"

lemmas upholds_keeps = preserves_keeps [of chans _ chans_inv]

lemma upholds_sysc:
  "upholds (sysc g)" "upholds (call v f)" "upholds (seterr os e)"
  "upholds (aloge os tag txt)" "upholds (load_sym os v name alt)"
  by (intro upholds_keeps keep_rules; simp)+

lemma chans_inv_step:
  "chans_inv (chans s) \<Longrightarrow> chan_step c pending s s' \<Longrightarrow> chans_inv (chans s')"
  by (auto simp: chans_inv_def chan_step_def chan_inv_def) (metis)+

lemma upholds_first:
  assumes "\<not> (fd < 0 \<or> sz = 0 \<or> off < 0) \<Longrightarrow> access_ok fd sz off"
    and "batch_read_write_first os c op fd sz off s = Some (Inr (x, s'))"
    and "chans_inv (chans s)" "last_fd (chans s c) = fd"
  shows "chans_inv (chans s')"
proof (cases "fd < 0 \<or> sz = 0 \<or> off < 0")
  case True
  have "upholds (batch_read_write_first os c op fd sz off)"
    unfolding batch_read_write_first_def if_P [OF True] by (intro pres_rules upholds_sysc)
  from preservesD [OF this assms(2,3)] show ?thesis .
next
  case False
  then have "pending (chans s c)"
    using assms(3) [unfolded chans_inv_def, THEN spec, of c] assms(4) by (auto simp: chan_inv_def)
  from batch_first_pending [OF this assms(4) assms(1) [OF False] assms(2)] show ?thesis
    using chans_inv_step [OF assms(3)] by blast
qed

lemma upholds_second:
  assumes "\<not> (fd < 0 \<or> sz = 0 \<or> off < 0) \<Longrightarrow> access_ok fd sz off"
  shows "upholds (batch_read_write_second os c op fd sz off)"
proof (cases "fd < 0 \<or> sz = 0 \<or> off < 0")
  case True
  show ?thesis unfolding batch_read_write_second_def if_P [OF True] by (intro pres_rules upholds_sysc)
next
  case False
  note ac = assms [OF this]
  show ?thesis
  proof (rule preservesI)
    fix s :: "'a proc" and x s'
    assume "batch_read_write_second os c op fd sz off s = Some (Inr (x, s'))" and i: "chans_inv (chans s)"
    then have "batch_read_write_notify os c op fd (blk_start off) (blk_end off sz) sz off s = Some (Inr (x, s'))"
      using False by (simp add: batch_read_write_second_def)
    from batch_notify_pending [OF ac this] obtain s1 where
      s1: "chans s1 = chans s" "s' = set_chan c (with_batch fd (single (sz, off)) (chans s c)) s1" by blast
    have "0 \<le> fd" using ac by (simp add: access_ok_def)
    then have "chan_step c pending s s'"
      by (rule chan_step_with_batch [OF s1(2,1) _ single_ok [OF ac] single_bounded [OF ac]])
    then show "chans_inv (chans s')" by (rule chans_inv_step [OF i])
  qed
qed


text \<open>Moving a channel to another file changes its path only.\<close>

lemma pending_path [simp]: "pending (ch\<lparr>path := p\<rparr>) = pending ch"
proof -
  have "chan_is (ch\<lparr>path := p\<rparr>) fd b \<longleftrightarrow> chan_is ch fd b" for fd b
    by (cases b; cases ch) (auto simp: chan_is_def with_batch_def)
  then show ?thesis by (simp add: pending_def)
qed

lemma fd_to_path_short:
  "fd_to_path os fd s = Some (Inr (Some p, s')) \<Longrightarrow> length p < PATH_MAX"
  by (auto simp: fd_to_path_def ret_def size_defs elim!: bndE split: if_splits option.splits)

lemma upholds_retarget [pres_rules]: "upholds (retarget os c fd)"
proof (rule preservesI)
  fix s :: "'a proc" and x s'
  assume run: "retarget os c fd s = Some (Inr (x, s'))" and i: "chans_inv (chans s)"
  obtain r s1 where f: "fd_to_path os fd s = Some (Inr (r, s1))"
    and k: "(case r of None \<Rightarrow> ret False | Some p \<Rightarrow> andthen (upd_chan c (\<lambda>ch. ch\<lparr>path := p\<rparr>))
      (bnd (notify os fd S_IFREG p) (\<lambda>m. ret (m \<noteq> 0)))) s1 = Some (Inr (x, s'))"
    using run unfolding retarget_def by (elim bndE)
  have c1: "chans s1 = chans s" by (rule keepsD [OF keeps_fd_to_path f]) simp
  show "chans_inv (chans s')"
  proof (cases r)
    case None
    then show ?thesis using k c1 i by (simp add: ret_def)
  next
    case (Some p)
    let ?s = "set_chan c ((chans s c)\<lparr>path := p\<rparr>) s1"
    have "bnd (notify os fd S_IFREG p) (\<lambda>m. ret (m \<noteq> 0)) ?s = Some (Inr (x, s'))"
      using k Some c1 by (simp add: andthen_def bnd_def upd_chan_def modify_def set_chan_def)
    then obtain m where n: "notify os fd S_IFREG p ?s = Some (Inr (m, s'))"
      by (auto simp: ret_def elim!: bndE)
    have "chans s' = chans ?s" by (rule keepsD [OF keeps_notify_check n]) simp_all
    then show ?thesis
      using i c1 fd_to_path_short [OF f [unfolded Some]] by (auto simp: chans_inv_def chan_inv_def)
  qed
qed

text \<open>The position the kernel reports and the count of the call make a good access.\<close>

definition seek_ok :: "'w os \<Rightarrow> bool" where
  "seek_ok os \<longleftrightarrow> (\<forall>fd w. - 1 \<le> fst (sys_lseek64 os fd w) \<and> fst (sys_lseek64 os fd w) < 2 ^ 62)"

lemma with_pos_inv:
  assumes sk: "seek_ok os" and n: "0 < n" "n < 2 ^ 31"
    and k: "\<And>off s x s'. 0 \<le> off \<Longrightarrow> off < 2 ^ 62 \<Longrightarrow> k off s = Some (Inr (x, s')) \<Longrightarrow>
      chans_inv (chans s) \<Longrightarrow> P (chans s) \<Longrightarrow> chans_inv (chans s')"
    and run: "with_pos os fd n k s = Some (Inr (x, s'))" and i: "chans_inv (chans s)" "P (chans s)"
  shows "chans_inv (chans s')"
proof -
  obtain pos w where l: "sys_lseek64 os fd (world s) = (pos, w)" by (cases "sys_lseek64 os fd (world s)")
  let ?off = "s64 (pos - n)" and ?s = "s\<lparr>world := w\<rparr>" and ?no = "andthen (aloge os TAG_DBG ''err'') (ret False)"
  have "- 1 \<le> pos" "pos < 2 ^ 62" 
    using sk [unfolded seek_ok_def, THEN spec, of fd, THEN spec, of "world s"] l by simp_all
  then have off: "?off < 2 ^ 62" using n by simp
  have r: "(if ?off < 0 then ?no else k ?off) ?s = Some (Inr (x, s'))"
    using run l by (simp add: with_pos_def bnd_def sysc_def Let_def)
  show ?thesis
  proof (cases "?off < 0")
    case True
    have "upholds ?no" by (intro pres_rules upholds_sysc)
    moreover have "?no ?s = Some (Inr (x, s'))" using r True by simp
    ultimately show ?thesis by (rule preservesD) (use i(1) in simp)
  next
    case False
    then have "k ?off ?s = Some (Inr (x, s'))" using r by simp
    then show ?thesis by (rule k [rotated 2]) (use False off i in simp_all)
  qed
qed

text \<open>The two forms of the code after a call: first the batch at hand, then another file.\<close>

lemma try_then_inv:
  assumes first: "\<And>d s1. last_fd (chans s c) = fd \<Longrightarrow> first s = Some (Inr (d, s1)) \<Longrightarrow> chans_inv (chans s1)"
    and second: "upholds second" and i: "chans_inv (chans s)" and b: "b \<Longrightarrow> last_fd (chans s c) = fd"
    and run: "bnd (if b then first else ret False) (\<lambda>d. if d then ret () else
      bnd (retarget os c fd) (\<lambda>ok. if ok then second else ret ())) s = Some (Inr (x, s'))"
  shows "chans_inv (chans s')"
proof -
  let ?k = "\<lambda>d. if d then ret () else bnd (retarget os c fd) (\<lambda>ok. if ok then second else ret ())"
  obtain d s1 where m: "(if b then first else ret False) s = Some (Inr (d, s1))" and k: "?k d s1 = Some (Inr (x, s'))"
    using run by (elim bndE)
  have "chans_inv (chans s1)" using m first i b by (cases b) (auto simp: ret_def)
  moreover have "upholds (?k d)" using second by (intro pres_rules upholds_sysc)
  ultimately show ?thesis using preservesD [where I = "\<lambda>s. chans_inv (chans s)" and m = "?k d", OF _ k] by simp
qed

lemma upholds_trace_seek:
  assumes sk: "seek_ok os" and n: "0 < n" "n < 2 ^ 31"
  shows "upholds (trace_seek os c op check fd n)"
proof (rule preservesI)
  fix s :: "'a proc" and x s'
  assume run: "trace_seek os c op check fd n s = Some (Inr (x, s'))" and i: "chans_inv (chans s)"
  have ac: "access_ok fd n off" if "\<not> (fd < 0 \<or> n = 0 \<or> off < 0)" "off < 2 ^ 62" for off
    using that n by (simp add: access_ok_def)
  let ?first = "\<lambda>off. bnd (batch_read_write_first os c op fd n off) (\<lambda>r. ret (r = 0))"
  let ?second = "\<lambda>off. andthen (batch_read_write_second os c op fd n off) (ret True)"
  have f: "chans_inv (chans t')" if "off < 2 ^ 62" "?first off t = Some (Inr (y, t'))" "chans_inv (chans t)"
    "last_fd (chans t c) = fd" for off y and t t' :: "'a proc"
    using upholds_first [OF ac _ that(3,4), of off] that(1,2) by (auto simp: ret_def elim!: bndE)
  have "upholds (?second off)" if "off < 2 ^ 62" for off
    using upholds_second [OF ac] that by (intro pres_rules upholds_sysc) blast
  note second = preservesD [OF this]
  have "upholds (with_pos os fd n ?second)"
    by (rule preservesI, erule with_pos_inv [OF sk n, where P = "\<lambda>_. True", rotated]) (auto intro: second)
  then have u: "upholds (andthen (with_pos os fd n ?second) (ret ()))" by (intro pres_rules upholds_sysc)
  show "chans_inv (chans s')"
  proof (rule try_then_inv [OF _ u i _ run [unfolded trace_seek_def bnd_gets]])
    fix d s1
    assume l: "last_fd (chans s c) = fd" and r: "with_pos os fd n ?first s = Some (Inr (d, s1))"
    show "chans_inv (chans s1)"
      by (rule with_pos_inv [OF sk n _ r i, where P = "\<lambda>h. last_fd (h c) = fd"]) (rule f, assumption+, rule l)
  qed simp
qed

lemma upholds_trace_at:
  assumes n: "0 < n" "n < 2 ^ 31" and off: "off < 2 ^ 62"
  shows "upholds (trace_at os c op fd n off)"
proof (rule preservesI)
  fix s :: "'a proc" and x s'
  assume run: "trace_at os c op fd n off s = Some (Inr (x, s'))" and i: "chans_inv (chans s)"
  have ac: "access_ok fd n off" if "\<not> (fd < 0 \<or> n = 0 \<or> off < 0)"
    using that n off by (simp add: access_ok_def)
  show "chans_inv (chans s')"
  proof (rule try_then_inv [OF _ upholds_second [OF ac] i _ run [unfolded trace_at_def bnd_gets]])
    fix d s1
    assume l: "last_fd (chans s c) = fd"
      and r: "bnd (batch_read_write_first os c op fd n off) (\<lambda>r. ret (r = 0)) s = Some (Inr (d, s1))"
    from r obtain y where "batch_read_write_first os c op fd n off s = Some (Inr (y, s1))"
      by (auto simp: ret_def elim!: bndE)
    then show "chans_inv (chans s1)" by (rule upholds_first [rotated]) (use ac i l in simp_all)
  qed simp
qed

end
