(* ===== verification/Flow.thy ===== *)
theory Flow
  imports Close
begin

unbundle bit_operations_syntax

text \<open>
  The components together: what reaches the log when a channel's batch is written out.
  Closing a descriptor goes through \<open>close.c\<close>, the \<open>*_close\<close> functions, \<open>notify.c\<close>
  and \<open>bblog.c\<close>; here the laws of those layers are composed into one statement about
  the stream of records, which is the logged batches followed by the pending text.
\<close>

section \<open>Growth of the stream\<close>

text \<open>
  From a state whose pending text is \<open>t\<close> to one whose pending text is \<open>t'\<close> the
  stream has grown by the records \<open>rs\<close>.
\<close>

definition adds ::
  "'w os \<Rightarrow> ('w \<Rightarrow> addr set) \<Rightarrow> nat \<Rightarrow> 'w proc \<Rightarrow> string \<Rightarrow> 'w proc \<Rightarrow> string \<Rightarrow> string list \<Rightarrow> bool" where
  "adds os live k s t s' t' rs \<longleftrightarrow> ready os live k s' t' \<and> prefix s' = prefix s \<and>
     (\<exists>out. logs s' = logs s @ map (batch_ev (prefix s)) out \<and> concat out @ t' = t @ concat rs)"

lemma adds_refl: "ready os live k s t \<Longrightarrow> adds os live k s t s t []"
  by (auto simp: adds_def intro!: exI [of _ "[]"])

lemma adds_trans:
  assumes "adds os live k s t s1 t1 rs" "adds os live k s1 t1 s2 t2 qs"
  shows "adds os live k s t s2 t2 (rs @ qs)"
proof -
  obtain o1 where 1: "logs s1 = logs s @ map (batch_ev (prefix s)) o1" "concat o1 @ t1 = t @ concat rs"
    using assms(1) by (auto simp: adds_def)
  obtain o2 where 2: "logs s2 = logs s1 @ map (batch_ev (prefix s)) o2" "concat o2 @ t2 = t1 @ concat qs"
    using assms by (auto simp: adds_def)
  have "concat (o1 @ o2) @ t2 = concat o1 @ (concat o2 @ t2)" by simp
  also have "\<dots> = (concat o1 @ t1) @ concat qs" using 2(2) by simp
  finally have "concat (o1 @ o2) @ t2 = t @ concat (rs @ qs)" using 1(2) by simp
  then show ?thesis using assms 1(1) 2(1) by (auto simp: adds_def intro!: exI [of _ "o1 @ o2"])
qed

lemma adds_frame:
  assumes "adds os live k s t s' t' rs" "logs s'' = logs s'" "prefix s'' = prefix s'"
    "ready os live k s'' t' = ready os live k s' t'"
  shows "adds os live k s t s'' t' rs"
  using assms by (simp add: adds_def)

lemma ready_chans [simp]: "ready os live k (s\<lparr>chans := h\<rparr>) t = ready os live k s t"
  using batching_frame [of "s\<lparr>chans := h\<rparr>" s t] by (simp add: ready_def)

lemma ready_mmap [simp]: "ready os live k (s\<lparr>mmap_v := v\<rparr>) t = ready os live k s t"
  using batching_frame [of "s\<lparr>mmap_v := v\<rparr>" s t] by (simp add: ready_def)

text \<open>One message is one record, whatever else is pending.\<close>

lemma bblog_adds:
  assumes lc: "libc_ok os live" "roomy os live k" and rd: "ready os live k s t"
    and m: "good_msg (prefix s) m"
  shows "\<exists>x s' t'. bblog os m s = Some (Inr (x, s')) \<and>
    adds os live k s t s' t' [rec_head (cntr_v s + 1) @ m @ '','']"
proof -
  obtain out t' where f: "foldl (batch_step (prefix s)) ([], t) (recs (cntr_v s) [m]) = (out, t')"
    by (cases "foldl (batch_step (prefix s)) ([], t) (recs (cntr_v s) [m])")
  obtain s' where run: "bblog_all os [m] s = Some (Inr ((), s'))" and pre: "prefix s' = prefix s"
    and lg: "logs s' = logs s @ map (batch_ev (prefix s)) out" and rd': "ready os live k s' t'"
    using bblog_all_refines [OF lc rd, of "[m]"] m f by auto
  have "bnd (bblog os m) (\<lambda>_. ret ()) s = Some (Inr ((), s'))" using run by simp
  then obtain x where "bblog os m s = Some (Inr (x, s'))" by (rule bndE) (simp add: ret_def)
  moreover have "concat out @ t' = t @ concat [rec_head (cntr_v s + 1) @ m @ '','']"
    using batch_step_concat [OF f] by simp
  ultimately show ?thesis using pre lg rd' by (auto simp: adds_def)
qed

section \<open>The size of a record\<close>

lemma length_dec_int: "- (10 ^ n) < i \<Longrightarrow> i < 10 ^ n \<Longrightarrow> 0 < n \<Longrightarrow> length (dec_int i) \<le> n + 1"
  using length_dec_nat [of "nat (- i)" n] length_dec_nat [of "nat i" n]
  by (auto simp: dec_int_def nat_less_iff)

lemma dec_int_no_NUL: "NUL \<notin> set (dec_int i)"
  using dec_nat_digits [of NUL] by (auto simp: dec_int_def NUL_def is_digit_def)

lemma dec_06_no_NUL: "NUL \<notin> set (dec_06 i)"
  using dec_int_no_NUL by (auto simp: dec_06_def Let_def NUL_def)

text \<open>
  The clock and the thread number stay in range (32-bit seconds, microseconds below a
  million, thread numbers of at most seven digits), and asking for the time leaves memory
  and process alone.
\<close>

definition clock_ok :: "'w os \<Rightarrow> ('w \<Rightarrow> addr set) \<Rightarrow> bool" where
  "clock_ok os live \<longleftrightarrow>
     (\<forall>w. case sys_gettimeofday os w of ((sec, usec), w') \<Rightarrow>
        0 \<le> sec \<and> sec < 2 ^ 31 \<and> 0 \<le> usec \<and> usec < 1000000 \<and>
        live w' = live w \<and> sys_getpid os w' = sys_getpid os w) \<and>
     (\<forall>w. 0 \<le> sys_gettid os w \<and> sys_gettid os w < 10000000)"

lemma length_rw_text:
  assumes "0 \<le> me" "me < 10000000" "0 \<le> sec" "sec < 2 ^ 31" "0 \<le> usec" "usec < 1000000"
    "0 \<le> sz" "sz < 10 ^ 18" "0 \<le> off" "off < 10 ^ 18"
  shows "length (rw_text me op pth (sec, usec) sz off str) \<le> length op + length pth + length str + 120"
proof -
  have "length (dec_int me) \<le> 8" using assms length_dec_int [of 7 me] by simp
  moreover have "length (dec_int sec) \<le> 11" using assms length_dec_int [of 10 sec] by simp
  moreover have "length (dec_int usec) \<le> 7" using assms length_dec_int [of 6 usec] by simp
  moreover have "length (dec_int sz) \<le> 19" using assms length_dec_int [of 18 sz] by simp
  moreover have "length (dec_int off) \<le> 19" using assms length_dec_int [of 18 off] by simp
  ultimately show ?thesis by (simp add: rw_text_def head_text_def ts_str_def dec_06_def Let_def)
qed

lemma rw_text_no_NUL:
  assumes "NUL \<notin> set op" "NUL \<notin> set pth" "NUL \<notin> set str"
  shows "NUL \<notin> set (rw_text me op pth t sz off str)"
  using assms dec_int_no_NUL [unfolded NUL_def] dec_06_no_NUL [unfolded NUL_def]
  by (simp add: rw_text_def head_text_def ts_str_def NUL_def)

section \<open>Writing a batch out\<close>

text \<open>
  A channel whose batch makes a record that fits: the path and the access string leave
  300 bytes of a buffer for the rest of the record.
\<close>

definition chan_small :: "string \<Rightarrow> chan \<Rightarrow> bool" where
  "chan_small pre ch \<longleftrightarrow> iostr ch \<noteq> [] \<and> NUL \<notin> set (iostr ch) \<and> NUL \<notin> set (path ch) \<and>
     0 \<le> last_off ch \<and> last_off ch < 10 ^ 18 \<and> 0 \<le> last_size ch \<and> last_size ch < 10 ^ 18 \<and>
     int (length pre + length (path ch) + length (iostr ch)) + 300 < BATCH_LIMIT"

text \<open>The record of a batch written out under the operation name \<open>op\<close>.\<close>

definition batch_record :: "string \<Rightarrow> chan \<Rightarrow> string \<Rightarrow> bool" where
  "batch_record op ch r \<longleftrightarrow> (\<exists>n me ts. r = rec_head n @
     rw_text me op (path ch) ts (last_size ch) (last_off ch) (butlast (iostr ch)) @ '','')"

lemma notify_read_write_adds:
  assumes lc: "libc_ok os live" "roomy os live k" "clock_ok os live" and rd: "ready os live k s t"
    and sm: "chan_small (prefix s) ch" and op: "NUL \<notin> set op" "length op \<le> 40"
  shows "\<exists>s' t' r. notify_read_write os op (path ch) fd (last_size ch) (last_off ch) (iostr ch) s =
      Some (Inr (butlast (iostr ch), s')) \<and> adds os live k s t s' t' [r] \<and> batch_record op ch r"
proof -
  obtain sec usec w where g: "sys_gettimeofday os (world s) = ((sec, usec), w)"
    by (metis prod.exhaust)
  have w: "0 \<le> sec" "sec < 2 ^ 31" "0 \<le> usec" "usec < 1000000" "live w = live (world s)"
    "sys_getpid os w = sys_getpid os (world s)"
    using lc(3) [unfolded clock_ok_def, THEN conjunct1, THEN spec, of "world s"] g by auto
  have me: "0 \<le> sys_gettid os w" "sys_gettid os w < 10000000" using lc(3) [unfolded clock_ok_def, THEN conjunct2] by auto
  let ?s = "s\<lparr>world := w\<rparr>" and ?str = "butlast (iostr ch)"
  let ?m = "rw_text (sys_gettid os w) op (path ch) (sec, usec) (last_size ch) (last_off ch) ?str"
  have rd1: "ready os live k ?s t"
    using rd w(5,6) batching_frame [of ?s s t] by (simp add: ready_def)
  have "NUL \<notin> set ?m" using sm op by (intro rw_text_no_NUL) (auto simp: chan_small_def dest: in_set_butlastD)
  moreover have "length ?m \<le> length op + length (path ch) + length ?str + 120"
    using w(1-4) me sm by (intro length_rw_text) (auto simp: chan_small_def)
  then have "int (length ?m) \<le> int (length (path ch)) + int (length (iostr ch)) + 160" using op(2) by simp
  moreover have "int (length (prefix s)) + int (length (path ch)) + int (length (iostr ch)) + 300 < BATCH_LIMIT"
    using sm by (simp add: chan_small_def)
  ultimately have "good_msg (prefix ?s) ?m" unfolding good_msg_def by auto
  from bblog_adds [OF lc(1,2) rd1 this] obtain x s' t' where
    b: "bblog os ?m ?s = Some (Inr (x, s'))"
    "adds os live k ?s t s' t' [rec_head (cntr_v s + 1) @ ?m @ '','']" by auto
  have "notify_read_write os op (path ch) fd (last_size ch) (last_off ch) (iostr ch) s = Some (Inr (?str, s'))"
    using g b(1) sm by (simp add: notify_read_write_def chan_small_def bnd_def sysc_def asks_def andthen_def ret_def gets_def)
  moreover have "adds os live k s t s' t' [rec_head (cntr_v s + 1) @ ?m @ '','']"
    using b(2) by (simp add: adds_def)
  ultimately show ?thesis unfolding batch_record_def by blast
qed

text \<open>An access away from the batch: the batch is written out and a new one starts.\<close>

lemma batch_far_adds:
  assumes lc: "libc_ok os live" "roomy os live k" "clock_ok os live" and rd: "ready os live k s t"
    and ci: "chan_is (chans s c) fd (lo, hi, as)" and sm: "chan_small (prefix s) (chans s c)"
    and ac: "access_ok fd sz off" and far: "\<not> touches (lo, hi, as) (sz, off)"
    and op: "NUL \<notin> set op" "length op \<le> 40"
  shows "\<exists>s' t' r. batch_read_write_first os c op fd sz off s = Some (Inr (0, s')) \<and>
    adds os live k s t s' t' [r] \<and> batch_record op (chans s c) r \<and>
    chans s' = (chans s)(c := with_batch fd (single (sz, off)) (chans s c))"
proof -
  from notify_read_write_adds [OF lc rd sm op, of fd] obtain s1 t1 r where
    n: "notify_read_write os op (path (chans s c)) fd (last_size (chans s c)) (last_off (chans s c)) (iostr (chans s c)) s =
      Some (Inr (butlast (iostr (chans s c)), s1))" and a: "adds os live k s t s1 t1 [r]"
    and r: "batch_record op (chans s c) r" by blast
  have ch: "chans s1 = chans s"
    by (rule keepsD [OF keeps_notify_read_write n]) (simp add: indep_rec_simps)
  let ?s = "set_chan c (with_batch fd (single (sz, off)) (chans s c)) s1"
  have "batch_read_write_first os c op fd sz off s = Some (Inr (0, ?s))"
    using n chan_isD [OF ci] by (intro batch_first_far [OF ci ac far]) simp
  moreover have "adds os live k s t ?s t1 [r]" using a by (rule adds_frame) (simp_all add: set_chan_def)
  ultimately show ?thesis using r ch by fastforce
qed

section \<open>Batches that have grown too long\<close>

text \<open>
  The access string may grow to 4032 bytes before the batch is written out, but a record of
  that length does not fit a buffer: writing it out does not end (\<open>blog_loop_stuck\<close>).
\<close>

lemma bblog_stuck:
  assumes lc: "libc_ok os live" and rd: "ready os live k s t"
    and long: "BATCH_LIMIT \<le> int (length (prefix s) + length m)" and fits: "length m < BUFFER_SIZE - 30"
  shows "bblog os m s \<noteq> Some (Inr (x, s'))"
proof -
  have h: "length (rec_head (cntr_v s + 1)) \<le> 27" by (rule length_rec_head)
  let ?r = "rec_head (cntr_v s + 1) @ m @ '',''" and ?s = "s\<lparr>cntr_v := cntr_v s + 1\<rparr>"
  have "batching ?s t" using rd batching_frame [of ?s s t] by (simp add: ready_def)
  then have "stuck os live (sys_getpid os (world ?s)) ?r ?s"
    using rd long by (auto simp: stuck_def ready_def fits_def)
  then have "do_blog os ?r ?s \<noteq> Some (Inr (x, s'))"
    unfolding do_blog_loop using blog_loop_stuck [OF lc] by blast
  moreover have "bblog os m s = do_blog os ?r ?s" using h fits by (intro bblog_run) simp
  ultimately show ?thesis by simp
qed

lemma length_rw_text_min: "length str + 60 \<le> length (rw_text me op pth t sz off str)"
  by (simp add: rw_text_def head_text_def ts_str_def dec_06_def Let_def)

lemma notify_read_write_stuck:
  assumes lc: "libc_ok os live" "clock_ok os live" and rd: "ready os live k s t"
    and long: "4032 \<le> length str" "length str < 4096" and op: "length op \<le> 40" "length pth \<le> 3000"
    and args: "0 \<le> sz" "sz < 10 ^ 18" "0 \<le> off" "off < 10 ^ 18"
  shows "notify_read_write os op pth fd sz off str s \<noteq> Some (Inr (x, s'))"
proof
  assume run: "notify_read_write os op pth fd sz off str s = Some (Inr (x, s'))"
  obtain sec usec w where g: "sys_gettimeofday os (world s) = ((sec, usec), w)" by (metis prod.exhaust)
  have w: "0 \<le> sec" "sec < 2 ^ 31" "0 \<le> usec" "usec < 1000000" "live w = live (world s)"
    "sys_getpid os w = sys_getpid os (world s)"
    using lc(2) [unfolded clock_ok_def, THEN conjunct1, THEN spec, of "world s"] g by auto
  have me: "0 \<le> sys_gettid os w" "sys_gettid os w < 10000000"
    using lc(2) [unfolded clock_ok_def, THEN conjunct2] by auto
  let ?s = "s\<lparr>world := w\<rparr>" and ?m = "rw_text (sys_gettid os w) op pth (sec, usec) sz off (butlast str)"
  have rd1: "ready os live k ?s t" using rd w(5,6) batching_frame [of ?s s t] by (simp add: ready_def)
  have lo: "length (butlast str) + 60 \<le> length ?m" by (rule length_rw_text_min)
  have hi: "length ?m \<le> length op + length pth + length (butlast str) + 120"
    using w me args by (intro length_rw_text) auto
  have "bblog os ?m ?s \<noteq> Some (Inr (y, s''))" for y s''
    using lo hi long op by (intro bblog_stuck [OF lc(1) rd1]) (simp_all add: BATCH_LIMIT_num size_defs)
  moreover have "str \<noteq> []" using long by auto
  ultimately show False
    using run g by (auto simp: notify_read_write_def sysc_def asks_def andthen_def gets_def
        bnd_def split: option.splits sum.splits prod.splits)
qed

text \<open>So the access that should have the full batch written out never returns.\<close>

lemma full_batch_stuck:
  assumes lc: "libc_ok os live" "clock_ok os live" and rd: "ready os live k s t"
    and ci: "chan_is (chans s c) fd (lo, hi, as)" and ac: "access_ok fd sz off"
    and t: "touches (lo, hi, as) (sz, off)" and full: "IOSTR_BUFSIZE \<le> length (io_string as) + 64"
    and op: "length op \<le> 40" "length (path (chans s c)) \<le> 3000"
  shows "batch_read_write_first os c op fd sz off s \<noteq> Some (Inr (x, s'))"
proof
  assume run: "batch_read_write_first os c op fd sz off s = Some (Inr (x, s'))"
  note d = chan_isD [OF ci]
  have len: "length (io_string as) < 4096" "last_fd (chans s c) \<noteq> - 1"
    using ci d(1,9) by (auto simp: chan_is_def batch_ok_def size_defs)
  have n: "notify_read_write os op (path (chans s c)) fd (hi - lo + 1) lo (io_string as) s \<noteq> Some (Inr (y, s''))" for y s''
    using len full op d by (intro notify_read_write_stuck [OF lc rd]) (simp_all add: size_defs)
  have "record_iostr os c op fd (blk_start off) (blk_end off sz) sz off s \<noteq> Some (Inr (y, s''))" for y s''
    using n full d len(2)
    by (auto simp: record_iostr_def bnd_gets Let_def batch_read_write_notify_def andthen_def gets_def bnd_def
        split: option.splits sum.splits prod.splits)
  then show False using run unfolding batch_first_grows [OF ci ac t] by (blast elim: bndE)
qed

section \<open>Closing a descriptor\<close>

text \<open>The record of closing: one if the channel was batching accesses to \<open>fd\<close>, none otherwise.\<close>

definition close_records :: "int \<Rightarrow> string \<Rightarrow> chan \<Rightarrow> string list \<Rightarrow> bool" where
  "close_records fd op ch rs \<longleftrightarrow> (if forgotten fd (last_fd ch) then rs = []
     else \<exists>r. rs = [r] \<and> batch_record (op @ (if fd = - 1 then '' (exit)'' else '' (close)'')) ch r)"

lemma rw_close_adds:
  assumes lc: "libc_ok os live" "roomy os live k" "clock_ok os live" and rd: "ready os live k s t"
    and sm: "\<not> forgotten fd (last_fd (chans s c)) \<Longrightarrow> chan_small (prefix s) (chans s c)"
    and op: "NUL \<notin> set op" "length op \<le> 20"
  shows "\<exists>s' t' rs. rw_close os c op fd s = Some (Inr ((), s')) \<and> adds os live k s t s' t' rs \<and>
    close_records fd op (chans s c) rs \<and> (\<forall>d. d \<noteq> c \<longrightarrow> chans s' d = chans s d)"
proof (cases "forgotten fd (last_fd (chans s c))")
  case True
  then show ?thesis
    using rw_close_idle [OF True] adds_refl [OF rd] by (auto simp: close_records_def)
next
  case False
  let ?op = "op @ (if fd = - 1 then '' (exit)'' else '' (close)'')" and ?ch = "chans s c"
  have "NUL \<notin> set ?op" "length ?op \<le> 40" using op by (simp_all add: NUL_def)
  from notify_read_write_adds [OF lc rd sm [OF False] this] obtain s1 t1 r where
    n: "notify_read_write os ?op (path ?ch) (last_fd ?ch) (last_size ?ch) (last_off ?ch) (iostr ?ch) s =
      Some (Inr (butlast (iostr ?ch), s1))" and a: "adds os live k s t s1 t1 [r]" and r: "batch_record ?op ?ch r"
    by blast
  have ch: "chans s1 = chans s"
    by (rule keepsD [OF keeps_notify_read_write n]) (simp add: indep_rec_simps)
  let ?s = "set_chan c ((chans s c)\<lparr>iostr := butlast (iostr ?ch), last_fd := - 1\<rparr>) s1"
  have "rw_close os c op fd s = Some (Inr ((), ?s))"
    using False n ch
    by (auto simp: rw_close_def bnd_gets forgotten_def bnd_Some upd_chan_def modify_def set_chan_def)
  moreover have "adds os live k s t ?s t1 [r]"
    using a by (rule adds_frame) (simp_all add: set_chan_def)
  moreover have "\<forall>d. d \<noteq> c \<longrightarrow> chans ?s d = chans s d" using ch by simp
  moreover have "close_records fd op (chans s c) [r]" using r False by (simp add: close_records_def)
  ultimately show ?thesis by blast
qed

text \<open>The channels in the order \<open>close_common\<close> visits them, with their operation names.\<close>

definition closing_order :: "(chanid \<times> string) list" where
  "closing_order = [(Rd, ''read''), (Prd, ''pread64''), (Frd, ''fread''), (Wr, ''write''),
     (Fwr, ''fwrite''), (Pwr, ''pwrite64'')]"

primrec rw_closes :: "'w os \<Rightarrow> int \<Rightarrow> (chanid \<times> string) list \<Rightarrow> ('w proc, unit) exec" where
  "rw_closes os fd [] = ret ()"
| "rw_closes os fd (x # xs) = andthen (rw_close os (fst x) (snd x) fd) (rw_closes os fd xs)"

lemma close_common_order:
  "close_common os fd = andthen (rw_closes os fd closing_order) (mmap_close fd)"
  by (simp add: close_common_def closing_order_def andthen_def bnd_assoc bnd_ret read_close_def pread64_close_def
      fread_close_def write_close_def fwrite_close_def pwrite64_close_def)

lemma rw_closes_adds:
  assumes lc: "libc_ok os live" "roomy os live k" "clock_ok os live"
    and "ready os live k s t" and "distinct (map fst cs)"
    and "\<forall>(c, op)\<in>set cs. (forgotten fd (last_fd (chans s c)) \<or> chan_small (prefix s) (chans s c)) \<and>
      NUL \<notin> set op \<and> length op \<le> 20"
  shows "\<exists>s' t' rss. rw_closes os fd cs s = Some (Inr ((), s')) \<and> adds os live k s t s' t' (concat rss) \<and>
    list_all2 (\<lambda>(c, op). close_records fd op (chans s c)) cs rss"
  using assms(4-)
proof (induction cs arbitrary: s t)
  case Nil
  then show ?case using adds_refl by (fastforce simp: ret_def)
next
  case (Cons x cs)
  obtain c op where x: "x = (c, op)" by (cases x)
  obtain s1 t1 rs where 1: "rw_close os c op fd s = Some (Inr ((), s1))" "adds os live k s t s1 t1 rs"
    "close_records fd op (chans s c) rs" "\<forall>d. d \<noteq> c \<longrightarrow> chans s1 d = chans s d"
    using rw_close_adds [OF lc Cons.prems(1), of fd c op] Cons.prems(3) x by auto
  have same: "\<forall>y\<in>set cs. chans s1 (fst y) = chans s (fst y)"
    using 1(4) Cons.prems(2) x by auto
  have "ready os live k s1 t1" "prefix s1 = prefix s" using 1(2) by (auto simp: adds_def)
  then obtain s2 t2 rss where 2: "rw_closes os fd cs s1 = Some (Inr ((), s2))" "adds os live k s1 t1 s2 t2 (concat rss)"
    "list_all2 (\<lambda>(c, op). close_records fd op (chans s1 c)) cs rss"
    using Cons.IH [of s1 t1] Cons.prems(2,3) same by fastforce
  have "list_all2 (\<lambda>(c, op). close_records fd op (chans s c)) cs rss"
    using same by (intro list.rel_mono_strong [OF 2(3)]) auto
  then have "list_all2 (\<lambda>(c, op). close_records fd op (chans s c)) (x # cs) (rs # rss)"
    using 1(3) x by simp
  moreover have "adds os live k s t s2 t2 (concat (rs # rss))" using adds_trans [OF 1(2) 2(2)] by simp
  moreover have "rw_closes os fd (x # cs) s = Some (Inr ((), s2))"
    using 1(1) 2(1) x by (simp add: andthen_def bnd_Some)
  ultimately show ?case by blast
qed

lemma close_common_adds:
  assumes lc: "libc_ok os live" "roomy os live k" "clock_ok os live" and rd: "ready os live k s t"
    and sm: "\<forall>c. forgotten fd (last_fd (chans s c)) \<or> chan_small (prefix s) (chans s c)"
  shows "\<exists>s' t' rss. close_common os fd s = Some (Inr ((), s')) \<and> adds os live k s t s' t' (concat rss) \<and>
    list_all2 (\<lambda>(c, op). close_records fd op (chans s c)) closing_order rss \<and> (\<forall>u. forgotten fd (fd_of u s'))"
proof -
  have "\<exists>s' t' rss. rw_closes os fd closing_order s = Some (Inr ((), s')) \<and> adds os live k s t s' t' (concat rss) \<and>
    list_all2 (\<lambda>(c, op). close_records fd op (chans s c)) closing_order rss"
    using sm by (intro rw_closes_adds [OF lc rd]) (auto simp: closing_order_def NUL_def)
  then obtain s1 t1 rss where 1: "rw_closes os fd closing_order s = Some (Inr ((), s1))"
    "adds os live k s t s1 t1 (concat rss)"
    "list_all2 (\<lambda>(c, op). close_records fd op (chans s c)) closing_order rss" by blast
  obtain v where m: "mmap_close fd s1 = Some (Inr ((), s1\<lparr>mmap_v := v\<rparr>))"
  proof (cases "(fd = - 1 \<and> last_mmap_fd (mmap_v s1) \<noteq> - 1) \<or> (fd \<noteq> - 1 \<and> fd = last_mmap_fd (mmap_v s1))")
    case True
    then show ?thesis using that by (simp add: mmap_close_def upd_mmap_def exec_defs)
  next
    case False
    then have "mmap_close fd s1 = Some (Inr ((), s1\<lparr>mmap_v := mmap_v s1\<rparr>))"
      by (auto simp: mmap_close_def bnd_gets only_if_def ret_def)
    then show ?thesis by (rule that)
  qed
  have run: "close_common os fd s = Some (Inr ((), s1\<lparr>mmap_v := v\<rparr>))"
    using 1(1) m by (simp add: close_common_order andthen_def bnd_Some)
  moreover have "adds os live k s t (s1\<lparr>mmap_v := v\<rparr>) t1 (concat rss)" using 1(2) by (rule adds_frame) simp_all
  ultimately show ?thesis using 1(3) close_common_forgets [OF run] by blast
qed

section \<open>Accesses to one file\<close>

text \<open>
  The descriptor is open on the regular file \<open>p\<close>, which the tracer does not skip; asking leaves
  the world \<open>w\<close>.
\<close>

definition opened :: "'w os \<Rightarrow> 'w proc \<Rightarrow> int \<Rightarrow> string \<Rightarrow> 'w \<Rightarrow> bool" where
  "opened os s fd p w \<longleftrightarrow> 0 < fd \<and> \<not> skip_path p \<and> length p < PATH_MAX \<and>
     (case sys_readlink os (fd_link (sys_getpid os (world s)) fd) (world s) of (r, w1) \<Rightarrow> r = Some p \<and>
     (case sys_fstat os fd w1 of ((e, m), w2) \<Rightarrow> e \<noteq> - 1 \<and> S_IFREG AND (m AND S_IFMT) \<noteq> 0 \<and> w = w2))"

lemma retarget_opened:
  assumes "opened os s fd p w"
  shows "retarget os c fd s = Some (Inr (True, set_chan c ((chans s c)\<lparr>path := p\<rparr>) (s\<lparr>world := w\<rparr>)))"
proof -
  obtain w1 e m where "0 < fd" "\<not> skip_path p" "length p < PATH_MAX"
    "sys_readlink os (fd_link (sys_getpid os (world s)) fd) (world s) = (Some p, w1)"
    "sys_fstat os fd w1 = ((e, m), w)" "e \<noteq> - 1" "S_IFREG AND (m AND S_IFMT) \<noteq> 0"
    using assms unfolding opened_def by (auto split: prod.splits)
  then show ?thesis by (rule retarget_file)
qed

lemma io_string_no_NUL: "NUL \<notin> set (io_string as)"
proof -
  have "NUL \<notin> set (dec_nat n)" for n
    using dec_nat_digits [of NUL n] by (auto simp: NUL_def is_digit_def)
  then show ?thesis by (auto simp: io_string_def io_entry_def NUL_def dec_int_def)
qed

lemma io_string_nonempty: "as \<noteq> [] \<Longrightarrow> io_string as \<noteq> []"
  by (cases as) (auto simp: io_string_def io_entry_def)

text \<open>When one channel alone refers to the descriptor, one record is written.\<close>

lemma one_closes:
  assumes "list_all2 (\<lambda>(c, op). close_records fd op (ch c)) closing_order rss" "(c, cop) \<in> set closing_order"
    and "\<And>d. forgotten fd (last_fd (ch d)) = (d \<noteq> c)" and "fd \<noteq> - 1"
  shows "\<exists>r. concat rss = [r] \<and> batch_record (cop @ '' (close)'') (ch c) r"
  using assms by (auto simp: closing_order_def list_all2_Cons1 close_records_def)

text \<open>
  The record of a batch in terms of its accesses: it names the file, the blocks from the
  lowest to the highest touched, and every access in order.
\<close>

definition session_record :: "string \<Rightarrow> string \<Rightarrow> (int \<times> int) list \<Rightarrow> string \<Rightarrow> bool" where
  "session_record op p as r \<longleftrightarrow> (\<exists>n me ts lo hi. (lo, hi, as) = foldl merge (single (hd as)) (tl as) \<and>
     r = rec_head n @ rw_text me op p ts (hi - lo + 1) lo (butlast (io_string as)) @ '','')"

end
