(* ===== verification/Threads.thy ===== *)
theory Threads
  imports Flow
begin

unbundle bit_operations_syntax

text \<open>
  Threads, start-up and shut-down of the tracer (\<open>pthread.c\<close>, \<open>clone.c\<close>,
  \<open>signal.c\<close>, \<open>exec.c\<close> and the constructor and destructor of \<open>fs.c\<close>).
\<close>

section \<open>pthread.c\<close>

definition pthread_common :: "'w os \<Rightarrow> int \<Rightarrow> int \<Rightarrow> ('w proc, unit) exec" where
  "pthread_common os created main =
     bnd (gets num_active_threads) (\<lambda>n.
     if created \<noteq> 0
     then andthen (modify (\<lambda>s. s\<lparr>num_active_threads := n + 1\<rparr>)) (notify_thread_init os main)
     else
       andthen (modify (\<lambda>s. s\<lparr>num_active_threads := n - 1\<rparr>)) (
       andthen (close_common os (- 1)) (
       andthen (notify_thread_exit os main)
         (only_if (main \<noteq> 0 \<and> n - 1 \<noteq> 0)
           (andthen (android_log os ANDROID_LOG_DEBUG TAG_DBG ''unaccountable active threads at process exit'')
                    (ret ()))))))"

definition pthread_create_init :: "'w os \<Rightarrow> ('w proc, int) exec" where
  "pthread_create_init os = sym_init os Pthread_create ''pthread_create'' ''__pthread_create''
     (aloge os TAG_DBG ''NULL _pthread_init!'')"

text \<open>The result is the return value and what is left in \<open>*thread\<close>.\<close>

definition pthread_create :: "'w os \<Rightarrow> nat \<Rightarrow> nat \<Rightarrow> ('w proc, int \<times> int) exec" where
  "pthread_create os start_routine arg =
     bnd (pthread_create_init os) (\<lambda>i.
     if i = - 1 then ret (- 1, 0) else
     bnd (call Pthread_create (\<lambda>f. sys_pthread_create os f start_routine arg)) (\<lambda>(r, t).
     andthen (only_if (r \<noteq> - 1) (pthread_common os 1 0)) (ret (r, t))))"

definition pthread_exit_init :: "'w os \<Rightarrow> ('w proc, int) exec" where
  "pthread_exit_init os = sym_init os Pthread_exit ''pthread_exit'' ''__pthread_exit''
     (aloge os TAG_DBG ''NULL _pthread_exit!'')"

text \<open>The thread is gone when this is over; the state is what it leaves behind.\<close>

definition pthread_exit :: "'w os \<Rightarrow> nat \<Rightarrow> ('w proc, unit) exec" where
  "pthread_exit os data =
     andthen (pthread_common os 0 0) (
     bnd (pthread_exit_init os) (\<lambda>i.
     if i = - 1 then sysc (\<lambda>w. ((), sys_exit os 1 w))
     else call Pthread_exit (\<lambda>f w. ((), sys_pthread_exit os f data w))))"

section \<open>clone.c\<close>

definition CLONE_PARENT_SETTID :: int where "CLONE_PARENT_SETTID = 0x00100000"
definition CLONE_SETTLS :: int where "CLONE_SETTLS = 0x00080000"
definition CLONE_CHILD_SETTID :: int where "CLONE_CHILD_SETTID = 0x01000000"
definition CLONE_CHILD_CLEARTID :: int where "CLONE_CHILD_CLEARTID = 0x00200000"

definition clone_init :: "'w os \<Rightarrow> ('w proc, int) exec" where
  "clone_init os = sym_init os Clone_clone ''clone'' ''__clone'' (aloge os ''Storage-IOERR-UIUC'' ''NULL _clone!'')"

text \<open>\<open>va\<close> are the optional arguments in order; reading one too many yields no defined value.\<close>

definition clone :: "'w os \<Rightarrow> nat \<Rightarrow> addr \<Rightarrow> int \<Rightarrow> nat \<Rightarrow> nat \<times> nat \<times> nat \<Rightarrow> ('w proc, int) exec" where
  "clone os fn child_stack flags arg va =
     bnd (clone_init os) (\<lambda>i.
     if i = - 1 then ret (- 1) else
     let ptid = (if flags AND (CLONE_PARENT_SETTID OR CLONE_SETTLS OR CLONE_CHILD_SETTID OR CLONE_CHILD_CLEARTID) \<noteq> 0
                 then fst va else 0);
         tls = (if flags AND (CLONE_SETTLS OR CLONE_CHILD_SETTID OR CLONE_CHILD_CLEARTID) \<noteq> 0
                then fst (snd va) else 0);
         ctid = (if flags AND (CLONE_CHILD_SETTID OR CLONE_CHILD_CLEARTID) \<noteq> 0 then snd (snd va) else 0)
     in bnd (call Clone_clone (\<lambda>f. sys_clone os f fn child_stack flags arg ptid tls ctid)) (\<lambda>r.
        andthen (only_if (r \<noteq> - 1 \<and> r \<noteq> 0) (pthread_common os 1 0)) (ret r)))"

section \<open>signal.c\<close>

definition SIGHUP :: int where "SIGHUP = 1"
definition SIGINT :: int where "SIGINT = 2"
definition SIGQUIT :: int where "SIGQUIT = 3"
definition SIGABRT :: int where "SIGABRT = 6"
definition SIGTERM :: int where "SIGTERM = 15"
definition SIGTSTP :: int where "SIGTSTP = 20"

lemmas signal_defs = SIGHUP_def SIGINT_def SIGQUIT_def SIGABRT_def SIGTERM_def SIGTSTP_def

text \<open>\<open>SIG_DFL\<close> is NULL and \<open>SIG_IGN\<close> the address 1, where there is no function.\<close>

definition SIG_IGN :: nat where
  "SIG_IGN = 1"

definition run_handler :: "'w os \<Rightarrow> nat \<Rightarrow> int \<Rightarrow> ('w proc, unit) exec" where
  "run_handler os h signum =
     (if h = SIG_IGN then crash WildCall else sysc (\<lambda>w. ((), sys_run_handler os h signum w)))"

definition aggregate_handler :: "'w os \<Rightarrow> int \<Rightarrow> ('w proc, unit) exec" where
  "aggregate_handler os signum =
     andthen
       (only_if (signum = SIGABRT \<or> signum = SIGINT \<or> signum = SIGHUP \<or> signum = SIGTERM \<or>
                 signum = SIGQUIT \<or> signum = SIGTSTP)
         (andthen (err os ''Signal'') (notify_thread_exit os (- signum))))
       (bnd (gets signal_v) (\<lambda>v.
        if signum = SIGINT \<and> old_sigint_handler v \<noteq> 0 then run_handler os (old_sigint_handler v) signum
        else if signum = SIGHUP \<and> old_sighup_handler v \<noteq> 0 then run_handler os (old_sighup_handler v) signum
        else if signum = SIGTSTP \<and> old_sigtstp_handler v \<noteq> 0 then run_handler os (old_sigtstp_handler v) signum
        else if signum = SIGTERM \<and> old_sigterm_handler v \<noteq> 0 then run_handler os (old_sigterm_handler v) signum
        else if signum = SIGQUIT \<and> old_sigquit_handler v \<noteq> 0 then run_handler os (old_sigquit_handler v) signum
        else if signum = SIGABRT \<and> old_sigabrt_handler v \<noteq> 0 then run_handler os (old_sigabrt_handler v) signum
        else ret ()))"

text \<open>\<open>sigaction(signum, NULL, &old)\<close> and the assignment or complaint after it.\<close>

definition save_handler ::
  "'w os \<Rightarrow> int \<Rightarrow> string \<Rightarrow> (nat \<Rightarrow> signal_vars \<Rightarrow> signal_vars) \<Rightarrow> ('w proc, unit) exec" where
  "save_handler os signum txt set_v =
     bnd (sysc (sys_sigaction_get os signum)) (\<lambda>(r, h).
     if r = - 1 then err os txt else modify (\<lambda>s. s\<lparr>signal_v := set_v h (signal_v s)\<rparr>))"

text \<open>The address of \<open>aggregate_handler\<close>, which is only passed on.\<close>

definition aggregate_addr :: nat where
  "aggregate_addr = 2"

text \<open>\<open>if (sigaction(signum, &sa, NULL) == bad) err(...);\<close>\<close>

definition set_handler :: "'w os \<Rightarrow> int \<Rightarrow> int \<Rightarrow> string \<Rightarrow> ('w proc, unit) exec" where
  "set_handler os signum bad txt =
     bnd (sysc (sys_sigaction_set os signum aggregate_addr)) (\<lambda>r. only_if (r = bad) (err os txt))"

definition init_signal :: "'w os \<Rightarrow> ('w proc, unit) exec" where
  "init_signal os =
     andthen (save_handler os SIGINT ''OLD Sigaction(SIGINT)'' (\<lambda>h v. v\<lparr>old_sigint_handler := h\<rparr>)) (
     andthen (save_handler os SIGHUP ''OLD Sigaction(SIGHUP)'' (\<lambda>h v. v\<lparr>old_sighup_handler := h\<rparr>)) (
     andthen (save_handler os SIGABRT ''OLD Sigaction(SIGABRT)'' (\<lambda>h v. v\<lparr>old_sigabrt_handler := h\<rparr>)) (
     andthen (save_handler os SIGTERM ''OLD Sigaction(SIGTERM)'' (\<lambda>h v. v\<lparr>old_sigterm_handler := h\<rparr>)) (
     andthen (save_handler os SIGQUIT ''OLD Sigaction(SIGQUIT)'' (\<lambda>h v. v\<lparr>old_sigquit_handler := h\<rparr>)) (
     andthen (save_handler os SIGTSTP ''OLD Sigaction(SIGTSTP)'' (\<lambda>h v. v\<lparr>old_sigtstp_handler := h\<rparr>)) (
     andthen (set_handler os SIGINT (- 1) ''Sigaction(SIGINT)'') (
     andthen (set_handler os SIGABRT 1 ''Sigaction(SIGABRT)'') (
     andthen (set_handler os SIGTERM (- 1) ''Sigaction(SIGTERM)'') (
     andthen (set_handler os SIGHUP (- 1) ''Sigaction(SIGHUP)'') (
     andthen (set_handler os SIGTSTP (- 1) ''Sigaction(SIGTSTP)'')
             (set_handler os SIGQUIT (- 1) ''Sigaction(SIGQUIT)'')))))))))))"

section \<open>exec.c\<close>

definition init_execve :: "'w os \<Rightarrow> ('w proc, int) exec" where
  "init_execve os = sym_init os Exec_execve ''execve'' ''__execve'' (aloge os ''Storage-IOERR-UIUC'' ''NULL _execve!'')"

text \<open>A successful \<open>execve\<close> does not return; what is modelled is the call that does.\<close>

definition execve :: "'w os \<Rightarrow> string \<Rightarrow> string list \<Rightarrow> string list \<Rightarrow> ('w proc, int) exec" where
  "execve os name argv envp =
     bnd (init_execve os) (\<lambda>i.
     if i = - 1 then ret (- 1) else
     andthen (err os (''exec: '' @ name)) (
     andthen (call Exec_execve (\<lambda>f. sys_execve os f name argv envp)) (ret (- 1))))"

text \<open>
  The variadic forms read \<open>va_arg\<close> up to the NULL (\<open>None\<close>) that ends the arguments, once
  to count them and once to copy them; \<open>env\<close> is \<open>environ\<close>.  \<open>execle\<close> reads one more
  argument behind the NULL, the environment \<open>envp\<close>.
\<close>

fun va_args :: "string option list \<Rightarrow> string list" where
  "va_args (Some a # va) = a # va_args va"
| "va_args _ = []"

definition execl :: "'w os \<Rightarrow> string list \<Rightarrow> string \<Rightarrow> string \<Rightarrow> string option list \<Rightarrow> ('w proc, int) exec" where
  "execl os env name arg va = execve os name (arg # va_args va) env"

definition execle ::
  "'w os \<Rightarrow> string \<Rightarrow> string \<Rightarrow> string option list \<Rightarrow> string list \<Rightarrow> ('w proc, int) exec" where
  "execle os name arg va envp = execve os name (arg # va_args va) envp"

definition execv :: "'w os \<Rightarrow> string list \<Rightarrow> string \<Rightarrow> string list \<Rightarrow> ('w proc, int) exec" where
  "execv os env name argv = andthen (execve os name argv env) (ret (- 1))"

definition init_execvpe :: "'w os \<Rightarrow> ('w proc, int) exec" where
  "init_execvpe os =
     sym_init os Exec_execvpe ''execvpe'' ''__execvpe'' (aloge os ''Storage-IOERR-UIUC'' ''NULL _execvpe!'')"

definition execvpe :: "'w os \<Rightarrow> string \<Rightarrow> string list \<Rightarrow> string list \<Rightarrow> ('w proc, int) exec" where
  "execvpe os name argv envp =
     bnd (init_execvpe os) (\<lambda>i.
     if i = - 1 then ret (- 1) else
     andthen (err os (''exec: '' @ name))
             (call Exec_execvpe (\<lambda>f. sys_execvpe os f name argv envp)))"

definition execvp :: "'w os \<Rightarrow> string list \<Rightarrow> string \<Rightarrow> string list \<Rightarrow> ('w proc, int) exec" where
  "execvp os env name argv = execvpe os name argv env"

definition execlp ::
  "'w os \<Rightarrow> string list \<Rightarrow> string \<Rightarrow> string \<Rightarrow> string option list \<Rightarrow> ('w proc, int) exec" where
  "execlp os env name arg va = execvp os env name (arg # va_args va)"

section \<open>Constructor and destructor of fs.c\<close>

definition known_processes :: "string list" where
  "known_processes = [''logcat'', ''/system/bin/sdcard'', ''sdcard'', ''/system/bin/mpdecision'', ''mpdecision'',
     ''/system/xbin/su'', ''su'', ''/sbin/adbd'', ''adbd'', ''/system/bin/sensors.qcom'', ''sensors.qcom'',
     ''edu.buffalo.cse.phonelab.conductor'', ''srg.cs.illinois.edu.storagestudy'', ''storaged'',
     ''/system/bin/storaged'']"

definition init :: "'w os \<Rightarrow> ('w proc, unit) exec" where
  "init os =
     bnd (process_name_str os) (\<lambda>procname.
     if \<exists>k\<in>set known_processes. strcmp0 procname k then ret () else
     andthen (modify (\<lambda>s. s\<lparr>notify_v := 1\<rparr>)) (
     andthen (pthread_common os 1 1) (
     andthen (sysc (sys_atexit os))
             (init_signal os))))"

definition fini :: "'w os \<Rightarrow> ('w proc, unit) exec" where
  "fini os = pthread_common os 0 1"

section \<open>Thread exit\<close>

text \<open>A thread that exits leaves no batch behind and is not counted any more.\<close>

lemma thread_exit_forgets:
  assumes "pthread_common os 0 0 s = Some (Inr (x, s'))"
  shows "fd_of v s' = - 1" and "num_active_threads s' = num_active_threads s - 1"
proof -
  let ?s = "s\<lparr>num_active_threads := num_active_threads s - 1\<rparr>"
  have c: "close_common os (- 1) ?s = Some (Inr (x, s'))"
    using assms by (simp add: pthread_common_def bnd_gets notify_thread_exit_def bblog_exit_def)
      (auto simp: andthen_def modify_def ret_def bnd_def split: option.splits sum.splits)
  show "fd_of v s' = - 1" using close_common_forgets [OF c, of v] by (simp add: forgotten_def)
  have "keeps num_active_threads (close_common os (- 1))"
    by (rule keeps_close_common) (simp_all add: indep_rec_simps)
  from keepsD [OF this c] show "num_active_threads s' = num_active_threads s - 1" by simp
qed

text \<open>It does end, and every batch of the thread is in the stream afterwards.\<close>

lemma thread_exit_adds:
  assumes lc: "libc_ok os live" "roomy os live k" "clock_ok os live" and rd: "ready os live k s t"
    and sm: "\<forall>c. forgotten (- 1) (last_fd (chans s c)) \<or> chan_small (prefix s) (chans s c)"
  shows "\<exists>s' t' rss. pthread_common os 0 0 s = Some (Inr ((), s')) \<and> adds os live k s t s' t' (concat rss) \<and>
    list_all2 (\<lambda>(c, op). close_records (- 1) op (chans s c)) closing_order rss \<and> (\<forall>v. fd_of v s' = - 1)"
proof -
  let ?s = "s\<lparr>num_active_threads := num_active_threads s - 1\<rparr>"
  have rd': "ready os live k ?s t" using rd batching_frame [of ?s s t] by (simp add: ready_def)
  from close_common_adds [OF lc rd', of "- 1"] sm obtain s' t' rss where
    c: "close_common os (- 1) ?s = Some (Inr ((), s'))" "adds os live k ?s t s' t' (concat rss)"
    "list_all2 (\<lambda>(c, op). close_records (- 1) op (chans s c)) closing_order rss" "\<forall>u. forgotten (- 1) (fd_of u s')"
    by auto
  have "pthread_common os 0 0 s = Some (Inr ((), s'))"
    using c(1) by (simp add: pthread_common_def notify_thread_exit_def bblog_exit_def only_if_def andthen_def bnd_def
        gets_def modify_def ret_def)
  moreover have "adds os live k s t s' t' (concat rss)" using c(2) by (simp add: adds_def)
  ultimately show ?thesis using c(3,4) by (auto simp: forgotten_def)
qed

section \<open>Signals\<close>

fun old_handler :: "int \<Rightarrow> signal_vars \<Rightarrow> nat" where
  "old_handler sg v =
     (if sg = SIGINT then old_sigint_handler v else if sg = SIGHUP then old_sighup_handler v
      else if sg = SIGTSTP then old_sigtstp_handler v else if sg = SIGTERM then old_sigterm_handler v
      else if sg = SIGQUIT then old_sigquit_handler v else if sg = SIGABRT then old_sigabrt_handler v else 0)"

definition terminal_signals :: "int set" where
  "terminal_signals = {SIGABRT, SIGINT, SIGHUP, SIGTERM, SIGQUIT, SIGTSTP}"

lemma aggregate_handler_terminal:
  assumes "sg \<in> terminal_signals"
  shows "aggregate_handler os sg =
    andthen (andthen (err os ''Signal'') (bblog_exit os (- sg)))
      (bnd (gets signal_v) (\<lambda>v. if old_handler sg v \<noteq> 0 then run_handler os (old_handler sg v) sg else ret ()))"
  using assms unfolding terminal_signals_def
  by (auto simp: aggregate_handler_def notify_thread_exit_def signal_defs cong: if_cong)

text \<open>A process that ignored the signal before the tracer came is killed by the tracer's handler.\<close>

lemma ignored_signal_faults:
  assumes sg: "sg \<in> terminal_signals" and ign: "old_handler sg (signal_v s) = SIG_IGN"
  shows "aggregate_handler os sg s \<noteq> Some (Inr (x, s'))"
proof
  assume run: "aggregate_handler os sg s = Some (Inr (x, s'))"
  have neg: "- sg < 0" using sg by (auto simp: terminal_signals_def signal_defs)
  let ?m = "andthen (err os ''Signal'') (bblog_exit os (- sg))"
  have k: "keeps signal_v ?m"
    using neg unfolding bblog_exit_def by (simp, intro keep_rules) (simp_all add: indep_log_def indep_defs)
  obtain y s1 where m: "?m s = Some (Inr (y, s1))"
    and h: "bnd (gets signal_v) (\<lambda>v. if old_handler sg v \<noteq> 0 then run_handler os (old_handler sg v) sg else ret ()) s1
      = Some (Inr (x, s'))"
    using run unfolding aggregate_handler_terminal [OF sg] andthen_def by (rule bndE)
  have "signal_v s1 = signal_v s" using keepsD [OF k m] .
  then show False
    using h ign by (simp add: bnd_gets SIG_IGN_def run_handler_def crash_def del: old_handler.simps)
qed

text \<open>Otherwise a terminal signal writes the pending text.\<close>

lemma err_cached:
  assumes "name_cached os s n"
  shows "err os txt s = Some (Inr ((), s\<lparr>logs := logs s @ [LogEv ANDROID_LOG_ERROR ''Storage-IOERR-UIUC'' txt],
    world := snd (sys_log os (LogEv ANDROID_LOG_ERROR ''Storage-IOERR-UIUC'' txt) (world s))\<rparr>))"
  by (simp add: err_def bnd_def process_name_str_hit [OF assms] andthen_def android_log_run ret_def)

lemma signal_flushes:
  assumes lc: "libc_ok os live" "roomy os live k" and rd: "ready os live k s t" and t: "t \<noteq> []"
    and sg: "sg \<in> terminal_signals" and dfl: "old_handler sg (signal_v s) = 0" and nm: "name_cached os s n"
  shows "\<exists>s'. aggregate_handler os sg s = Some (Inr ((), s')) \<and>
    logs s' = logs s @ [LogEv ANDROID_LOG_ERROR ''Storage-IOERR-UIUC'' ''Signal'', batch_ev (prefix s) t] \<and>
    ready os live k s' []"
proof -
  let ?ev = "LogEv ANDROID_LOG_ERROR ''Storage-IOERR-UIUC'' ''Signal''"
  let ?s = "s\<lparr>logs := logs s @ [?ev], world := snd (sys_log os ?ev (world s))\<rparr>"
  have neg: "- sg < 0" using sg by (auto simp: terminal_signals_def signal_defs)
  have "ready os live k ?s t"
    using rd lc(1) batching_frame [of ?s s] by (simp add: ready_def libc_ok_def)
  then obtain s' where s': "bblog_exit os (- sg) ?s = Some (Inr ((), s'))"
    "logs s' = logs ?s @ [batch_ev (prefix ?s) t]" "ready os live k s' []"
    using bblog_exit_signal [OF lc _ t neg] by blast
  have "keeps signal_v (bblog_exit os (- sg))"
    using neg unfolding bblog_exit_def by (simp, intro keep_rules) (simp_all add: indep_log_def indep_defs)
  from keepsD [OF this s'(1)] have "signal_v s' = signal_v s" by simp
  then have "aggregate_handler os sg s = Some (Inr ((), s'))"
    unfolding aggregate_handler_terminal [OF sg]
    using s'(1) dfl err_cached [OF nm, of "''Signal''"]
    by (simp add: andthen_def bnd_def gets_def ret_def del: old_handler.simps)
  then show ?thesis using s' by auto
qed

section \<open>Exec\<close>

text \<open>\<open>execve\<close> neither stops the flusher nor writes the pending text.\<close>

lemma execve_keeps_buffer:
  assumes "execve os name argv envp s = Some (Inr (r, s'))"
  shows "r = - 1" and "bufs s' = bufs s" and "proc_pibr s' = proc_pibr s"
proof -
  show "r = - 1" using assms
    by (auto simp: execve_def andthen_def ret_def split: if_splits elim!: bndE)
  have k: "keeps bufs (execve os name argv envp)" "keeps proc_pibr (execve os name argv envp)"
    unfolding execve_def init_execve_def sym_init_def by (intro keep_rules; simp add: indep_defs)+
  show "bufs s' = bufs s" "proc_pibr s' = proc_pibr s"
    by (rule keepsD [OF k(1) assms], rule keepsD [OF k(2) assms])
qed

section \<open>Start-up\<close>

lemma keeps_notify_v:
  "keeps notify_v (pthread_common os 1 main)" "keeps notify_v (init_signal os)"
proof -
  have "indep_flush (notify_v :: 'a proc \<Rightarrow> int)" "indep_log (notify_v :: 'a proc \<Rightarrow> int)"
    by (simp_all add: indep_flush_def indep_log_def indep_defs)
  then show "keeps notify_v (pthread_common os 1 main)"
    unfolding pthread_common_def notify_thread_init_def bblog_init_def by (intro keep_rules) simp_all
  show "keeps notify_v (init_signal os)"
    unfolding init_signal_def save_handler_def set_handler_def by (intro keep_rules) (simp_all add: indep_defs)
qed

text \<open>The constructor turns tracing on exactly in the processes that are not on the list.\<close>

lemma init_switch:
  assumes nm: "process_name_str os s = Some (Inr (n, s1))" and run: "init os s = Some (Inr (x, s'))"
  shows "notify_v s' = (if n \<in> set known_processes then notify_v s else 1)"
proof -
  have k: "notify_v s1 = notify_v s"
    using keepsD [OF keeps_process_name_str nm, of notify_v] by (simp add: indep_defs)
  have ex: "(\<exists>k\<in>set known_processes. strcmp0 n k) \<longleftrightarrow> n \<in> set known_processes"
    by (auto simp: strcmp0_def)
  show ?thesis
  proof (cases "n \<in> set known_processes")
    case True
    then have "init os s = Some (Inr ((), s1))"
      unfolding init_def by (subst bnd_Some [of "process_name_str os" s, OF nm]) (simp add: ex ret_def)
    then show ?thesis using run k True by simp
  next
    case False
    let ?rest = "andthen (pthread_common os 1 1) (andthen (sysc (sys_atexit os)) (init_signal os))"
    have "init os s = ?rest (s1\<lparr>notify_v := 1\<rparr>)"
      unfolding init_def using False
      by (subst bnd_Some [of "process_name_str os" s, OF nm]) (simp add: ex andthen_def modify_def bnd_def)
    moreover have "keeps notify_v ?rest"
      by (intro keep_rules keeps_notify_v) simp
    ultimately show ?thesis using run False keepsD by fastforce
  qed
qed

end
