(* ===== verification/Memory.thy ===== *)
theory Memory
  imports Threads
begin

unbundle bit_operations_syntax

text \<open>
  The invariant of the memory the threads of a process share, and that no function leaves the
  bounds of an array.  Every log buffer keeps the size it was allocated with and its write index
  stays inside it, the prefix fits its array, a batch that is pending has an access string, and
  every entry the logger was given at information priority fits the logger's payload.  Each
  function of the tracer keeps this, in whatever state it is called and however it ends: where it
  does not return or dies of another fault, it has not written outside an array before.  The
  functions are taken in the order of the theories.
\<close>

section \<open>The invariant\<close>

definition entry_fits :: "logev \<Rightarrow> bool" where
  "entry_fits e \<longleftrightarrow> log_prio e = ANDROID_LOG_INFO \<longrightarrow> length (log_text e) < LOGGER_ENTRY_MAX_PAYLOAD"

text \<open>
  The word of a buffer is zero or has the buffer's own address, a valid pid, no references (no call
  is under way) and an index behind the first byte that leaves room for the text a flush puts there.
\<close>

definition word_ok :: "addr \<Rightarrow> 64 word \<Rightarrow> bool" where
  "word_ok p w \<longleftrightarrow> w = 0 \<or> (\<exists>pid e. pibr_is w pid e p 0 \<and> pid \<le> PID_MAX \<and> 0 < e \<and> e < BATCH_LIMIT)"

definition buffer_ok :: "addr \<Rightarrow> pibr_t \<Rightarrow> bool" where
  "buffer_ok p b \<longleftrightarrow> p \<noteq> 0 \<and> 4096 dvd uint p \<and> length (buf b) = PIBR_BUF_SIZE \<and> word_ok p (pibr b)"

lemma buffer_ok_word:
  assumes "buffer_ok p b" "pibr b \<noteq> 0"
  shows "PIBR_PTR (pibr b) = p \<and> PIBR_REFCNT (pibr b) = 0 \<and> PIBR_IDX (pibr b) < BATCH_LIMIT"
proof -
  obtain pid e where "pibr_is (pibr b) pid e p 0" "e < BATCH_LIMIT" using assms unfolding buffer_ok_def word_ok_def by blast
  then show ?thesis using pibr_is_fields by simp
qed

definition buffers_ok :: "(addr \<Rightarrow> pibr_t option) \<Rightarrow> bool" where
  "buffers_ok h \<longleftrightarrow> (\<forall>p b. h p = Some b \<longrightarrow> buffer_ok p b)"

text \<open>All but the one at \<open>q\<close>, which has its size but whose word is not set yet.\<close>

definition buffers_but :: "addr \<Rightarrow> (addr \<Rightarrow> pibr_t option) \<Rightarrow> bool" where
  "buffers_but q h \<longleftrightarrow> (\<forall>p b. h p = Some b \<longrightarrow> p \<noteq> q \<longrightarrow> buffer_ok p b) \<and>
     (\<exists>b. h q = Some b \<and> length (buf b) = PIBR_BUF_SIZE)"

definition strings_ok :: "(chanid \<Rightarrow> chan) \<Rightarrow> bool" where
  "strings_ok h \<longleftrightarrow> (\<forall>c. last_fd (h c) \<noteq> - 1 \<longrightarrow> iostr (h c) \<noteq> [])"

definition strings_but :: "chanid \<Rightarrow> (chanid \<Rightarrow> chan) \<Rightarrow> bool" where
  "strings_but c h \<longleftrightarrow> (\<forall>d. d \<noteq> c \<longrightarrow> last_fd (h d) \<noteq> - 1 \<longrightarrow> iostr (h d) \<noteq> [])"

text \<open>The name of the process is the first word of its command line; a prefix holds 474 characters of it.\<close>

definition name_limit :: nat where
  "name_limit = 400"

definition short_names :: "(addr \<Rightarrow> string option) \<Rightarrow> bool" where
  "short_names h \<longleftrightarrow> (\<forall>n\<in>ran h. length n \<le> name_limit)"

definition prefix_sane :: "'w proc \<Rightarrow> bool" where
  "prefix_sane s \<longleftrightarrow> length (prefix s) < MAX_PREFIX_LEN \<and>
     (procid s \<noteq> 0 \<longrightarrow> prefix_len s = int (length (prefix s)) \<and> prefix s \<noteq> [])"

definition mem_ok ::
  "((addr \<Rightarrow> pibr_t option) \<Rightarrow> bool) \<Rightarrow> ((chanid \<Rightarrow> chan) \<Rightarrow> bool) \<Rightarrow> ((addr \<Rightarrow> string option) \<Rightarrow> bool) \<Rightarrow> 'w proc \<Rightarrow> bool" where
  "mem_ok A B N s \<longleftrightarrow> A (bufs s) \<and> B (chans s) \<and> N (strs s) \<and> prefix_sane s \<and> list_all entry_fits (logs s)"

abbreviation shared_ok :: "'w proc \<Rightarrow> bool" where
  "shared_ok \<equiv> mem_ok buffers_ok strings_ok short_names"

section \<open>What is assumed of the system\<close>

text \<open>\<open>memalign(4096, LOGGER_ENTRY_MAX_PAYLOAD)\<close> gives the eight bytes of the word and the rest.\<close>

definition alloc_ok :: "'w os \<Rightarrow> bool" where
  "alloc_ok os \<longleftrightarrow> (\<forall>w. length (buf (snd (fst (sys_memalign os 4096 LOGGER_ENTRY_MAX_PAYLOAD w)))) = PIBR_BUF_SIZE)"

text \<open>
  A process number is a positive \<open>int\<close>; what the kernel shows in \<open>/proc/self/cmdline\<close> begins with a
  name of at most 400 characters.
\<close>

definition identity_ok :: "'w os \<Rightarrow> bool" where
  "identity_ok os \<longleftrightarrow> (\<forall>w. 0 < sys_getpid os w \<and> sys_getpid os w < 2 ^ 31) \<and>
     (\<forall>f g w fd w'. sys_openat os f AT_FDCWD ''/proc/self/cmdline'' O_RDONLY 0 w = (fd, w') \<longrightarrow> 0 \<le> fd \<longrightarrow>
        length (cstr (snd (fst (sys_read os g fd (PATH_MAX - 1) w')))) \<le> name_limit)"

definition machine_ok :: "'w os \<Rightarrow> bool" where
  "machine_ok os \<longleftrightarrow> alloc_ok os \<and> identity_ok os"

abbreviation good_pid :: "int \<Rightarrow> bool" where
  "good_pid pid \<equiv> 0 < pid \<and> pid < 2147483648"

lemma machine_okD:
  assumes "machine_ok os"
  shows "length (buf (snd (fst (sys_memalign os 4096 LOGGER_ENTRY_MAX_PAYLOAD w)))) = PIBR_BUF_SIZE"
    "good_pid (sys_getpid os w)"
    "sys_openat os f AT_FDCWD ''/proc/self/cmdline'' O_RDONLY 0 w = (fd, w') \<Longrightarrow> 0 \<le> fd \<Longrightarrow>
       sys_read os g fd (PATH_MAX - 1) w' = ((n, bytes), w'') \<Longrightarrow> length (cstr bytes) \<le> name_limit"
  using assms unfolding machine_ok_def alloc_ok_def identity_ok_def by (simp, simp, metis fst_conv snd_conv)

section \<open>What the invariant does not look at\<close>

lemma mem_ok_other [simp]:
  "mem_ok A B N (s\<lparr>world := w\<rparr>) = mem_ok A B N s" "mem_ok A B N (s\<lparr>fptr := g\<rparr>) = mem_ok A B N s"
  "mem_ok A B N (s\<lparr>cntr_v := c\<rparr>) = mem_ok A B N s"
  "mem_ok A B N (s\<lparr>procname_pid := c\<rparr>) = mem_ok A B N s" "mem_ok A B N (s\<lparr>proc_pibr := p\<rparr>) = mem_ok A B N s"
  "mem_ok A B N (s\<lparr>last_flush_secs := i\<rparr>) = mem_ok A B N s" "mem_ok A B N (s\<lparr>notify_v := i\<rparr>) = mem_ok A B N s"
  "mem_ok A B N (s\<lparr>num_active_threads := n\<rparr>) = mem_ok A B N s"
  "mem_ok A B N (s\<lparr>mmap_v := m\<rparr>) = mem_ok A B N s" "mem_ok A B N (s\<lparr>flusher_v := f\<rparr>) = mem_ok A B N s"
  "mem_ok A B N (s\<lparr>signal_v := v\<rparr>) = mem_ok A B N s"
  by (simp_all add: mem_ok_def prefix_sane_def)

lemma mem_ok_parts [simp]:
  "mem_ok A B N (s\<lparr>bufs := h\<rparr>) = (A h \<and> mem_ok (\<lambda>_. True) B N s)"
  "mem_ok A B N (s\<lparr>chans := g\<rparr>) = (B g \<and> mem_ok A (\<lambda>_. True) N s)"
  "mem_ok A B N (s\<lparr>strs := n\<rparr>) = (N n \<and> mem_ok A B (\<lambda>_. True) s)"
  by (auto simp: mem_ok_def prefix_sane_def)

lemma mem_okD:
  assumes "mem_ok A B N s"
  shows "A (bufs s)" "B (chans s)" "N (strs s)" "prefix_sane s" "mem_ok (\<lambda>_. True) B N s" "mem_ok A (\<lambda>_. True) N s"
    "mem_ok A B (\<lambda>_. True) s"
  using assms by (simp_all add: mem_ok_def)

lemma mem_ok_bufsI: "mem_ok A' B N s \<Longrightarrow> A (bufs s) \<Longrightarrow> mem_ok A B N s"
  by (simp add: mem_ok_def)

abbreviation safe ::
  "((addr \<Rightarrow> pibr_t option) \<Rightarrow> bool) \<Rightarrow> ((chanid \<Rightarrow> chan) \<Rightarrow> bool) \<Rightarrow> ((addr \<Rightarrow> string option) \<Rightarrow> bool) \<Rightarrow> ('w proc, 'a) exec \<Rightarrow> bool" where
  "safe A B N \<equiv> stays (mem_ok A B N)"

lemma short_names_upd:
  "short_names h \<Longrightarrow> short_names (h(p := None))" "short_names h \<Longrightarrow> length t \<le> name_limit \<Longrightarrow> short_names (h(p \<mapsto> t))"
  by (auto simp: short_names_def ran_def)

lemma safe_prims [bound_rules]:
  "safe A B N (upd_mmap f)" "safe A B N (upd_flusher g)"
  unfolding upd_mmap_def upd_flusher_def by (intro bound_rules; simp)+

lemma safe_free_str [bound_rules]: "safe A B short_names (free_str os p)"
  by (intro stays_strs) (auto simp: short_names_upd dest: mem_okD)

lemma safe_android_log:
  "pr = ANDROID_LOG_INFO \<longrightarrow> length t < LOGGER_ENTRY_MAX_PAYLOAD \<Longrightarrow> safe A B N (android_log os pr tag t)"
  by (intro stays_android_log) (simp_all add: mem_ok_def prefix_sane_def entry_fits_def)

lemma safe_aloge [bound_rules]: "safe A B N (aloge os tag t)" "safe A B N (android_log os ANDROID_LOG_DEBUG tag t)"
  unfolding aloge_def by (intro bound_rules safe_android_log; simp)+

section \<open>Process\<close>

text \<open>What is read of the command line is a short name, so the strings stay short.\<close>

lemma safe_cmdline:
  assumes ok: "machine_ok os" and k: "\<And>fd n bytes. length (cstr bytes) \<le> name_limit \<Longrightarrow> safe A B N (k fd n bytes)"
  shows "safe A B N (bnd (call Process_openat (\<lambda>f. sys_openat os f AT_FDCWD ''/proc/self/cmdline'' O_RDONLY 0)) (\<lambda>fd.
    bnd (if 0 \<le> fd then call Process_read (\<lambda>f. sys_read os f fd (PATH_MAX - 1)) else ret (- 1, [])) (\<lambda>(n, bytes). k fd n bytes)))"
    (is "safe A B N (bnd ?open ?rest)")
proof (rule staysI)
  fix s y assume s: "mem_ok A B N s" and run: "bnd ?open ?rest s = Some y"
  obtain fd w where o: "sys_openat os (fptr s Process_openat) AT_FDCWD ''/proc/self/cmdline'' O_RDONLY 0 (world s) = (fd, w)"
    by fastforce
  obtain n bytes w' where r: "sys_read os (fptr s Process_read) fd (PATH_MAX - 1) w = ((n, bytes), w')" by (metis prod.collapse)
  let ?s = "s\<lparr>world := w\<rparr>" and ?t = "s\<lparr>world := w'\<rparr>"
  have "length (cstr bytes) \<le> name_limit" if "0 \<le> fd" using machine_okD(3) [OF ok o that r] .
  moreover have "safe A B N (k fd (- 1) [])" by (rule k) (simp add: cstr_def)
  moreover have "y = Inl NullCall \<or> 0 \<le> fd \<and> k fd n bytes ?t = Some y \<or> k fd (- 1) [] ?s = Some y"
    using run o r by (auto simp: call_def bnd_def gets_def sysc_def crash_def ret_def split: if_splits)
  ultimately show "lands (\<lambda>_. mem_ok A B N) y"
    using s k staysD [where I = "mem_ok A B N" and s = ?s and y = y] staysD [where I = "mem_ok A B N" and s = ?t and y = y]
    by fastforce
qed

lemma length_cstr_take: "length (cstr (take n bs)) \<le> length (cstr bs)"
  by (induction bs arbitrary: n) (auto simp: cstr_def take_Cons split: nat.split)

lemma safe_read_process_name [bound_rules]:
  assumes "machine_ok os" shows "safe A B short_names (read_process_name os)"
proof -
  have st: "safe A B short_names (store_str p t)" if "length t \<le> name_limit" for p t
    by (intro stays_strs) (auto simp: short_names_upd that dest: mem_okD)
  have st': "safe A B short_names (store_str p (cstr (take n bytes)))" if "length (cstr bytes) \<le> name_limit" for p n bytes
    using length_cstr_take [of n bytes] that by (intro st) simp
  have u: "length (snprintf 255 x) \<le> name_limit" for x by (simp add: snprintf_def name_limit_def)
  show ?thesis
    unfolding read_process_name_def override_defaults_def
    by (intro safe_cmdline bound_rules assms st' st u; simp)
qed

lemma safe_cas_procname [bound_rules]: "safe A B N (cas_procname old new)"
  unfolding cas_procname_def by (intro bound_rules) simp

lemma safe_process_loop [bound_rules]:
  assumes "machine_ok os" shows "safe A B short_names (process_loop os pid p)"
proof (rule staysI)
  fix s y assume i: "mem_ok A B short_names s" and run: "process_loop os pid p s = Some y"
  from run have "machine_ok os \<longrightarrow> mem_ok A B short_names s \<longrightarrow> lands (\<lambda>_. mem_ok A B short_names) y"
  proof (rule process_loop.raw_induct [where P = "\<lambda>os pid p s y. machine_ok os \<longrightarrow>
      mem_ok A B short_names s \<longrightarrow> lands (\<lambda>_. mem_ok A B short_names) y", rotated 1], goal_cases)
    case (1 f os pid p s y)
    have "safe A B short_names (f os pid q)" if "machine_ok os" for q using 1(1) that by (intro staysI) blast
    then show ?case by (intro impI stays_run [OF 1(2)] bound_rules) simp_all
  qed
  then show "lands (\<lambda>_. mem_ok A B short_names) y" using assms i by blast
qed

text \<open>The name that is printed is short.\<close>

lemma process_name_str_short:
  assumes "machine_ok os"
  shows "inbounds (mem_ok A B short_names) (process_name_str os) (\<lambda>n s. mem_ok A B short_names s \<and> length n \<le> name_limit)"
proof -
  have "safe A B short_names (process_name os)" unfolding process_name_def by (intro bound_rules assms)
  moreover have "inbounds (mem_ok A B short_names) (load_str p) (\<lambda>n s. mem_ok A B short_names s \<and> length n \<le> name_limit)" for p
    by (auto simp: inbounds_def load_str_def bnd_gets crash_def ret_def mem_ok_def short_names_def ran_def split: option.splits)
  ultimately show ?thesis unfolding process_name_str_def by (intro inbounds_bnd [OF inbounds_stays])
qed

lemma safe_names [bound_rules]:
  assumes "machine_ok os"
  shows "safe A B short_names (process_name os)" "safe A B short_names (process_name_str os)" "safe A B short_names (err os t)"
proof -
  show n: "safe A B short_names (process_name os)" unfolding process_name_def by (intro bound_rules assms)
  then show s: "safe A B short_names (process_name_str os)" unfolding process_name_str_def by (intro bound_rules)
  show "safe A B short_names (err os t)" unfolding err_def by (intro bound_rules s safe_android_log) simp
qed

section \<open>Bblog\<close>

text \<open>A prefix with a short name fits its array.\<close>

lemma length_prefix_text:
  assumes "good_pid pid" "length n \<le> name_limit"
  shows "length (prefix_text pid n) < MAX_PREFIX_LEN" "prefix_text pid n \<noteq> []"
proof -
  have "length (dec_nat (nat pid)) \<le> 10" using assms(1) by (intro length_dec_nat) (simp_all add: nat_less_iff)
  then show "length (prefix_text pid n) < MAX_PREFIX_LEN"
    using assms by (simp add: prefix_text_def dec_int_def name_limit_def MAX_PREFIX_LEN_def)
qed (simp add: prefix_text_def)

lemma cas_procid_run:
  "cas_procid old pid s = Some (Inr (procid s = old, if procid s = old then s\<lparr>procid := pid\<rparr> else s))"
  by (simp add: cas_procid_def exec_defs)

text \<open>So the prefix is always set up, and no buffer is left without a word.\<close>

lemma reinit_sets_prefix:
  assumes ok: "machine_ok os" and pid: "good_pid pid"
  shows "inbounds (mem_ok A B short_names) (reinit_procid os pid)
    (\<lambda>r s. mem_ok A B short_names s \<and> r = 0 \<and> procid s = pid)"
  unfolding inbounds_lands
proof (intro allI impI)
  let ?I = "mem_ok A B short_names" and ?Q = "\<lambda>pid r s. mem_ok A B short_names s \<and> r = (0 :: int) \<and> procid s = pid"
  fix s :: "'a proc" and y assume i: "?I s" and run: "reinit_procid os pid s = Some y"
  from run have "machine_ok os \<and> good_pid pid \<longrightarrow> ?I s \<longrightarrow> lands (?Q pid) y"
  proof (rule reinit_procid.raw_induct [where P = "\<lambda>os pid s y. machine_ok os \<and> good_pid pid \<longrightarrow> ?I s \<longrightarrow>
      lands (?Q pid) y", rotated 1], goal_cases)
    case (1 f os pid s y)
    show ?case
    proof (intro impI)
      assume a: "machine_ok os \<and> good_pid pid" and i: "?I s"
      have f: "inbounds ?I (f os pid) (?Q pid)" unfolding inbounds_lands using 1(1) a by blast
      let ?set = "\<lambda>n s. s\<lparr>prefix := snprintf MAX_PREFIX_LEN (prefix_text pid n), prefix_len := int (length (prefix_text pid n))\<rparr>"
      let ?P = "\<lambda>s. ?I s \<and> prefix_len s < int MAX_PREFIX_LEN \<and> prefix_len s = int (length (prefix s)) \<and> prefix s \<noteq> []"
      have m: "inbounds (\<lambda>s. ?I s \<and> length n \<le> name_limit) (modify (?set n)) (\<lambda>_. ?P)" for n
        using length_prefix_text [of pid n] a
        by (auto simp: inbounds_def modify_def mem_ok_def prefix_sane_def snprintf_def MAX_PREFIX_LEN_def)
      have c: "inbounds ?P (cas_procid old pid) (\<lambda>ok s. ?I s \<and> (ok \<longrightarrow> procid s = pid))" for old
        by (simp add: inbounds_def cas_procid_run mem_ok_def prefix_sane_def)
      have t: "inbounds ?P (bnd (cas_procid old pid) (\<lambda>ok. if ok then ret 0 else f os pid)) (?Q pid)" for old
      proof (intro inbounds_bnd [OF c] inbounds_if inbounds_ret)
        show "inbounds (\<lambda>s. ?I s \<and> (ok \<longrightarrow> procid s = pid)) (f os pid) (?Q pid)" for ok
          using f by (rule inbounds_weaken) simp_all
      qed simp
      have u: "inbounds (\<lambda>s. ?P s \<and> prefix_len s = len) (if int MAX_PREFIX_LEN \<le> len
          then andthen (err os ''Prefix too long'') (ret (- 1))
          else bnd (cas_procid old pid) (\<lambda>ok. if ok then ret 0 else f os pid)) (?Q pid)" for len old
      proof (rule inbounds_if)
        show "inbounds (\<lambda>s. ?P s \<and> prefix_len s = len) (bnd (cas_procid old pid) (\<lambda>ok. if ok then ret 0 else f os pid)) (?Q pid)"
          using t by (rule inbounds_weaken) simp_all
      qed (rule inbounds_never, linarith)
      have "inbounds ?I (bnd (gets procid) (\<lambda>old_pid. if old_pid = pid then ret 0 else
          bnd (process_name_str os) (\<lambda>name. andthen (modify (?set name)) (
          bnd (gets prefix_len) (\<lambda>len. if int MAX_PREFIX_LEN \<le> len then andthen (err os ''Prefix too long'') (ret (- 1))
            else bnd (cas_procid old_pid pid) (\<lambda>ok. if ok then ret 0 else f os pid)))))) (?Q pid)"
      proof (intro inbounds_gets inbounds_if)
        fix old
        show "inbounds (\<lambda>s. ?I s \<and> procid s = old) (ret 0) (?Q pid)" if "old = pid"
          by (rule inbounds_ret) (simp add: that)
        have "inbounds ?I (bnd (process_name_str os) (\<lambda>name. andthen (modify (?set name)) (
            bnd (gets prefix_len) (\<lambda>len. if int MAX_PREFIX_LEN \<le> len then andthen (err os ''Prefix too long'') (ret (- 1))
            else bnd (cas_procid old pid) (\<lambda>ok. if ok then ret 0 else f os pid))))) (?Q pid)"
          using a by (intro inbounds_bnd [OF process_name_str_short] inbounds_andthen [OF m] inbounds_gets u) simp
        then show "inbounds (\<lambda>s. ?I s \<and> procid s = old) (bnd (process_name_str os) (\<lambda>name. andthen (modify (?set name)) (
            bnd (gets prefix_len) (\<lambda>len. if int MAX_PREFIX_LEN \<le> len then andthen (err os ''Prefix too long'') (ret (- 1))
            else bnd (cas_procid old pid) (\<lambda>ok. if ok then ret 0 else f os pid))))) (?Q pid)"
          by (rule inbounds_weaken) simp_all
      qed
      from inboundsD [OF this, of s y] i 1(2) show "lands (?Q pid) y" by (simp only:)
    qed
  qed
  then show "lands (?Q pid) y" using ok pid i by blast
qed

text \<open>A buffer that is read is a good one; one that is written must be.\<close>

lemma buffers_ok_upd:
  "buffers_ok h \<Longrightarrow> buffer_ok p b \<Longrightarrow> buffers_ok (h(p \<mapsto> b))" "buffers_ok h \<Longrightarrow> buffers_ok (h(p := None))"
  by (auto simp: buffers_ok_def)

lemma buffers_but_upd:
  "buffers_but q h \<Longrightarrow> buffer_ok q b \<Longrightarrow> buffers_ok (h(q \<mapsto> b))"
  "buffers_but q h \<Longrightarrow> length (buf b) = PIBR_BUF_SIZE \<Longrightarrow> buffers_but q (h(q \<mapsto> b))"
  "buffers_but q h \<Longrightarrow> buffers_ok (h(q := None))"
  "buffers_ok h \<Longrightarrow> length (buf b) = PIBR_BUF_SIZE \<Longrightarrow> buffers_but q (h(q \<mapsto> b))"
  by (auto simp: buffers_but_def buffers_ok_def)

lemma safe_load:
  assumes "\<And>b. buffer_ok p b \<Longrightarrow> safe buffers_ok B N (k b)"
  shows "safe buffers_ok B N (bnd (load_buf p) k)"
proof (rule staysI)
  fix s y assume i: "mem_ok buffers_ok B N s" and run: "bnd (load_buf p) k s = Some y"
  show "lands (\<lambda>_. mem_ok buffers_ok B N) y"
  proof (cases "p \<noteq> 0 \<and> bufs s p \<noteq> None")
    case True
    then obtain b where b: "bufs s p = Some b" "p \<noteq> 0" by auto
    then have "buffer_ok p b" using mem_okD(1) [OF i] by (simp add: buffers_ok_def)
    moreover have "k b s = Some y" using run by (simp add: bnd_def load_buf_run [OF b])
    ultimately show ?thesis using staysD [OF assms i] by blast
  next
    case False
    then have "load_buf p s = Some (Inl (if p = 0 then NullDeref else WildDeref))"
      by (auto simp: load_buf_def exec_defs)
    then show ?thesis using run by (auto simp: bnd_def)
  qed
qed

lemma safe_store: "buffer_ok p b \<Longrightarrow> safe buffers_ok B N (store_buf p b)"
  unfolding store_buf_def by (intro bound_rules) (auto simp: buffers_ok_upd dest: mem_okD)

lemma safe_free_buf [bound_rules]: "safe buffers_ok B N (free_buf os p)"
  unfolding free_buf_def by (intro bound_rules) (auto simp: buffers_ok_upd dest: mem_okD)

lemma word_ok_0 [simp]: "word_ok p 0"
  by (simp add: word_ok_def)

lemma safe_fetch_clear [bound_rules]: "safe buffers_ok B N (fetch_clear p)"
  unfolding fetch_clear_def by (intro safe_load bound_rules safe_store) (simp add: buffer_ok_def)

lemma safe_pack_buffer [bound_rules]: "machine_ok os \<Longrightarrow> safe A B short_names (pack_buffer os p pid i r)"
  unfolding pack_buffer_def by (intro bound_rules)

text \<open>A new buffer gets its prefix and its word.\<close>

lemma aligned_page: "(p :: addr) AND 0xfff = 0 \<Longrightarrow> 4096 dvd uint p"
  using uint_and_mask [of 12 p] by (simp add: mask12a dvd_eq_mod_eq_0)

lemma pack_buffer_word:
  assumes "machine_ok os" "4096 dvd uint q" "0 < len" "len < int MAX_PREFIX_LEN"
  shows "inbounds (mem_ok A B short_names) (pack_buffer os q pid len 0) (\<lambda>w s. mem_ok A B short_names s \<and> word_ok q w)"
  unfolding pack_buffer_def
proof (rule inbounds_if)
  show "inbounds (mem_ok A B short_names) (andthen (err os ''Invalid PID'') (ret 0)) (\<lambda>w s. mem_ok A B short_names s \<and> word_ok q w)"
    by (intro inbounds_andthen [OF inbounds_stays] inbounds_ret safe_names assms) simp
  assume pid: "\<not> (pid < 0 \<or> PID_MAX < pid)"
  then have "pibr_is (pack_word q pid len 0) pid len q 0"
    using assms by (intro pack_word_is) (simp_all add: PID_MAX_def MAX_PREFIX_LEN_def)
  then have "word_ok q (pack_word q pid len 0)"
    using assms pid unfolding word_ok_def by (intro disjI2 exI [of _ pid] exI [of _ len]) (simp add: BATCH_LIMIT_num MAX_PREFIX_LEN_def)
  then show "inbounds (mem_ok A B short_names) (ret (pack_word q pid len 0)) (\<lambda>w s. mem_ok A B short_names s \<and> word_ok q w)"
    by (intro inbounds_ret) simp
qed

lemma init_buffer_sets:
  assumes ok: "machine_ok os" and pid: "good_pid pid" and q: "q \<noteq> 0" "4096 dvd uint q"
  shows "inbounds (mem_ok (buffers_but q) B short_names) (init_buffer os q pid) (\<lambda>_. mem_ok buffers_ok B short_names)"
proof -
  let ?I = "mem_ok (buffers_but q) B short_names" and ?J = "mem_ok buffers_ok B short_names"
  have st: "inbounds (\<lambda>s. ?I s \<and> word_ok q w) (bnd (load_buf q) (\<lambda>b. store_buf q (b\<lparr>pibr := w\<rparr>))) (\<lambda>_. ?J)" for w
    unfolding inbounds_def
  proof (intro allI impI)
    fix s assume s: "?I s \<and> word_ok q w"
    then obtain b where b: "bufs s q = Some b" "length (buf b) = PIBR_BUF_SIZE"
      using mem_okD(1) [of "buffers_but q" B short_names s] by (auto simp: buffers_but_def)
    have "buffer_ok q (b\<lparr>pibr := w\<rparr>)" using s b q by (simp add: buffer_ok_def)
    then have "?J (s\<lparr>bufs := (bufs s)(q \<mapsto> b\<lparr>pibr := w\<rparr>)\<rparr>)"
      using s by (auto simp: buffers_but_upd dest: mem_okD)
    then show "bnd (load_buf q) (\<lambda>b. store_buf q (b\<lparr>pibr := w\<rparr>)) s \<noteq> Some (Inl OutOfBounds) \<and>
        (\<forall>x s'. bnd (load_buf q) (\<lambda>b. store_buf q (b\<lparr>pibr := w\<rparr>)) s = Some (Inr (x, s')) \<longrightarrow> ?J s')"
      by (simp add: bnd_def load_buf_run [OF b(1) q(1)] store_buf_run)
  qed
  have cp: "inbounds (\<lambda>s. (?I s \<and> procid s = pid) \<and> prefix s = pre) (copy_into q 0 (pre @ [NUL])) (\<lambda>_ s. ?I s \<and> procid s = pid)" for pre
    unfolding inbounds_def
  proof (intro allI impI)
    fix s assume s: "(?I s \<and> procid s = pid) \<and> prefix s = pre"
    then obtain b where b: "bufs s q = Some b" "length (buf b) = PIBR_BUF_SIZE"
      using mem_okD(1) [of "buffers_but q" B short_names s] by (auto simp: buffers_but_def)
    have "length pre < MAX_PREFIX_LEN"
      using s mem_okD(4) [of "buffers_but q" B short_names s] by (auto simp: prefix_sane_def)
    then obtain bs where w: "write_at (nat 0) (pre @ [NUL]) (buf b) = Some bs"
      using b(2) by (simp add: write_at_def size_defs MAX_PREFIX_LEN_def)
    have "?I (s\<lparr>bufs := (bufs s)(q \<mapsto> b\<lparr>buf := bs\<rparr>)\<rparr>)"
      using s length_write_at [OF w] b(2) by (auto simp: buffers_but_upd dest: mem_okD)
    then show "copy_into q 0 (pre @ [NUL]) s \<noteq> Some (Inl OutOfBounds) \<and>
        (\<forall>x s'. copy_into q 0 (pre @ [NUL]) s = Some (Inr (x, s')) \<longrightarrow> ?I s' \<and> procid s' = pid)"
      using s by (simp add: copy_into_run [OF b(1) q(1) _ w])
  qed
  have ln: "inbounds (\<lambda>s. (?I s \<and> procid s = pid) \<and> prefix_len s = len) (bnd (pack_buffer os q pid len 0)
      (\<lambda>w. bnd (load_buf q) (\<lambda>b. store_buf q (b\<lparr>pibr := w\<rparr>)))) (\<lambda>_. ?J)" for len
  proof (cases "0 < len \<and> len < int MAX_PREFIX_LEN")
    case True
    then have "inbounds ?I (bnd (pack_buffer os q pid len 0) (\<lambda>w. bnd (load_buf q) (\<lambda>b. store_buf q (b\<lparr>pibr := w\<rparr>)))) (\<lambda>_. ?J)"
      by (intro inbounds_bnd [OF pack_buffer_word [OF ok q(2)]] st) simp_all
    then show ?thesis by (rule inbounds_weaken) simp_all
  next
    case False
    then show ?thesis using pid by (intro inbounds_never) (auto simp: mem_ok_def prefix_sane_def)
  qed
  have "inbounds (\<lambda>s. ?I s \<and> procid s = pid) (bnd (gets prefix) (\<lambda>pre. andthen (copy_into q 0 (pre @ [NUL])) (
      bnd (gets prefix_len) (\<lambda>len. bnd (pack_buffer os q pid len 0) (\<lambda>w.
      bnd (load_buf q) (\<lambda>b. store_buf q (b\<lparr>pibr := w\<rparr>))))))) (\<lambda>_. ?J)" (is "inbounds _ ?m _")
    by (intro inbounds_gets inbounds_andthen [OF cp] ln)
  then have "inbounds (\<lambda>s. ?I s \<and> r = 0 \<and> procid s = pid) (if r = - 1 then ret () else ?m) (\<lambda>_. ?J)" for r :: int
    by (cases "r = 0") (auto elim: inbounds_weaken intro!: inbounds_never)
  then show ?thesis unfolding init_buffer_def by (intro inbounds_bnd [OF reinit_sets_prefix [OF ok pid]])
qed

lemma safe_alloc_buffer [bound_rules]:
  assumes ok: "machine_ok os" and pid: "good_pid pid"
  shows "safe buffers_ok B short_names (alloc_buffer os pid)"
proof (rule staysI)
  let ?J = "mem_ok buffers_ok B short_names"
  fix s y assume s: "?J s" and run: "alloc_buffer os pid s = Some y"
  obtain q b w where m: "sys_memalign os 4096 LOGGER_ENTRY_MAX_PAYLOAD (world s) = ((q, b), w)" by (metis prod.collapse)
  have b: "length (buf b) = PIBR_BUF_SIZE" using machine_okD(1) [OF ok, of "world s"] m by simp
  let ?s = "s\<lparr>world := w\<rparr>" and ?t = "s\<lparr>world := w, bufs := (bufs s)(q \<mapsto> b)\<rparr>"
  have t: "mem_ok (buffers_but q) B short_names ?t" using s b by (auto simp: buffers_but_upd dest: mem_okD)
  have f: "inbounds (mem_ok (buffers_but q) B short_names) (free_buf os q) (\<lambda>_. ?J)"
    unfolding free_buf_def stays_def [symmetric]
    by (auto simp: inbounds_def exec_defs sysc_def buffers_but_upd split: prod.splits dest: mem_okD)
  show "lands (\<lambda>_. ?J) y"
  proof (cases "q = 0")
    case True
    then have "andthen (err os ''Failed to alloc pibr'') (ret 0) ?s = Some y"
      using run m by (simp add: alloc_buffer_def bnd_def sysc_def)
    moreover have "safe buffers_ok B short_names (andthen (err os ''Failed to alloc pibr'') (ret 0))"
      by (intro bound_rules ok)
    ultimately show ?thesis using s staysD [where I = ?J and s = ?s and y = y] by fastforce
  next
    case False
    let ?k = "if q AND 0xfff \<noteq> 0
       then andthen (err os ''Failed to alloc aligned buffer'') (andthen (free_buf os q) (ret 0))
       else andthen (init_buffer os q pid) (ret q)"
    have r: "?k ?t = Some y" using run m False by (simp add: alloc_buffer_def bnd_def sysc_def andthen_def [of "store_buf q b"] store_buf_run)
    have "inbounds (mem_ok (buffers_but q) B short_names) ?k (\<lambda>_. ?J)"
    proof (intro inbounds_if inbounds_andthen)
      show "inbounds (mem_ok (buffers_but q) B short_names) (err os ''Failed to alloc aligned buffer'') (\<lambda>_. mem_ok (buffers_but q) B short_names)"
        by (intro inbounds_stays bound_rules ok)
      show "inbounds (mem_ok (buffers_but q) B short_names) (free_buf os q) (\<lambda>_. ?J)" by (rule f)
      show "inbounds (mem_ok (buffers_but q) B short_names) (init_buffer os q pid) (\<lambda>_. ?J)" if "\<not> q AND 0xfff \<noteq> 0"
        using that aligned_page [of q] by (intro init_buffer_sets ok pid False) simp
    qed (auto intro: inbounds_ret)
    from inboundsD [OF this t r] show ?thesis .
  qed
qed

text \<open>The text a flush appends stays in the buffer, and the entry it writes is at most the buffer.\<close>

lemma cstr_buffer_fits: "length bs = PIBR_BUF_SIZE \<Longrightarrow> length (cstr bs) < LOGGER_ENTRY_MAX_PAYLOAD"
  unfolding cstr_def by (rule le_less_trans [OF length_takeWhile_le]) (simp add: size_defs)

lemma safe_flush_buffer [bound_rules]: "safe buffers_ok B N (flush_buffer os p)"
proof (rule staysI)
  let ?J = "mem_ok buffers_ok B N"
  fix s :: "'a proc" and y assume s: "?J s" and run: "flush_buffer os p s = Some y"
  show "lands (\<lambda>_. ?J) y"
  proof (cases "p \<noteq> 0 \<and> bufs s p \<noteq> None")
    case False
    then show ?thesis using run s by (auto simp: flush_buffer_def load_buf_def exec_defs split: if_splits)
  next
    case True
    then obtain b where b: "bufs s p = Some b" "p \<noteq> 0" by auto
    then have ok: "buffer_ok p b" using mem_okD(1) [OF s] by (simp add: buffers_ok_def)
    have at: "bnd (load_buf p) k s = k b s" for k :: "pibr_t \<Rightarrow> ('a proc, unit) exec"
      by (rule bnd_Some) (rule load_buf_run [OF b])
    consider "procid s \<noteq> PIBR_PID (pibr b) \<or> prefix_len s = PIBR_IDX (pibr b)"
      | "procid s = PIBR_PID (pibr b)" "prefix_len s \<noteq> PIBR_IDX (pibr b)" "pibr b = 0"
      | pid e where "procid s = PIBR_PID (pibr b)" "prefix_len s \<noteq> PIBR_IDX (pibr b)"
          "pibr_is (pibr b) pid e p 0" "pid \<le> PID_MAX" "0 < e" "e < BATCH_LIMIT"
      using ok unfolding buffer_ok_def word_ok_def by blast
    then show ?thesis
    proof cases
      case 1
      then have "flush_buffer os p s = Some (Inr ((), s))" using b by (auto simp: flush_buffer_def at bnd_gets ret_def)
      then show ?thesis using run s by simp
    next
      case 2
      have "pibr_is (pack_word p 0 0 0) 0 0 p 0"
        using ok by (intro pack_word_is) (simp_all add: buffer_ok_def)
      then have "pack_word p 0 0 0 \<noteq> 0" using b by (auto simp: pibr_is_def pibr_val_def word_uint_eq_iff)
      then have "await_quiet p (pack_word p 0 0 0) s = None" using 2 b by (simp add: await_quiet_outcome)
      moreover have "PIBR_PID 0 = 0" "PIBR_IDX 0 = 0" by (simp_all add: PIBR_PID_num PIBR_IDX_num)
      ultimately have "flush_buffer os p s = None"
        using 2 b by (simp add: flush_buffer_def at bnd_gets pack_buffer_def PID_MAX_def andthen_def bnd_None)
      then show ?thesis using run by simp
    next
      case 3
      note f = pibr_is_fields [OF 3(3)]
      have w: "pack_word p pid e 0 = pibr b"
        using 3 ok by (intro pibr_is_unique [OF pack_word_is]) (auto simp: pibr_is_def)
      have len: "length (buf b) = PIBR_BUF_SIZE" using ok by (simp add: buffer_ok_def)
      have "nat (e - 1) \<le> 4065" using 3 by (simp add: BATCH_LIMIT_num)
      then obtain bs where bs: "write_at (nat (e - 1)) (''}}'' @ [NUL]) (buf b) = Some bs"
        using len by (simp add: write_at_def size_defs)
      then have lbs: "length bs = PIBR_BUF_SIZE" using len by (simp add: length_write_at)
      let ?b = "b\<lparr>pibr := 0\<rparr>" and ?c = "b\<lparr>pibr := 0, buf := bs\<rparr>"
      let ?s = "s\<lparr>bufs := (bufs s)(p \<mapsto> ?b)\<rparr>" and ?t = "s\<lparr>bufs := (bufs s)(p \<mapsto> ?c)\<rparr>"
      let ?k = "andthen (android_log os ANDROID_LOG_INFO TAG_IO (cstr bs)) (
        bnd (sysc (sys_clock os)) (\<lambda>secs. andthen (modify (\<lambda>s. s\<lparr>last_flush_secs := secs\<rparr>)) (free_buf os p)))"
      have aq: "await_quiet p (pibr b) s = Some (Inr ((), ?s))" using b by (simp add: await_quiet_outcome)
      have cp: "copy_into p (e - 1) (''}}'' @ [NUL]) ?s = Some (Inr ((), ?t))"
        using copy_into_run [of ?s p ?b "e - 1" "''}}'' @ [NUL]" bs] b bs 3 by simp
      have ld: "load_buf p ?t = Some (Inr (?c, ?t))" using b by (intro load_buf_run) simp_all
      have aq': "andthen (await_quiet p (pibr b)) k s = k ?s"
        and cp': "andthen (copy_into p (e - 1) [CHR ''}'', CHR ''}'', NUL]) k ?s = k ?t" for k :: "('a proc, unit) exec"
        unfolding andthen_def using aq cp by (simp_all add: bnd_def)
      have ld': "bnd (load_buf p) k ?t = k ?c ?t" for k :: "pibr_t \<Rightarrow> ('a proc, unit) exec" by (rule bnd_Some) (rule ld)
      have "flush_buffer os p s = ?k ?t"
        using b 3 w f by (simp add: flush_buffer_def at bnd_gets pack_buffer_def aq' cp' ld' pibr_is_def)
      moreover have "safe buffers_ok B N ?k" by (intro bound_rules safe_android_log) (simp_all add: cstr_buffer_fits lbs)
      moreover have "?J ?t"
        using s ok lbs by (auto simp: buffer_ok_def intro!: buffers_ok_upd dest: mem_okD)
      ultimately show ?thesis using run staysD by metis
    qed
  qed
qed

lemma safe_cas_proc_pibr [bound_rules]: "safe A B N (cas_proc_pibr old new)"
  unfolding cas_proc_pibr_def by (intro bound_rules) simp

lemma safe_swap [bound_rules]:
  assumes "machine_ok os" "good_pid pid"
  shows "safe buffers_ok B short_names (swap_buffers os p pid)" "safe buffers_ok B short_names (swap_and_flush_buffer os p pid)"
proof -
  show s: "safe buffers_ok B short_names (swap_buffers os p pid)"
    unfolding swap_buffers_def by (intro bound_rules assms) simp
  then show "safe buffers_ok B short_names (swap_and_flush_buffer os p pid)"
    unfolding swap_and_flush_buffer_def by (intro bound_rules)
qed

text \<open>
  A record that is granted room is copied inside the buffer, because of the test of its size, and
  leaves an index with room for the end of the text; one that is refused leaves the word as it was.
\<close>

lemma safe_blog_body:
  assumes ok: "machine_ok os" and pid: "good_pid pid" and len: "length r \<le> 2 * BUFFER_SIZE"
    and k: "safe buffers_ok B short_names k"
  shows "safe buffers_ok B short_names (blog_body os pid (pack_word 0 0 (int (length r)) 1) r k)"
proof (rule staysI)
  let ?J = "mem_ok buffers_ok B short_names" and ?incr = "pack_word 0 0 (int (length r)) 1" and ?m = "blog_body os pid (pack_word 0 0 (int (length r)) 1) r k"
  fix s y assume s: "?J s" and run: "?m s = Some y"
  let ?p = "proc_pibr s"
  show "lands (\<lambda>_. ?J) y"
  proof (cases "?p \<noteq> 0 \<and> bufs s ?p \<noteq> None")
    case False
    then have "fetch_add ?p ?incr s = Some (Inl (if ?p = 0 then NullDeref else WildDeref))"
      by (auto simp: fetch_add_def load_buf_def exec_defs)
    then have "?m s = Some (Inl (if ?p = 0 then NullDeref else WildDeref))"
      by (simp add: blog_body_def bnd_gets bnd_fault)
    then show ?thesis using run by auto
  next
    case True
    then obtain b where b: "bufs s ?p = Some b" "?p \<noteq> 0" by auto
    have bok: "buffer_ok ?p b" using mem_okD(1) [OF s] b by (simp add: buffers_ok_def)
    let ?s = "s\<lparr>bufs := (bufs s)(?p \<mapsto> b\<lparr>pibr := pibr b + ?incr\<rparr>)\<rparr>"
    have fa: "fetch_add ?p ?incr s = Some (Inr (pibr b, ?s))" by (rule fetch_add_run [OF b])
    consider "pibr b = 0" | bpid e where "pibr_is (pibr b) bpid e ?p 0" "bpid \<le> PID_MAX" "0 < e" "e < BATCH_LIMIT"
      using bok unfolding buffer_ok_def word_ok_def by blast
    then show ?thesis
    proof cases
      case 1
      have "PIBR_PTR 0 = 0" by (simp add: PIBR_PTR_def)
      then have "?m s = Some (Inl NullDeref)"
        using fa 1 by (simp add: blog_body_def bnd_def gets_def andthen_def fetch_sub_def load_buf_def crash_def)
      then show ?thesis using run by simp
    next
      case 2
      note f = pibr_is_fields [OF 2(1)]
      show ?thesis
      proof (cases "bpid = pid \<and> e + int (length r) < BATCH_LIMIT")
        case False
        have "?m s = bnd (swap_and_flush_buffer os ?p pid) (\<lambda>_. k) s" by (rule blog_body_retry [OF b 2(1) False])
        then have "bnd (swap_and_flush_buffer os ?p pid) (\<lambda>_. k) s = Some y" using run by simp
        moreover have "safe buffers_ok B short_names (bnd (swap_and_flush_buffer os ?p pid) (\<lambda>_. k))"
          by (intro bound_rules ok pid k)
        ultimately show ?thesis using staysD s by metis
      next
        case True
        have lb: "length (buf b) = PIBR_BUF_SIZE" using bok by (simp add: buffer_ok_def)
        have "e + int (length r) < 4044" using True by (simp add: BATCH_LIMIT_num)
        then have "nat e + length r \<le> PIBR_BUF_SIZE" using 2 unfolding size_defs by linarith
        then obtain bs where bs: "write_at (nat e) r (buf b) = Some bs" using lb by (simp add: write_at_def)
        have w1: "pibr_is (pibr b + ?incr) bpid (e + int (length r)) ?p 1"
          using pibr_reserve [OF 2(1), of "int (length r)" 1] True by (simp add: BATCH_LIMIT_num)
        have w2: "pibr_is (pibr b + ?incr - 1) bpid (e + int (length r)) ?p 0" using pibr_unref [OF w1] by simp
        let ?c = "b\<lparr>buf := bs, pibr := pibr b + ?incr - 1\<rparr>"
        have "?m s = Some (Inr (int (length r), s\<lparr>bufs := (bufs s)(?p \<mapsto> ?c)\<rparr>))"
          using b f True 2 bs by (simp add: blog_body_def bnd_def andthen_def gets_def fetch_add_run copy_into_run fetch_sub_run ret_def)
        moreover have "buffer_ok ?p ?c"
          using bok lb length_write_at [OF bs] w2 True 2 unfolding buffer_ok_def word_ok_def by auto
        ultimately show ?thesis using run s by (auto intro!: buffers_ok_upd dest: mem_okD)
      qed
    qed
  qed
qed

lemma safe_blog_loop:
  assumes "machine_ok os" "good_pid pid" "length r \<le> 2 * BUFFER_SIZE"
  shows "safe buffers_ok B short_names (blog_loop os pid (pack_word 0 0 (int (length r)) 1) r)"
proof (rule staysI)
  let ?J = "mem_ok buffers_ok B short_names"
    and ?H = "\<lambda>os pid incr (r :: string). machine_ok os \<and> good_pid pid \<and> length r \<le> 2 * BUFFER_SIZE \<and> incr = pack_word 0 0 (int (length r)) 1"
  fix s y assume i: "?J s" and run: "blog_loop os pid (pack_word 0 0 (int (length r)) 1) r s = Some y"
  from run have "?H os pid (pack_word 0 0 (int (length r)) 1) r \<longrightarrow> ?J s \<longrightarrow> lands (\<lambda>_. ?J) y"
  proof (rule blog_loop.raw_induct [where P = "\<lambda>os pid incr r s y. ?H os pid incr r \<longrightarrow> ?J s \<longrightarrow> lands (\<lambda>_. ?J) y",
      rotated 1], goal_cases)
    case (1 f os pid incr r s y)
    show ?case
    proof (intro impI)
      assume h: "?H os pid incr r" and i: "?J s"
      have "safe buffers_ok B short_names (f os pid incr r)" using 1(1) h by (intro staysI) blast
      then have "safe buffers_ok B short_names (blog_body os pid incr r (f os pid incr r))"
        using h safe_blog_body [of os pid r B "f os pid incr r"] by simp
      moreover have "blog_body os pid incr r (f os pid incr r) s = Some y" unfolding blog_body_def by (rule 1(2))
      ultimately show "lands (\<lambda>_. ?J) y" using staysD i by metis
    qed
  qed
  then show "lands (\<lambda>_. ?J) y" using assms i by blast
qed

text \<open>Asking for the process number.\<close>

lemma safe_getpid [bound_rules]:
  assumes "machine_ok os" "\<And>pid. good_pid pid \<Longrightarrow> safe A B N (k pid)"
  shows "safe A B N (bnd (asks (sys_getpid os)) k)"
proof (rule staysI)
  fix s y assume s: "mem_ok A B N s" and run: "bnd (asks (sys_getpid os)) k s = Some y"
  have "k (sys_getpid os (world s)) s = Some y" using run by (simp add: asks_def bnd_gets)
  then show "lands (\<lambda>_. mem_ok A B N) y" using staysD [OF assms(2) s] machine_okD(2) [OF assms(1)] by blast
qed

lemma safe_do_blog:
  assumes "machine_ok os" "length r \<le> 2 * BUFFER_SIZE"
  shows "safe buffers_ok B short_names (do_blog os r)"
proof -
  have "pack_buffer os 0 0 (int (length r)) 1 = ret (pack_word 0 0 (int (length r)) 1)"
    by (simp add: pack_buffer_def PID_MAX_def)
  then show ?thesis unfolding do_blog_def by (simp, intro safe_getpid safe_blog_loop assms)
qed

lemma safe_bblog [bound_rules]:
  assumes "machine_ok os" shows "safe buffers_ok B short_names (bblog os m)"
proof -
  have "length (snprintf 32 h @ snprintf (BUFFER_SIZE - n - 2) m @ '','') \<le> 2 * BUFFER_SIZE" for h n
    by (auto simp: snprintf_def size_defs min_def)
  then show ?thesis
    unfolding bblog_def cntr_def Let_def by (intro bound_rules safe_do_blog assms) simp_all
qed

section \<open>Flusher and Lifecycle\<close>

lemma safe_ti [bound_rules]:
  "safe A B N (load_ti p)" "safe A B N (store_ti p t)" "safe A B N (free_ti os p)"
  unfolding load_ti_def store_ti_def free_ti_def by (intro bound_rules; simp)+

lemma safe_flusher_step [bound_rules]:
  assumes "machine_ok os" shows "safe buffers_ok B short_names (flusher_step os info)"
  unfolding flusher_step_def by (intro safe_getpid bound_rules assms; simp)

lemma safe_flusher_loop [bound_rules]:
  assumes "machine_ok os" shows "safe buffers_ok B short_names (flusher_loop os info)"
proof (rule staysI)
  let ?J = "mem_ok buffers_ok B short_names"
  fix s y assume i: "?J s" and run: "flusher_loop os info s = Some y"
  from run have "machine_ok os \<longrightarrow> ?J s \<longrightarrow> lands (\<lambda>_. ?J) y"
  proof (rule flusher_loop.raw_induct [where P = "\<lambda>os info s y. machine_ok os \<longrightarrow> ?J s \<longrightarrow> lands (\<lambda>_. ?J) y",
      rotated 1], goal_cases)
    case (1 f os info s y)
    have "safe buffers_ok B short_names (f os info)" if "machine_ok os" using 1(1) that by (intro staysI) blast
    then show ?case by (intro impI stays_run [OF 1(2)] bound_rules) simp_all
  qed
  then show "lands (\<lambda>_. ?J) y" using assms i by blast
qed

lemma safe_start_stop [bound_rules]:
  assumes "machine_ok os"
  shows "safe A B short_names (start_flusher_thread os)" "safe buffers_ok B short_names (stop_flusher_thread os)"
proof -
  have id: "safe A B short_names (in_dir os d v n)" for d v n
    unfolding in_dir_def override_openat_def by (intro bound_rules; simp)
  show "safe A B short_names (start_flusher_thread os)"
    unfolding start_flusher_thread_def skip_process_def init_pthread_def cas_flusher_info_def
    by (intro bound_rules id assms; simp)
  show "safe buffers_ok B short_names (stop_flusher_thread os)"
    unfolding stop_flusher_thread_def join_flusher_def by (intro bound_rules assms; simp)
qed

lemma safe_init_exit [bound_rules]:
  assumes "machine_ok os"
  shows "safe buffers_ok B short_names (bblog_init os main)" "safe buffers_ok B short_names (bblog_exit os main)"
  unfolding bblog_init_def bblog_exit_def by (intro safe_getpid bound_rules assms; simp)+

section \<open>The interposers\<close>

lemma safe_notify [bound_rules]:
  assumes "machine_ok os"
  shows "safe buffers_ok B short_names (stamped os mk)" "safe buffers_ok B short_names (notify_mmap os op p a prot sz off)"
    "safe buffers_ok B short_names (notify_unlink os op flags p)"
    "safe buffers_ok B short_names (notify_rename os op flags old new)" "safe buffers_ok B short_names (notify_create os op p)"
    "safe buffers_ok B short_names (notify_thread_init os main)" "safe buffers_ok B short_names (notify_thread_exit os main)"
  unfolding stamped_def notify_mmap_def notify_unlink_def notify_rename_def notify_create_def
    notify_thread_init_def notify_thread_exit_def
  by (intro bound_rules assms; simp)+

text \<open>The access string that is cut at the end is not empty.\<close>

lemma safe_notify_read_write:
  "machine_ok os \<Longrightarrow> str \<noteq> [] \<Longrightarrow> safe buffers_ok B short_names (notify_read_write os op p fd sz off str)"
  unfolding notify_read_write_def by (simp, intro bound_rules; simp)

lemma strings_ok_upd:
  "strings_ok h \<Longrightarrow> last_fd ch = - 1 \<or> iostr ch \<noteq> [] \<Longrightarrow> strings_ok (h(c := ch))"
  "strings_but c h \<Longrightarrow> last_fd ch = - 1 \<or> iostr ch \<noteq> [] \<Longrightarrow> strings_ok (h(c := ch))"
  "strings_ok h \<Longrightarrow> strings_but c (h(c := ch))" "strings_ok h \<Longrightarrow> strings_but c h"
  by (auto simp: strings_ok_def strings_but_def)

lemma safe_upd_chan:
  "(\<And>ch. last_fd ch = - 1 \<or> iostr ch \<noteq> [] \<Longrightarrow> last_fd (f ch) = - 1 \<or> iostr (f ch) \<noteq> []) \<Longrightarrow>
     safe A strings_ok N (upd_chan c f)"
  by (intro stays_upd_chan) (auto simp: mem_ok_def strings_ok_def prefix_sane_def)

lemma snprintf_nonempty: "1 < n \<Longrightarrow> t \<noteq> [] \<Longrightarrow> snprintf n t \<noteq> []"
  by (cases t) (simp_all add: snprintf_def)

lemma io_entry_nonempty: "io_entry sz off \<noteq> []"
  by (simp add: io_entry_def)

lemma safe_batch_notify [bound_rules]:
  assumes ok: "machine_ok os"
  shows "safe buffers_ok strings_ok short_names (batch_read_write_notify os c op fd cs ce sz off)"
proof -
  let ?J = "mem_ok buffers_ok strings_ok short_names" and ?K = "mem_ok buffers_ok (strings_but c) short_names"
  let ?set = "\<lambda>ch. ch\<lparr>last_fd := fd, last_off := cs, last_size := u32 (ce - cs + 1), iostr := snprintf IOSTR_BUFSIZE (io_entry sz off)\<rparr>"
  have new: "inbounds ?K (upd_chan c ?set) (\<lambda>_. ?J)"
    using snprintf_nonempty [of IOSTR_BUFSIZE, OF _ io_entry_nonempty]
    by (auto simp: inbounds_def upd_chan_def modify_def size_defs dest: mem_okD intro!: strings_ok_upd(2))
  have cut: "inbounds ?J (upd_chan c (\<lambda>ch. ch\<lparr>iostr := t\<rparr>)) (\<lambda>_. ?K)" for t
    by (auto simp: inbounds_def upd_chan_def modify_def strings_ok_upd dest: mem_okD)
  have old: "inbounds (\<lambda>s. ?J s \<and> chans s c = ch)
      (if last_fd ch \<noteq> - 1 \<and> last_size ch \<noteq> 0
       then bnd (notify_read_write os op (path ch) (last_fd ch) (last_size ch) (last_off ch) (iostr ch))
              (\<lambda>str. upd_chan c (\<lambda>ch. ch\<lparr>iostr := str\<rparr>)) else ret ()) (\<lambda>_. ?K)" for ch
  proof (rule inbounds_if)
    assume fd: "last_fd ch \<noteq> - 1 \<and> last_size ch \<noteq> 0"
    show "inbounds (\<lambda>s. ?J s \<and> chans s c = ch)
      (bnd (notify_read_write os op (path ch) (last_fd ch) (last_size ch) (last_off ch) (iostr ch))
              (\<lambda>str. upd_chan c (\<lambda>ch. ch\<lparr>iostr := str\<rparr>))) (\<lambda>_. ?K)"
    proof (cases "iostr ch = []")
      case True
      then show ?thesis using fd by (intro inbounds_never) (auto simp: strings_ok_def dest!: mem_okD(2))
    next
      case False
      have "inbounds ?J (bnd (notify_read_write os op (path ch) (last_fd ch) (last_size ch) (last_off ch) (iostr ch))
              (\<lambda>str. upd_chan c (\<lambda>ch. ch\<lparr>iostr := str\<rparr>))) (\<lambda>_. ?K)"
        by (intro inbounds_bnd [OF inbounds_stays] safe_notify_read_write ok False cut)
      then show ?thesis by (rule inbounds_weaken) simp_all
    qed
  qed (rule inbounds_ret, auto simp: mem_ok_def strings_ok_upd)
  show ?thesis
    unfolding batch_read_write_notify_def stays_def by (intro inbounds_gets inbounds_andthen [OF old] new)
qed

lemma safe_batch [bound_rules]:
  assumes ok: "machine_ok os"
  shows "safe buffers_ok strings_ok short_names (batch_read_write_first os c op fd sz off)"
    "safe buffers_ok strings_ok short_names (batch_read_write_second os c op fd sz off)"
proof -
  have "safe buffers_ok strings_ok short_names (record_iostr os c op fd cs ce sz off)" for cs ce
    unfolding record_iostr_def Let_def
    by (intro bound_rules ok safe_upd_chan) (simp add: snprintf_nonempty io_entry_nonempty)
  then show "safe buffers_ok strings_ok short_names (batch_read_write_first os c op fd sz off)"
    unfolding batch_read_write_first_def Let_def by (intro bound_rules ok safe_upd_chan; simp)
  show "safe buffers_ok strings_ok short_names (batch_read_write_second os c op fd sz off)"
    unfolding batch_read_write_second_def by (intro bound_rules ok)
qed

lemma safe_rw_close [bound_rules]:
  assumes ok: "machine_ok os"
  shows "safe buffers_ok strings_ok short_names (rw_close os c op fd)"
proof -
  let ?J = "mem_ok buffers_ok strings_ok short_names"
  let ?m = "\<lambda>ch. bnd (notify_read_write os (op @ (if fd = - 1 then '' (exit)'' else '' (close)''))
                (path ch) (last_fd ch) (last_size ch) (last_off ch) (iostr ch)) (\<lambda>str.
          upd_chan c (\<lambda>ch. ch\<lparr>iostr := str, last_fd := - 1\<rparr>))"
  have "inbounds (\<lambda>s. ?J s \<and> chans s c = ch) (?m ch) (\<lambda>_. ?J)" if fd: "last_fd ch \<noteq> - 1" for ch
  proof (cases "iostr ch = []")
    case True
    then show ?thesis using fd by (intro inbounds_never) (auto simp: strings_ok_def dest!: mem_okD(2))
  next
    case False
    have "safe buffers_ok strings_ok short_names (?m ch)"
      by (intro stays_bnd safe_notify_read_write ok False safe_upd_chan) simp
    then show ?thesis unfolding stays_def by (rule inbounds_weaken) simp_all
  qed
  then show ?thesis
    unfolding rw_close_def stays_def by (intro inbounds_gets inbounds_if inbounds_ret) auto
qed

lemma safe_paths [bound_rules]:
  "safe A B N (fd_to_path os fd)" "safe A B N (notify os fd flags p)" "safe A strings_ok N (retarget os c fd)"
  "safe A B N (at_path os fd name)" "safe A B N (missing os p)"
proof -
  show f: "safe A B N (fd_to_path os fd)" for B unfolding fd_to_path_def by (intro bound_rules; simp)
  show n: "safe A B N (notify os fd flags p)" for fd flags p B unfolding notify_def by (intro bound_rules; simp)
  show "safe A strings_ok N (retarget os c fd)" unfolding retarget_def by (intro bound_rules f n safe_upd_chan; simp)
  show "safe A B N (at_path os fd name)" unfolding at_path_def by (intro bound_rules f n; simp)
  show "safe A B N (missing os p)" unfolding missing_def by (intro bound_rules; simp)
qed

lemma safe_trace [bound_rules]:
  assumes "machine_ok os"
  shows "safe buffers_ok strings_ok short_names (trace_seek os c op check fd n)"
    "safe buffers_ok strings_ok short_names (trace_at os c op fd n off)"
  unfolding trace_seek_def trace_at_def with_pos_def Let_def by (intro bound_rules assms; simp)+

lemma safe_sym_init [bound_rules]: "safe A B N m \<Longrightarrow> safe A B N (sym_init os v name alt m)"
  unfolding sym_init_def by (intro bound_rules; simp)

lemma safe_data_calls:
  assumes "machine_ok os"
  shows "safe buffers_ok strings_ok short_names (read_io os fd n)" "safe buffers_ok strings_ok short_names (write_io os fd bs)"
    "safe buffers_ok strings_ok short_names (do_pread64 os op fd n off)"
    "safe buffers_ok strings_ok short_names (do_pwrite64 os op fd bs off)"
    "safe buffers_ok strings_ok short_names (fread os sz count fp)" "safe buffers_ok strings_ok short_names (fwrite os bs sz count fp)"
  unfolding read_io_def read_init_def write_io_def write_init_def do_pread64_def pread64_init_def
    do_pwrite64_def pwrite64_init_def fread_def fread_init_def fwrite_def fwrite_init_def
  by (intro bound_rules assms; simp)+

lemma safe_file_calls:
  assumes "machine_ok os"
  shows "safe buffers_ok strings_ok short_names (do_openat os op fd p flags md)"
    "safe buffers_ok strings_ok short_names (fopen os p md')"
    "safe buffers_ok strings_ok short_names (do_renameat os op fd p fd' p')"
    "safe buffers_ok strings_ok short_names (do_unlinkat os op fd p flags)"
    "safe buffers_ok strings_ok short_names (do_mmap64 os op a n prot flags fd off)"
  unfolding do_openat_def open_init_def report_create_def fopen_def fopen_init_def do_renameat_def rename_init_def
    do_unlinkat_def unlink_init_def do_mmap64_def mmap_init_def prot_str_def
  by (intro bound_rules assms; simp)+

lemma safe_close_common [bound_rules]:
  "machine_ok os \<Longrightarrow> safe buffers_ok strings_ok short_names (close_common os fd)"
  unfolding close_common_def read_close_def pread64_close_def fread_close_def write_close_def fwrite_close_def
    pwrite64_close_def mmap_close_def by (intro bound_rules)

lemma safe_close_calls:
  assumes "machine_ok os"
  shows "safe buffers_ok strings_ok short_names (close_fd os fd)" "safe buffers_ok strings_ok short_names (fclose os fp)"
  unfolding close_fd_def close_init_def fclose_def fclose_init_def by (intro bound_rules assms; simp)+

lemma safe_pthread_common [bound_rules]:
  "machine_ok os \<Longrightarrow> safe buffers_ok strings_ok short_names (pthread_common os created main)"
  unfolding pthread_common_def by (intro bound_rules; simp)

lemma safe_process_calls:
  assumes "machine_ok os"
  shows "safe buffers_ok strings_ok short_names (init os)" "safe buffers_ok strings_ok short_names (fini os)"
    "safe buffers_ok strings_ok short_names (pthread_create os start arg)" "safe buffers_ok strings_ok short_names (pthread_exit os v)"
    "safe buffers_ok strings_ok short_names (clone os fn stk flags arg va)"
    "safe buffers_ok strings_ok short_names (execve os name argv envp)"
    "safe buffers_ok strings_ok short_names (execvpe os name argv envp)"
    "safe buffers_ok strings_ok short_names (aggregate_handler os sg)"
proof -
  have "safe buffers_ok strings_ok short_names (init_signal os)"
    unfolding init_signal_def save_handler_def set_handler_def by (intro bound_rules assms; simp)
  then show "safe buffers_ok strings_ok short_names (init os)" unfolding init_def by (intro bound_rules assms; simp)
  show "safe buffers_ok strings_ok short_names (fini os)" unfolding fini_def by (intro bound_rules assms; simp)
  show "safe buffers_ok strings_ok short_names (pthread_create os start arg)"
    "safe buffers_ok strings_ok short_names (pthread_exit os v)"
    "safe buffers_ok strings_ok short_names (clone os fn stk flags arg va)"
    unfolding pthread_create_def pthread_create_init_def pthread_exit_def pthread_exit_init_def clone_def clone_init_def Let_def
    by (intro bound_rules assms; simp)+
  show "safe buffers_ok strings_ok short_names (execve os name argv envp)"
    "safe buffers_ok strings_ok short_names (execvpe os name argv envp)"
    unfolding execve_def init_execve_def execvpe_def init_execvpe_def by (intro bound_rules assms; simp)+
  show "safe buffers_ok strings_ok short_names (aggregate_handler os sg)"
    unfolding aggregate_handler_def run_handler_def by (intro bound_rules assms; simp)
qed

end
