(* ===== verification/System.thy ===== *)
theory System
  imports Channels Memory
begin

text \<open>
  The tracer as a whole: the functions it exports and the rounds of its flusher as one type of
  calls, a process as shared variables and the thread-local ones of each thread, and the runs in
  which the threads' calls follow one another in any order.  The invariants of \<open>Channels\<close> and
  \<open>Memory\<close> hold in every state such a run reaches.
\<close>

section \<open>The calls\<close>

datatype api =
    Do_init | Do_fini
  | Do_read int nat | Do_write int string
  | Do_pread64 int nat int | Do_pread int nat int | Do_pwrite64 int string int | Do_pwrite int string int
  | Do_fread nat nat nat | Do_fwrite string nat nat nat
  | Do_creat string int | Do_open string int int | Do_openat int string int int | Do_fopen string string
  | Do_rename string string | Do_renameat int string int string | Do_unlink string | Do_unlinkat int string int
  | Do_mmap addr nat int int int int | Do_mmap64 addr nat int int int int
  | Do_close int | Do_fclose nat
  | Do_pthread_create nat nat | Do_pthread_exit nat | Do_clone nat addr int nat nat nat nat
  | Do_execve string "string list" "string list" | Do_execvpe string "string list" "string list"
  | Do_signal int | Do_flush addr

fun run_api :: "'w os \<Rightarrow> api \<Rightarrow> ('w proc, unit) exec" where
  "run_api os Do_init = init os"
| "run_api os Do_fini = fini os"
| "run_api os (Do_read fd n) = andthen (read_io os fd n) (ret ())"
| "run_api os (Do_write fd bs) = andthen (write_io os fd bs) (ret ())"
| "run_api os (Do_pread64 fd n off) = andthen (pread64 os fd n off) (ret ())"
| "run_api os (Do_pread fd n off) = andthen (pread os fd n off) (ret ())"
| "run_api os (Do_pwrite64 fd bs off) = andthen (pwrite64 os fd bs off) (ret ())"
| "run_api os (Do_pwrite fd bs off) = andthen (pwrite os fd bs off) (ret ())"
| "run_api os (Do_fread sz count fp) = andthen (fread os sz count fp) (ret ())"
| "run_api os (Do_fwrite bs sz count fp) = andthen (fwrite os bs sz count fp) (ret ())"
| "run_api os (Do_creat p md) = andthen (creat os p md) (ret ())"
| "run_api os (Do_open p flags md) = andthen (open_file os p flags md) (ret ())"
| "run_api os (Do_openat fd p flags md) = andthen (openat os fd p flags md) (ret ())"
| "run_api os (Do_fopen p md) = andthen (fopen os p md) (ret ())"
| "run_api os (Do_rename old new) = andthen (rename os old new) (ret ())"
| "run_api os (Do_renameat fd old fd' new) = andthen (renameat os fd old fd' new) (ret ())"
| "run_api os (Do_unlink p) = andthen (unlink os p) (ret ())"
| "run_api os (Do_unlinkat fd p flags) = andthen (unlinkat os fd p flags) (ret ())"
| "run_api os (Do_mmap a n prot flags fd off) = andthen (mmap os a n prot flags fd off) (ret ())"
| "run_api os (Do_mmap64 a n prot flags fd off) = andthen (mmap64 os a n prot flags fd off) (ret ())"
| "run_api os (Do_close fd) = andthen (close_fd os fd) (ret ())"
| "run_api os (Do_fclose fp) = andthen (fclose os fp) (ret ())"
| "run_api os (Do_pthread_create start arg) = andthen (pthread_create os start arg) (ret ())"
| "run_api os (Do_pthread_exit v) = pthread_exit os v"
| "run_api os (Do_clone fn stk flags arg x y z) = andthen (clone os fn stk flags arg (x, y, z)) (ret ())"
| "run_api os (Do_execve name argv envp) = andthen (execve os name argv envp) (ret ())"
| "run_api os (Do_execvpe name argv envp) = andthen (execvpe os name argv envp) (ret ())"
| "run_api os (Do_signal sg) = aggregate_handler os sg"
| "run_api os (Do_flush info) = andthen (flusher_step os info) (ret ())"

text \<open>
  The variables declared \<open>static __thread\<close> that this build uses are the channels and those of
  \<open>mmap.c\<close>.  A call of thread \<open>i\<close> runs on the shared variables with the thread's own put in.
\<close>

record thread_vars =
  t_chans :: "chanid \<Rightarrow> chan"
  t_mmap :: mmap_vars

record 'w process =
  shared :: "'w proc"
  threads :: "nat \<Rightarrow> thread_vars"

definition switch_in :: "nat \<Rightarrow> 'w process \<Rightarrow> 'w proc" where
  "switch_in i P = (shared P)\<lparr>chans := t_chans (threads P i), mmap_v := t_mmap (threads P i)\<rparr>"

definition switch_out :: "nat \<Rightarrow> 'w proc \<Rightarrow> 'w process \<Rightarrow> 'w process" where
  "switch_out i s P = P\<lparr>shared := s, threads := (threads P)(i := \<lparr>t_chans = chans s, t_mmap = mmap_v s\<rparr>)\<rparr>"

inductive runs :: "'w os \<Rightarrow> 'w process \<Rightarrow> (nat \<times> api) list \<Rightarrow> 'w process \<Rightarrow> bool" for os where
  stop: "runs os P [] P"
| step: "run_api os c (switch_in i P) = Some (Inr ((), s)) \<Longrightarrow> runs os (switch_out i s P) cs P' \<Longrightarrow>
    runs os P ((i, c) # cs) P'"

inductive_simps runs_simps [simp]: "runs os P [] P'" "runs os P ((i, c) # cs) P'"

text \<open>The rule for an invariant: each call keeps it.\<close>

lemma runs_invariant:
  assumes "runs os P cs P'" and "I P" and "list_all (\<lambda>(i, c). A c) cs"
    and "\<And>i c P s. A c \<Longrightarrow> I P \<Longrightarrow> run_api os c (switch_in i P) = Some (Inr ((), s)) \<Longrightarrow> I (switch_out i s P)"
  shows "I P'"
  using assms(1-3) by induction (auto intro: assms(4))

section \<open>What is assumed of the system calls\<close>

text \<open>
  Byte counts are \<open>ssize_t\<close> values, item counts do not exceed what was asked for, a file
  position is \<open>-1\<close> or below the largest file size, and data is only transferred below it.
\<close>

definition kernel_ok :: "'w os \<Rightarrow> bool" where
  "kernel_ok os \<longleftrightarrow> seek_ok os \<and>
     (\<forall>f fd n w. fst (fst (sys_read os f fd n w)) < 2 ^ 31) \<and>
     (\<forall>f fd bs w. fst (sys_write os f fd bs w) < 2 ^ 31) \<and>
     (\<forall>f fd n off w. fst (fst (sys_pread64 os f fd n off w)) < 2 ^ 31 \<and>
        (0 < fst (fst (sys_pread64 os f fd n off w)) \<longrightarrow> off < 2 ^ 62)) \<and>
     (\<forall>f fd bs off w. fst (sys_pwrite64 os f fd bs off w) < 2 ^ 31 \<and>
        (0 < fst (sys_pwrite64 os f fd bs off w) \<longrightarrow> off < 2 ^ 62)) \<and>
     (\<forall>f sz count fp w. fst (fst (sys_fread os f sz count fp w)) \<le> int count) \<and>
     (\<forall>f bs sz count fp w. fst (sys_fwrite os f bs sz count fp w) \<le> int count)"

fun api_ok :: "api \<Rightarrow> bool" where
  "api_ok (Do_fread sz count fp) = (count < 2 ^ 31)"
| "api_ok (Do_fwrite bs sz count fp) = (count < 2 ^ 31)"
| "api_ok _ = True"

section \<open>The data calls\<close>

context passthru
begin

lemma io_upholds:
  assumes "upholds (complain os)" and "\<And>f w. upholds (report os a (fst (real os a f w)))"
  shows "upholds (io os a)"
proof -
  have "upholds (bnd (call slot (real os a)) (\<lambda>r. andthen (report os a r) (ret r)))"
  proof (rule preservesI)
    fix s x s'
    assume run: "bnd (call slot (real os a)) (\<lambda>r. andthen (report os a r) (ret r)) s = Some (Inr (x, s'))"
      and i: "chans_inv (chans s)"
    obtain r s1 where c: "call slot (real os a) s = Some (Inr (r, s1))"
      and k: "andthen (report os a r) (ret r) s1 = Some (Inr (x, s'))" using run by (elim bndE)
    have "upholds (report os a r)" using assms(2) call_value [OF c] by simp
    then have "upholds (andthen (report os a r) (ret r))" by (intro pres_rules upholds_sysc)
    moreover have "chans_inv (chans s1)" using call_value [OF c] i by simp
    ultimately show "chans_inv (chans s')" 
      using preservesD [where I = "\<lambda>s. chans_inv (chans s)" and m = "andthen (report os a r) (ret r)", OF _ k] by blast
  qed
  then have "upholds (if i = - 1 then ret fail else bnd (call slot (real os a)) (\<lambda>r. andthen (report os a r) (ret r)))"
    for i :: int by (simp add: preserves_pure)
  moreover have "upholds (sym_init os slot name alt (complain os))"
    unfolding sym_init_def using assms(1) by (intro pres_rules upholds_sysc)
  ultimately show ?thesis unfolding shape by (intro preserves_bnd)
qed

end

text \<open>The reports, when the kernel answered within its bounds.\<close>

lemma upholds_err [pres_rules]: "upholds (err os txt)"
  by (intro upholds_keeps keep_rules) (simp add: indep_defs)

lemma upholds_report_seek: "seek_ok os \<Longrightarrow> n < 2 ^ 31 \<Longrightarrow> upholds (report_seek os c op fd n)"
  unfolding report_seek_def by (intro pres_rules upholds_trace_seek) auto

lemma upholds_report_at: "n < 2 ^ 31 \<Longrightarrow> (0 < n \<Longrightarrow> off < 2 ^ 62) \<Longrightarrow> upholds (report_at os c op fd off n)"
  unfolding report_at_def by (intro pres_rules upholds_trace_at) auto

lemma upholds_report_stream: "seek_ok os \<Longrightarrow> n < 2 ^ 31 \<Longrightarrow> upholds (report_stream os c op fp n)"
  unfolding report_stream_def by (intro pres_rules upholds_trace_seek) auto

lemma kernel_okD:
  assumes "kernel_ok os"
  shows "seek_ok os" "fst (fst (sys_read os f fd n w)) < 2 ^ 31" "fst (sys_write os f fd bs w) < 2 ^ 31"
    "fst (fst (sys_pread64 os f fd n off w)) < 2 ^ 31" "fst (sys_pwrite64 os f fd bs off w) < 2 ^ 31"
    "0 < fst (fst (sys_pread64 os f fd n off w)) \<Longrightarrow> off < 2 ^ 62"
    "0 < fst (sys_pwrite64 os f fd bs off w) \<Longrightarrow> off < 2 ^ 62"
    "fst (fst (sys_fread os f sz count fp w)) \<le> int count"
    "fst (sys_fwrite os f bs sz count fp w) \<le> int count"
  using assms unfolding kernel_ok_def by (elim conjE; simp)+

lemma upholds_data_calls:
  assumes k: "kernel_ok os"
  shows "upholds (read_io os fd n)" "upholds (write_io os fd bs)"
    "upholds (do_pread64 os op fd n off)" "upholds (do_pwrite64 os op fd bs off)"
    "count < 2 ^ 31 \<Longrightarrow> upholds (fread os sz count fp)" "count < 2 ^ 31 \<Longrightarrow> upholds (fwrite os bs sz count fp)"
proof -
  note d = kernel_okD [OF k]
  show "upholds (read_io os fd n)"
    using read_call.io_upholds [of os "(fd, n)"] d(1,2)
    by (simp add: upholds_err upholds_report_seek split_def)
  show "upholds (write_io os fd bs)"
    using write_call.io_upholds [of os "(fd, bs)"] d(1,3)
    by (simp add: upholds_sysc upholds_report_seek)
  show "upholds (do_pread64 os op fd n off)"
    using pread_call.io_upholds [of os "(op, fd, n, off)"] d(4,6)
    by (simp add: upholds_err upholds_report_at split_def)
  show "upholds (do_pwrite64 os op fd bs off)"
    using pwrite_call.io_upholds [of os "(op, fd, bs, off)"] d(5,7)
    by (simp add: upholds_err upholds_report_at)
  show "upholds (fread os sz count fp)" if "count < 2 ^ 31"
  proof -
    have "fst (fst (sys_fread os f sz count fp w)) < 2 ^ 31" for f w
      using d(8) [of f sz count fp w] that by simp
    then show ?thesis
      using fread_call.io_upholds [of os "(sz, count, fp)"] d(1)
      by (simp add: upholds_err upholds_report_stream split_def)
  qed
  show "upholds (fwrite os bs sz count fp)" if "count < 2 ^ 31"
  proof -
    have "fst (sys_fwrite os f bs sz count fp w) < 2 ^ 31" for f w
      using d(9) [of f bs sz count fp w] that by simp
    then show ?thesis
      using fwrite_call.io_upholds [of os "(bs, sz, count, fp)"] d(1)
      by (simp add: upholds_sysc upholds_report_stream)
  qed
qed

section \<open>The other calls\<close>

text \<open>Closing a channel puts it at rest.\<close>

lemma upholds_rw_close [pres_rules]: "upholds (rw_close os c op fd)"
proof (rule preservesI)
  fix s :: "'a proc" and x s'
  assume run: "rw_close os c op fd s = Some (Inr (x, s'))" and i: "chans_inv (chans s)"
  have "chans s' = chans s \<or> (\<exists>str. chans s' = (chans s)(c := (chans s c)\<lparr>iostr := str, last_fd := - 1\<rparr>))"
    using run by (auto simp: rw_close_def bnd_gets ret_def upd_chan_def modify_def
        elim!: bndE split: if_splits dest!: notify_chans)
  then show "chans_inv (chans s')" using i by (fastforce simp: chans_inv_def chan_inv_def)
qed

lemma upholds_close_common [pres_rules]: "upholds (close_common os fd)"
proof -
  have "upholds (mmap_close fd)"
    unfolding mmap_close_def upd_mmap_def by (intro upholds_keeps keep_rules) simp
  then show ?thesis
    unfolding close_common_def read_close_def pread64_close_def fread_close_def write_close_def
      fwrite_close_def pwrite64_close_def by (intro pres_rules upholds_sysc)
qed

lemma upholds_close_calls: "upholds (close_fd os fd)" "upholds (fclose os fp)"
  unfolding close_fd_def close_init_def fclose_def fclose_init_def by (intro pres_rules upholds_sysc)+

text \<open>The file calls and the process calls do not look at the channels.\<close>

lemma keeps_file_calls:
  "keeps chans (do_openat os op fd p flags md)" "keeps chans (fopen os p md')"
  "keeps chans (do_renameat os op fd p fd' p')" "keeps chans (do_unlinkat os op fd p flags)"
  "keeps chans (do_mmap64 os op a n prot flags fd off)"
proof -
  have si: "keeps chans (sym_init os v name alt m)" if "keeps chans m" for v name alt m
    unfolding sym_init_def using that by (intro keep_rules) simp_all
  have ms: "keeps chans (missing os q)" for q unfolding missing_def by (intro keep_rules) simp
  have e: "keeps chans (err os x)" for x by (intro keep_rules) (simp add: indep_defs)
  have al: "keeps chans (aloge os tag x)" for tag x by (intro keep_rules) simp_all
  have ir: "indep_rec (chans :: 'a proc \<Rightarrow> _)" by (simp add: indep_rec_simps)
  have rc: "keeps chans (report_create os op created r q)" for op created r q
    unfolding report_create_def by (intro keep_rules ir) simp_all
  show "keeps chans (do_openat os op fd p flags md)"
    unfolding do_openat_def open_init_def by (intro keep_rules si e ms rc) simp_all
  show "keeps chans (fopen os p md')"
    unfolding fopen_def fopen_init_def by (intro keep_rules si al ms ir) simp_all
  show "keeps chans (do_renameat os op fd p fd' p')"
    unfolding do_renameat_def rename_init_def by (intro keep_rules si e ir) simp_all
  show "keeps chans (do_unlinkat os op fd p flags)"
    unfolding do_unlinkat_def unlink_init_def by (intro keep_rules si e ir) simp_all
  show "keeps chans (do_mmap64 os op a n prot flags fd off)"
    unfolding do_mmap64_def mmap_init_def prot_str_def upd_mmap_def by (intro keep_rules si al ir) simp_all
qed

lemma chans_indep: "indep_log (chans :: 'w proc \<Rightarrow> _)" "indep_flush (chans :: 'w proc \<Rightarrow> _)"
  "indep_name (chans :: 'w proc \<Rightarrow> _)"
  by (simp_all add: indep_flush_def indep_log_def indep_defs)

lemma upholds_pthread_common [pres_rules]: "upholds (pthread_common os created main)"
proof -
  have "upholds (notify_thread_init os main)" "upholds (notify_thread_exit os main)"
    unfolding notify_thread_init_def notify_thread_exit_def by (intro upholds_keeps keep_rules chans_indep)+
  then show ?thesis unfolding pthread_common_def by (intro pres_rules) simp_all
qed

lemma upholds_sym_init [pres_rules]: "upholds m \<Longrightarrow> upholds (sym_init os v name alt m)"
  unfolding sym_init_def by (intro pres_rules upholds_sysc)

lemma upholds_process_calls:
  "upholds (init os)" "upholds (fini os)" "upholds (pthread_create os start arg)" "upholds (pthread_exit os v)"
  "upholds (clone os fn stk flags arg va)"
  "upholds (execve os name argv envp)" "upholds (execvpe os name argv envp)" "upholds (aggregate_handler os sg)"
proof -
  have "upholds (init_signal os)"
    unfolding init_signal_def save_handler_def set_handler_def
    by (intro upholds_keeps keep_rules chans_indep) simp_all
  moreover have "upholds (process_name_str os)" by (intro upholds_keeps keep_rules chans_indep)
  ultimately show "upholds (init os)" unfolding init_def by (intro pres_rules) simp_all
  show "upholds (fini os)" unfolding fini_def by (rule upholds_pthread_common)
  show "upholds (pthread_create os start arg)"
    unfolding pthread_create_def pthread_create_init_def by (intro pres_rules upholds_sysc) (auto intro!: pres_rules)
  show "upholds (pthread_exit os v)"
    unfolding pthread_exit_def pthread_exit_init_def by (intro pres_rules upholds_sysc)
  show "upholds (clone os fn stk flags arg va)"
    unfolding clone_def clone_init_def Let_def by (intro pres_rules upholds_sysc)
  show "upholds (execve os name argv envp)" "upholds (execvpe os name argv envp)"
    unfolding execve_def init_execve_def execvpe_def init_execvpe_def by (intro pres_rules upholds_sysc)+
  have "upholds (run_handler os h sg)" for h unfolding run_handler_def by (intro pres_rules upholds_sysc)
  moreover have "upholds (notify_thread_exit os main)" for main
    unfolding notify_thread_exit_def by (intro upholds_keeps keep_rules chans_indep)
  ultimately show "upholds (aggregate_handler os sg)" unfolding aggregate_handler_def by (intro pres_rules upholds_sysc)
qed

section \<open>Every state\<close>

lemma upholds_flusher_step: "upholds (flusher_step os info)"
  unfolding flusher_step_def by (intro upholds_keeps keep_rules chans_indep) simp_all

lemmas api_defs = pread64_def pread_def pwrite64_def pwrite_def creat_def open_file_def openat_def rename_def
  renameat_def unlink_def unlinkat_def mmap_def mmap64_def

lemma run_api_upholds:
  assumes "kernel_ok os" and "api_ok c" shows "upholds (run_api os c)"
proof -
  note u = upholds_data_calls [OF assms(1)] upholds_close_calls upholds_process_calls
    keeps_file_calls [THEN upholds_keeps] upholds_flusher_step
  show ?thesis
    using assms(2) by (cases c) (simp_all add: u preserves_andthen preserves_pure api_defs)
qed

lemma run_api_safe:
  assumes "machine_ok os" shows "safe buffers_ok strings_ok short_names (run_api os c)"
proof -
  note u = safe_data_calls [OF assms] safe_close_calls [OF assms] safe_process_calls [OF assms]
    safe_file_calls [OF assms] safe_flusher_step [OF assms]
  show ?thesis by (cases c) (simp_all add: u stays_andthen stays_pure api_defs)
qed

definition threads_inv :: "'w process \<Rightarrow> bool" where
  "threads_inv P \<longleftrightarrow> (\<forall>i. chans_inv (t_chans (threads P i)))"

lemma runs_threads_inv:
  assumes k: "kernel_ok os" and run: "runs os P cs P'" and a: "list_all (\<lambda>(i, c). api_ok c) cs"
    and i: "threads_inv P"
  shows "threads_inv P'"
  using run i a
proof (rule runs_invariant)
  fix i c and P :: "'a process" and s
  assume c: "api_ok c" and P: "threads_inv P" and r: "run_api os c (switch_in i P) = Some (Inr ((), s))"
  have "chans_inv (chans s)"
    using preservesD [OF run_api_upholds [OF k c] r] P by (simp add: threads_inv_def switch_in_def)
  then show "threads_inv (switch_out i s P)" using P by (simp add: threads_inv_def switch_out_def)
qed

text \<open>The memory of a process, with the variables of any of its threads put in.\<close>

definition process_ok :: "'w process \<Rightarrow> bool" where
  "process_ok P \<longleftrightarrow> (\<forall>i. shared_ok (switch_in i P))"

lemma process_ok_parts:
  "process_ok P \<longleftrightarrow> mem_ok buffers_ok (\<lambda>_. True) short_names (shared P) \<and> (\<forall>i. strings_ok (t_chans (threads P i)))"
  by (auto simp: process_ok_def switch_in_def mem_ok_def prefix_sane_def)

lemma process_okD:
  assumes "process_ok P"
  shows "bufs (shared P) p = Some b \<Longrightarrow> buffer_ok p b" "length (prefix (shared P)) < MAX_PREFIX_LEN"
    "list_all entry_fits (logs (shared P))"
  using assms by (simp_all add: process_ok_parts mem_ok_def buffers_ok_def prefix_sane_def)

lemma runs_process_ok:
  assumes k: "machine_ok os" and run: "runs os P cs P'" and i: "process_ok P"
  shows "process_ok P'"
  using run i
proof (rule runs_invariant [where A = "\<lambda>_. True"])
  fix i c and P :: "'a process" and s
  assume P: "process_ok P" and r: "run_api os c (switch_in i P) = Some (Inr ((), s))"
  have "shared_ok (switch_in i P)" using P by (simp add: process_ok_def)
  from staysD [OF run_api_safe [OF k] this r] have "shared_ok s" by simp
  then show "process_ok (switch_out i s P)"
    using P by (simp add: process_ok_parts switch_out_def mem_ok_def)
qed (simp add: list_all_iff split_def)

text \<open>The process when the library has been loaded, and one whose channels are at rest.\<close>

definition boot :: "'w \<Rightarrow> 'w process" where
  "boot w = \<lparr>shared = proc0 w, threads = (\<lambda>_. \<lparr>t_chans = (\<lambda>_. chan0), t_mmap = mmap_v (proc0 w)\<rparr>)\<rparr>"

definition at_rest :: "'w process \<Rightarrow> bool" where
  "at_rest P \<longleftrightarrow> (\<forall>i c. last_fd (t_chans (threads P i) c) = - 1 \<and> length (path (t_chans (threads P i) c)) < PATH_MAX)"

lemma at_rest_inv: "at_rest P \<Longrightarrow> threads_inv P"
  by (simp add: at_rest_def threads_inv_def chans_inv_def chan_inv_def)

lemma boot_start: "at_rest (boot w)" "process_ok (boot w)"
  by (simp_all add: boot_def at_rest_def chan0_def proc0_def size_defs process_ok_parts mem_ok_def
      buffers_ok_def strings_ok_def short_names_def prefix_sane_def)

end
