(* ===== verification/Session.thy ===== *)
theory Session
  imports Flow Channels
begin

text \<open>
  A whole session on one file: any sequence of \<open>read\<close>, \<open>write\<close>, \<open>pread64\<close> or \<open>pwrite64\<close> calls through
  the interposed functions, near to one another or not, successful or failing, and then the close.
  The specification is a function that cuts the accesses made into batches; the theorems say
  that the records written are the batches of that cut, in order, one record each.
\<close>

section \<open>Cutting accesses into batches\<close>

abbreviation accs :: "batch \<Rightarrow> (int \<times> int) list" where
  "accs b \<equiv> snd (snd b)"

text \<open>What the next access does to the batch that is open: what is written out, what is open then.\<close>

fun advance :: "batch option \<Rightarrow> int \<times> int \<Rightarrow> batch list \<times> batch" where
  "advance None a = ([], single a)"
| "advance (Some b) a = (if touches b a then ([], merge b a) else ([b], single a))"

primrec cut :: "batch option \<Rightarrow> (int \<times> int) list \<Rightarrow> batch list" where
  "cut bo [] = (case bo of None \<Rightarrow> [] | Some b \<Rightarrow> [b])"
| "cut bo (a # as) = fst (advance bo a) @ cut (Some (snd (advance bo a))) as"

definition batches :: "(int \<times> int) list \<Rightarrow> batch list" where
  "batches as = cut None as"

lemma accs_simps [simp]: "accs (single a) = [a]" "accs (merge b a) = accs b @ [a]"
  by (simp_all add: single_def merge_def split: prod.splits)

text \<open>No access is lost, repeated or moved.\<close>

lemma cut_accs: "concat (map accs (cut bo as)) = (case bo of None \<Rightarrow> [] | Some b \<Rightarrow> accs b) @ as"
proof (induction as arbitrary: bo)
  case (Cons a as)
  then show ?case by (cases bo) auto
qed (simp split: option.split)

lemma batches_accs: "concat (map accs (batches as)) = as"
  by (simp add: batches_def cut_accs)

lemma cut_nonempty [simp]: "cut (Some b) as \<noteq> []"
  by (induction as arbitrary: b) auto

text \<open>The open batch is the beginning of the first one written out.\<close>

lemma cut_extends: "\<exists>b'\<in>set (cut (Some b) as). \<exists>ys. accs b' = accs b @ ys"
proof (induction as arbitrary: b)
  case (Cons a as)
  show ?case
  proof (cases "touches b a")
    case True
    then show ?thesis using Cons.IH [of "merge b a"] by (metis accs_simps(2) append_assoc advance.simps(2)
          append_Nil cut.simps(2) fst_conv snd_conv)
  qed auto
qed auto

text \<open>The block range of a batch is the hull of its accesses.\<close>

definition hull :: "batch \<Rightarrow> bool" where
  "hull b \<longleftrightarrow> accs b \<noteq> [] \<and> b = foldl merge (single (hd (accs b))) (tl (accs b))"

lemma hull_single: "hull (single a)"
  by (simp add: hull_def)

lemma hull_merge:
  assumes "hull b" shows "hull (merge b a)"
proof -
  have "accs b \<noteq> []" "foldl merge (single (hd (accs b))) (tl (accs b)) = b" using assms by (auto simp: hull_def)
  then show ?thesis by (simp add: hull_def)
qed

text \<open>A batch whose record fits a buffer.\<close>

definition brief :: "string \<Rightarrow> string \<Rightarrow> batch \<Rightarrow> bool" where
  "brief pre p b \<longleftrightarrow> int (length pre + length p + length (io_string (accs b))) + 300 < BATCH_LIMIT"

lemma brief_open:
  assumes "\<forall>b'\<in>set (cut (Some b) as). brief pre p b'" shows "brief pre p b"
proof -
  obtain b' ys where "b' \<in> set (cut (Some b) as)" "accs b' = accs b @ ys" using cut_extends by blast
  then have "brief pre p b'" "length (io_string (accs b)) \<le> length (io_string (accs b'))"
    using assms by (auto simp: io_string_def)
  then show ?thesis by (simp add: brief_def)
qed

text \<open>
  The records of a session: the last batch is written out by the close, the others by the
  accesses that follow them.
\<close>

fun logged :: "string \<Rightarrow> string \<Rightarrow> string \<Rightarrow> batch list \<Rightarrow> string list \<Rightarrow> bool" where
  "logged op cop p [] rs = (rs = [])"
| "logged op cop p [b] rs = (\<exists>r. rs = [r] \<and> session_record cop p (accs b) r)"
| "logged op cop p (b # b' # bs) rs =
     (\<exists>r qs. rs = r # qs \<and> session_record op p (accs b) r \<and> logged op cop p (b' # bs) qs)"

abbreviation written :: "string \<Rightarrow> string \<Rightarrow> batch list \<Rightarrow> string list \<Rightarrow> bool" where
  "written op p \<equiv> list_all2 (\<lambda>b. session_record op p (accs b))"

lemma logged_append:
  assumes "written op p bs rs" "logged op cop p cs qs" "bs = [] \<or> cs \<noteq> []"
  shows "logged op cop p (bs @ cs) (rs @ qs)"
  using assms
proof (induction bs arbitrary: rs)
  case (Cons b bs)
  then obtain r rs' where rs: "rs = r # rs'" "session_record op p (accs b) r" "written op p bs rs'"
    by (auto simp: list_all2_Cons1)
  then have "logged op cop p (bs @ cs) (rs' @ qs)" using Cons by simp
  moreover obtain d ds where "bs @ cs = d # ds" using Cons.prems(3) by (cases "bs @ cs") auto
  ultimately show ?case using rs by simp
qed simp

section \<open>One access\<close>

text \<open>
  The channel \<open>c\<close> has the batch \<open>bo\<close> open for the descriptor \<open>fd\<close> on the file \<open>p\<close>, or is at
  rest; tracing is on and no other channel refers to \<open>fd\<close>.
\<close>

definition carries :: "'w proc \<Rightarrow> chanid \<Rightarrow> int \<Rightarrow> string \<Rightarrow> batch option \<Rightarrow> bool" where
  "carries s c fd p bo \<longleftrightarrow> notify_v s \<noteq> 0 \<and> (\<forall>d. d \<noteq> c \<longrightarrow> last_fd (chans s d) \<noteq> fd) \<and>
     (case bo of None \<Rightarrow> last_fd (chans s c) = - 1
      | Some b \<Rightarrow> chan_is (chans s c) fd b \<and> path (chans s c) = p \<and> NUL \<notin> set p \<and> bounded b \<and> hull b)"

lemma carries_frame: "chans s' = chans s \<Longrightarrow> notify_v s' = notify_v s \<Longrightarrow> carries s' c fd p bo = carries s c fd p bo"
  by (simp only: carries_def)

lemma carries_open:
  assumes "carries s c fd q bo" "notify_v s' = notify_v s"
    and "chans s' = (chans s)(c := with_batch fd b ch)" "path ch = p" "NUL \<notin> set p"
    and "0 \<le> fd" "batch_ok b" "bounded b" "hull b"
  shows "carries s' c fd p (Some b)"
  using assms chan_is_with_batch [of fd b ch]
  by (cases b) (auto simp: carries_def with_batch_def)

lemma carries_small:
  assumes "carries s c fd p (Some b)" "brief (prefix s) p b"
  shows "chan_small (prefix s) (chans s c)"
proof -
  obtain lo hi as where b: "b = (lo, hi, as)" by (cases b)
  have ci: "chan_is (chans s c) fd (lo, hi, as)" and p: "path (chans s c) = p" "NUL \<notin> set p"
    using assms(1) by (simp_all add: carries_def b)
  have "as \<noteq> []" using ci by (simp add: chan_is_def batch_ok_def)
  then show ?thesis
    using assms(2) p chan_isD [OF ci] io_string_no_NUL [of as] io_string_nonempty [of as]
    by (simp add: chan_small_def brief_def b)
qed

lemma carries_record:
  assumes "carries s c fd p (Some b)" "batch_record op (chans s c) r"
  shows "session_record op p (accs b) r"
proof -
  obtain lo hi as where b: "b = (lo, hi, as)" by (cases b)
  have ci: "chan_is (chans s c) fd (lo, hi, as)" and p: "path (chans s c) = p" and "hull b"
    using assms(1) by (simp_all add: carries_def b)
  then have h: "(lo, hi, as) = foldl merge (single (hd as)) (tl as)" by (simp add: hull_def b)
  obtain n me ts where "r = rec_head n @ rw_text me op p ts (hi - lo + 1) lo (butlast (io_string as)) @ '',''"
    using assms(2) p chan_isD(2-4) [OF ci] by (auto simp: batch_record_def)
  then show ?thesis using h unfolding session_record_def b snd_conv by blast
qed

lemma keeps_batch_first:
  assumes "indep_rec f" and "\<And>s h. f (s\<lparr>chans := h\<rparr>) = f s"
  shows "keeps f (batch_read_write_first os c op fd n off)"
proof -
  have "keeps f (batch_read_write_notify os c op fd cs ce n off)" for cs ce
    unfolding batch_read_write_notify_def using assms by (intro keep_rules)
  then show ?thesis
    unfolding batch_read_write_first_def record_iostr_def Let_def using assms
    by (intro keep_rules) (simp_all add: indep_recD)
qed

lemma batch_first_step:
  assumes lc: "libc_ok os live" "roomy os live k" "clock_ok os live" and rd: "ready os live k s t"
    and ca: "carries s c fd p (Some b)" and br: "brief (prefix s) p b" and ac: "access_ok fd n off"
    and op: "NUL \<notin> set op" "length op \<le> 40"
  shows "\<exists>s' t' rs. batch_read_write_first os c op fd n off s = Some (Inr (0, s')) \<and> adds os live k s t s' t' rs \<and>
    written op p (fst (advance (Some b) (n, off))) rs \<and>
    carries s' c fd p (Some (snd (advance (Some b) (n, off))))"
proof -
  obtain lo hi as where b: "b = (lo, hi, as)" by (cases b)
  have ci: "chan_is (chans s c) fd (lo, hi, as)" and p: "path (chans s c) = p" "NUL \<notin> set p"
    and bd: "bounded (lo, hi, as)" and hl: "hull b"
    using ca by (simp_all add: carries_def b)
  note d = chan_isD [OF ci]
  show ?thesis
  proof (cases "touches b (n, off)")
    case True
    have room: "length (io_string as) + 64 < IOSTR_BUFSIZE"
      using br by (simp add: brief_def b BATCH_LIMIT_num size_defs)
    note ok = merge_ok [OF ci bd ac True [unfolded b] room] merge_bounded [OF bd ac True [unfolded b] d(6)]
    let ?s = "set_chan c (with_batch fd (merge b (n, off)) (chans s c)) s"
    have "batch_read_write_first os c op fd n off s = Some (Inr (0, ?s))"
      using True ok room ci d(4) by (intro batch_first_touches [OF _ ac]) (simp_all add: b)
    moreover have "adds os live k s t ?s t []"
      using adds_refl [OF rd] by (rule adds_frame) (simp_all add: set_chan_def)
    moreover have "carries ?s c fd p (Some (merge b (n, off)))"
      using ok p d(9) hull_merge [OF hl] by (intro carries_open [OF ca]) (simp_all add: b set_chan_def)
    ultimately show ?thesis using True by auto
  next
    case False
    from batch_far_adds [OF lc rd ci carries_small [OF ca br] ac False [unfolded b] op] obtain s' t' r where
      f: "batch_read_write_first os c op fd n off s = Some (Inr (0, s'))" "adds os live k s t s' t' [r]"
      "batch_record op (chans s c) r" "chans s' = (chans s)(c := with_batch fd (single (n, off)) (chans s c))"
      by blast
    have "notify_v s' = notify_v s"
      using f(1) by (rule keepsD [OF keeps_batch_first, rotated 2]) (simp_all add: indep_rec_simps)
    then have "carries s' c fd p (Some (single (n, off)))"
      using f(4) p d(9) single_ok [OF ac] single_bounded [OF ac] hull_single
      by (intro carries_open [OF ca]) simp_all
    then show ?thesis using False f(1,2) carries_record [OF ca f(3)] by auto
  qed
qed

section \<open>The calls of a session\<close>

text \<open>
  The access a call has made, as the kernel tells it: \<open>acc x r w\<close> is that of the call \<open>x\<close> when the
  real call has returned \<open>r\<close> in the world \<open>w\<close> (nothing if no data was transferred), with the world
  after asking for the position.
\<close>

type_synonym ('a, 'r, 'w) accessed = "'a \<Rightarrow> 'r \<Rightarrow> 'w \<Rightarrow> ((int \<times> int) \<times> 'w) option"

definition pos_access :: "('r \<Rightarrow> int) \<Rightarrow> int \<Rightarrow> 'r \<Rightarrow> 'w \<Rightarrow> ((int \<times> int) \<times> 'w) option" where
  "pos_access count off r w = (if 0 < count r then Some ((count r, off), w) else None)"

definition seek_access :: "'w os \<Rightarrow> ('r \<Rightarrow> int) \<Rightarrow> int \<Rightarrow> 'r \<Rightarrow> 'w \<Rightarrow> ((int \<times> int) \<times> 'w) option" where
  "seek_access os count fd r w = (if 0 < count r
     then (case sys_lseek64 os fd w of (pos, w') \<Rightarrow> Some ((count r, s64 (pos - count r)), w')) else None)"

text \<open>The accesses made by the calls \<open>xs\<close> that ended with the results and worlds \<open>ys\<close>.\<close>

fun made :: "('a, 'r, 'w) accessed \<Rightarrow> 'a list \<Rightarrow> ('r \<times> 'w) list \<Rightarrow> (int \<times> int) list" where
  "made acc (x # xs) ((r, w) # ys) =
     (case acc x r w of None \<Rightarrow> made acc xs ys | Some (a, _) \<Rightarrow> a # made acc xs ys)"
| "made acc _ _ = []"

lemma made_map: "made acc (map g xs) ys = made (\<lambda>x. acc (g x)) xs ys"
  by (induction "\<lambda>x. acc (g x)" xs ys rule: made.induct) (auto split: option.split)

text \<open>
  What is assumed of the real call \<open>g\<close> on the descriptor \<open>fd\<close>: it leaves the heap and the process
  alone, and when it has made an access, that access transferred at most 2 GB inside a file, the
  descriptor is open on the traced regular file \<open>p\<close> (\<open>arr\<close> in the locale below), and asking about
  it leaves heap and process alone as well.
\<close>

definition untouched :: "'w os \<Rightarrow> ('w \<Rightarrow> addr set) \<Rightarrow> 'w \<Rightarrow> 'w \<Rightarrow> bool" where
  "untouched os live w w' \<longleftrightarrow> live w' = live w \<and> sys_getpid os w' = sys_getpid os w"

definition serves ::
  "'w os \<Rightarrow> ('w \<Rightarrow> addr set) \<Rightarrow> int \<Rightarrow> string \<Rightarrow> (nat \<Rightarrow> 'w \<Rightarrow> 'r \<times> 'w) \<Rightarrow>
     ('r \<Rightarrow> 'w \<Rightarrow> ((int \<times> int) \<times> 'w) option) \<Rightarrow> ('w proc \<Rightarrow> int \<Rightarrow> string \<Rightarrow> int \<times> int \<Rightarrow> 'w \<Rightarrow> bool) \<Rightarrow> bool" where
  "serves os live fd p g acc arr \<longleftrightarrow> (\<forall>f w. case g f w of (r, w') \<Rightarrow> untouched os live w w' \<and>
     (case acc r w' of None \<Rightarrow> True
      | Some (a, w1) \<Rightarrow> access_ok fd (fst a) (snd a) \<and> NUL \<notin> set p \<and> untouched os live w' w1 \<and>
          (\<forall>s. world s = w' \<longrightarrow> (\<exists>w2. arr s fd p a w2 \<and> untouched os live w' w2))))"

definition answers :: "('a \<Rightarrow> nat \<Rightarrow> 'w \<Rightarrow> 'r \<times> 'w) \<Rightarrow> 'a list \<Rightarrow> ('r \<times> 'w) list \<Rightarrow> bool" where
  "answers g = list_all2 (\<lambda>a y. \<exists>f w. y = g a f w)"

lemma answers_map: "answers g (map h xs) ys = answers (\<lambda>x. g (h x)) xs ys"
  by (simp add: answers_def list_all2_map1)

text \<open>
  The results and worlds of a sequence of calls that is run from \<open>s\<close>: each real call is made in
  the world its predecessors have left, and its result is the one the interposed call returns.
\<close>

primrec observed ::
  "('a \<Rightarrow> ('w proc, 'r) exec) \<Rightarrow> ('a \<Rightarrow> nat \<Rightarrow> 'w \<Rightarrow> 'r \<times> 'w) \<Rightarrow> 'a list \<Rightarrow> 'w proc \<Rightarrow> ('r \<times> 'w) list \<Rightarrow> bool" where
  "observed m g [] s ys = (ys = [])"
| "observed m g (a # as) s ys = (\<exists>f y zs s'. ys = y # zs \<and> y = g a f (world s) \<and>
     m a s = Some (Inr (fst y, s')) \<and> observed m g as s' zs)"

lemma observed_map: "observed m g (map h xs) s ys = observed (\<lambda>x. m (h x)) (\<lambda>x. g (h x)) xs s ys"
  by (induction xs arbitrary: s ys) simp_all

lemma observed_answers: "observed m g as s ys \<Longrightarrow> answers g as ys"
  by (induction as arbitrary: s ys) (auto simp: answers_def)

text \<open>
  The contract of a traced call, on top of \<open>passthru\<close>: its report does nothing when no access was
  made, hands the access to the open batch of the descriptor, and starts a batch on a channel at
  rest once the file has been found (\<open>arr\<close>).
\<close>

locale traced = passthru io slot name alt complain real fail report
  for io :: "'w os \<Rightarrow> 'a \<Rightarrow> ('w proc, 'r) exec" and slot name alt complain real fail report +
  fixes c :: chanid and descr :: "'a \<Rightarrow> int" and opname :: "'a \<Rightarrow> string"
    and acc :: "'w os \<Rightarrow> ('a, 'r, 'w) accessed"
    and arr :: "'w os \<Rightarrow> 'w proc \<Rightarrow> int \<Rightarrow> string \<Rightarrow> int \<times> int \<Rightarrow> 'w \<Rightarrow> bool"
  assumes skips: "acc os a r (world s) = None \<Longrightarrow> report os a r s = Some (Inr ((), s))"
    and further: "acc os a r (world s) = Some ((n, off), w) \<Longrightarrow> access_ok (descr a) n off \<Longrightarrow> notify_v s \<noteq> 0 \<Longrightarrow>
      last_fd (chans s c) = descr a \<Longrightarrow>
      batch_read_write_first os c (opname a) (descr a) n off (s\<lparr>world := w\<rparr>) = Some (Inr (0, s')) \<Longrightarrow>
      report os a r s = Some (Inr ((), s'))"
    and starts: "acc os a r (world s) = Some ((n, off), w) \<Longrightarrow> access_ok (descr a) n off \<Longrightarrow> notify_v s \<noteq> 0 \<Longrightarrow>
      last_fd (chans s c) = - 1 \<Longrightarrow> arr os s (descr a) p (n, off) w' \<Longrightarrow>
      report os a r s = Some (Inr ((), set_chan c (with_batch (descr a) (single (n, off)) ((chans s c)\<lparr>path := p\<rparr>))
        (s\<lparr>world := w'\<rparr>)))"
begin

lemma one_call:
  assumes lc: "libc_ok os live" "roomy os live k" "clock_ok os live" and rd: "ready os live k s t"
    and ld: "dlsym os name \<noteq> 0" and ca: "carries s c fd p bo"
    and br: "\<And>b. bo = Some b \<Longrightarrow> brief (prefix s) p b"
    and sv: "serves os live fd p (real os a) (acc os a) (arr os)"
    and a: "descr a = fd" "opname a = op" "NUL \<notin> set op" "length op \<le> 40"
  shows "\<exists>r w s' t' rs bs bo'. io os a s = Some (Inr (r, s')) \<and> (\<exists>f. (r, w) = real os a f (world s)) \<and>
    adds os live k s t s' t' rs \<and> written op p bs rs \<and> carries s' c fd p bo' \<and>
    (case acc os a r w of None \<Rightarrow> bs = [] \<and> bo' = bo | Some (x, _) \<Rightarrow> (bs, bo') = apsnd Some (advance bo x))"
proof -
  let ?f = "resolved os s slot name alt"
  obtain r w where g: "real os a ?f (world s) = (r, w)" by fastforce
  let ?s = "after_call os a s"
  have wd: "world ?s = w" using g by (simp add: after_call_def)
  note sv1 = sv [unfolded serves_def, THEN spec, of ?f, THEN spec, of "world s"]
  have w: "untouched os live (world s) w" using sv1 g by simp
  have ok: "access_ok fd n off" "NUL \<notin> set p" "untouched os live w w1"
    "\<exists>w2. arr os ?s fd p (n, off) w2 \<and> untouched os live w w2" if "acc os a r w = Some ((n, off), w1)" for n off w1
    using sv1 g that wd by auto
  have same: "chans ?s = chans s" "notify_v ?s = notify_v s" "logs ?s = logs s" "prefix ?s = prefix s"
    by (simp_all add: after_call_def)
  have rd1: "ready os live k ?s t"
    using rd w g batching_frame [of ?s s t] by (simp add: ready_def after_call_def untouched_def)
  then have ad: "adds os live k s t ?s t []" using same by (simp add: adds_def)
  have ca1: "carries ?s c fd p bo" using ca by (simp add: carries_frame [OF same(1,2)])
  have "?f \<noteq> 0" using ld by (simp add: resolved_def)
  then have run: "io os a s = Some (Inr (r, s'))" if "report os a r ?s = Some (Inr ((), s'))" for s'
    using that by (simp add: io_run g andthen_def bnd_Some ret_def)
  have on: "notify_v ?s \<noteq> 0" using ca1 by (simp add: carries_def)
  have r: "\<exists>f. (r, w) = real os a f (world s)" using g by metis
  consider (none) "acc os a r w = None" | (first) n off w1 where "acc os a r w = Some ((n, off), w1)" "bo = None"
    | (more) n off w1 b where "acc os a r w = Some ((n, off), w1)" "bo = Some b"
    by (cases "acc os a r w"; cases bo) auto
  then show ?thesis
  proof cases
    case none
    then have "io os a s = Some (Inr (r, ?s))" by (intro run skips) (simp add: wd)
    then show ?thesis using none r ad ca1 by fastforce
  next
    case first
    obtain w2 where ar: "arr os ?s fd p (n, off) w2" "untouched os live w w2" using ok(4) [OF first(1)] by blast
    let ?s' = "set_chan c (with_batch fd (single (n, off)) ((chans ?s c)\<lparr>path := p\<rparr>)) (?s\<lparr>world := w2\<rparr>)"
    have ac: "access_ok fd n off" using ok(1) [OF first(1)] .
    have "last_fd (chans ?s c) = - 1" using ca1 first by (simp add: carries_def)
    then have "io os a s = Some (Inr (r, ?s'))"
      using starts [of os a r ?s n off w1 p w2] first(1) wd ac on ar(1) a(1) by (intro run) simp
    moreover have "adds os live k s t ?s' t []"
      using rd1 ar(2) w wd batching_frame [of ?s' ?s t] same
      by (simp add: adds_def ready_def set_chan_def untouched_def)
    moreover have "carries ?s' c fd p (Some (single (n, off)))"
      using ok(2) [OF first(1)] ac single_ok single_bounded hull_single
      by (intro carries_open [OF ca1]) (auto simp: access_ok_def set_chan_def)
    ultimately show ?thesis using first r by (fastforce simp: apsnd_def)
  next
    case more
    let ?s1 = "?s\<lparr>world := w1\<rparr>"
    have rd2: "ready os live k ?s1 t"
      using rd1 ok(3) [OF more(1)] wd batching_frame [of ?s1 ?s t] by (simp add: ready_def untouched_def)
    then have ad2: "adds os live k s t ?s1 t []" using same by (simp add: adds_def)
    have ca2: "carries ?s1 c fd p (Some b)" using ca1 more(2) carries_frame [of ?s1 ?s] by simp
    have "brief (prefix ?s1) p b" using br more same by simp
    from batch_first_step [OF lc rd2 ca2 this ok(1) [OF more(1)] a(3,4)] obtain s' t' rs where
      st: "batch_read_write_first os c op fd n off ?s1 = Some (Inr (0, s'))" "adds os live k ?s1 t s' t' rs"
      "written op p (fst (advance (Some b) (n, off))) rs" "carries s' c fd p (Some (snd (advance (Some b) (n, off))))"
      by blast
    have "last_fd (chans ?s c) = fd" using ca2 by (cases b) (auto simp: carries_def dest: chan_isD(1))
    then have "io os a s = Some (Inr (r, s'))"
      using further [of os a r ?s n off w1 s'] more(1) wd ok(1) [OF more(1)] on st(1) a by (intro run) simp
    moreover have "adds os live k s t s' t' rs" using adds_trans [OF ad2 st(2)] by simp
    ultimately show ?thesis using more r st(3,4) by (fastforce simp: apsnd_def map_prod_def split_def)
  qed
qed

text \<open>A sequence of calls: the cut of the accesses made is what was written, then what is open.\<close>

lemma all_calls:
  assumes lc: "libc_ok os live" "roomy os live k" "clock_ok os live" and ld: "dlsym os name \<noteq> 0"
    and op: "NUL \<notin> set op" "length op \<le> 40"
    and "ready os live k s t" and "carries s c fd p bo"
    and "\<forall>a\<in>set as. serves os live fd p (real os a) (acc os a) (arr os) \<and> descr a = fd \<and> opname a = op"
    and "\<And>ys. answers (real os) as ys \<Longrightarrow> \<forall>b\<in>set (cut bo (made (acc os) as ys)). brief (prefix s) p b"
  shows "\<exists>ys s' t' rs bs bo'. each (io os) as s = Some (Inr (map fst ys, s')) \<and> observed (io os) (real os) as s ys \<and>
    adds os live k s t s' t' rs \<and> written op p bs rs \<and> carries s' c fd p bo' \<and>
    cut bo (made (acc os) as ys) = bs @ cut bo' [] \<and> (bo' = None \<longrightarrow> bo = None \<and> bs = [])"
  using assms(7-)
proof (induction as arbitrary: s t bo)
  case Nil
  then show ?case using adds_refl [OF Nil.prems(1)] by (fastforce simp: ret_def)
next
  case (Cons a as)
  have sv: "serves os live fd p (real os a) (acc os a) (arr os)" "descr a = fd" "opname a = op"
    and svs: "\<forall>a\<in>set as. serves os live fd p (real os a) (acc os a) (arr os) \<and> descr a = fd \<and> opname a = op"
    using Cons.prems(3) by simp_all
  have "brief (prefix s) p b" if bo: "bo = Some b" for b
  proof -
    let ?ys = "map (\<lambda>a. real os a 0 (world s)) (a # as)"
    have "answers (real os) (a # as) ?ys" unfolding answers_def list.rel_map by (rule list.rel_refl) blast
    from Cons.prems(4) [OF this] show ?thesis unfolding bo by (rule brief_open)
  qed
  from one_call [OF lc Cons.prems(1) ld Cons.prems(2) this sv op] obtain r w s1 t1 rs bs bo1 where
    1: "io os a s = Some (Inr (r, s1))" "\<exists>f. (r, w) = real os a f (world s)" "adds os live k s t s1 t1 rs"
      "written op p bs rs" "carries s1 c fd p bo1"
    and st: "case acc os a r w of None \<Rightarrow> bs = [] \<and> bo1 = bo | Some (x, _) \<Rightarrow> (bs, bo1) = apsnd Some (advance bo x)"
    by blast
  have cut: "cut bo (made (acc os) (a # as) ((r, w) # ys)) = bs @ cut bo1 (made (acc os) as ys)" for ys
    using st by (auto simp: apsnd_def map_prod_def split_def split: option.splits)
  have rd1: "ready os live k s1 t1" and pre: "prefix s1 = prefix s" using 1(3) by (auto simp: adds_def)
  have br1: "\<forall>b\<in>set (cut bo1 (made (acc os) as ys)). brief (prefix s1) p b" if "answers (real os) as ys" for ys
    using Cons.prems(4) [of "(r, w) # ys"] that 1(2) unfolding cut pre by (auto simp: answers_def)
  from Cons.IH [OF rd1 1(5) svs br1] obtain ys s2 t2 qs cs bo2 where
    2: "each (io os) as s1 = Some (Inr (map fst ys, s2))" "observed (io os) (real os) as s1 ys" "adds os live k s1 t1 s2 t2 qs"
      "written op p cs qs" "carries s2 c fd p bo2" "cut bo1 (made (acc os) as ys) = cs @ cut bo2 []"
      "bo2 = None \<longrightarrow> bo1 = None \<and> cs = []"
    by blast
  have "each (io os) (a # as) s = Some (Inr (map fst ((r, w) # ys), s2))"
    using 1(1) 2(1) by (simp add: bnd_def ret_def)
  moreover have "observed (io os) (real os) (a # as) s ((r, w) # ys)" using 1(1,2) 2(2) by simp
  moreover have "written op p (bs @ cs) (rs @ qs)" using 1(4) 2(4) by (rule list_all2_appendI)
  moreover have "cut bo (made (acc os) (a # as) ((r, w) # ys)) = (bs @ cs) @ cut bo2 []"
    unfolding cut 2(6) by simp
  moreover have "bo2 = None \<longrightarrow> bo = None \<and> bs @ cs = []"
    using st 2(7) by (auto simp: apsnd_def map_prod_def split_def split: option.splits)
  ultimately show ?case using adds_trans [OF 1(3) 2(3)] 2(5) by blast
qed

end

text \<open>
  Few accesses make short batches: an entry of the access string has at most 31 characters, so
  a session of \<open>(BATCH_LIMIT - 300 - prefix - path) / 31\<close> calls (more than a hundred for ordinary
  names) always fits.
\<close>

lemma length_io_string_le:
  "\<forall>a\<in>set as. access_ok fd (fst a) (snd a) \<Longrightarrow> length (io_string as) \<le> 31 * length as"
proof (induction as)
  case (Cons a as)
  then show ?case using length_io_entry [of fd "fst a" "snd a"] by (simp add: io_string_def split_def)
qed (simp add: io_string_def)

lemma made_ok:
  assumes "\<forall>x\<in>set xs. serves os live fd p (g x) (acc x) arr" and "answers g xs ys"
  shows "\<forall>a\<in>set (made acc xs ys). access_ok fd (fst a) (snd a)" and "length (made acc xs ys) \<le> length xs"
proof -
  have "(\<forall>a\<in>set (made acc xs ys). access_ok fd (fst a) (snd a)) \<and> length (made acc xs ys) \<le> length xs"
    using assms
  proof (induction xs arbitrary: ys)
    case (Cons x xs)
    then obtain y zs f w0 where y: "ys = y # zs" "y = g x f w0" and a: "answers g xs zs"
      by (auto simp: answers_def list_all2_Cons1)
    obtain r w where rw: "y = (r, w)" by (cases y)
    have ys: "ys = (r, w) # zs" and g: "g x f w0 = (r, w)" using y rw by simp_all
    have ih: "(\<forall>a\<in>set (made acc xs zs). access_ok fd (fst a) (snd a)) \<and> length (made acc xs zs) \<le> length xs"
      using Cons.IH [OF _ a] Cons.prems(1) by simp
    have "serves os live fd p (g x) (acc x) arr" using Cons.prems(1) by simp
    then have "case g x f w0 of (r, w') \<Rightarrow> (case acc x r w' of None \<Rightarrow> True | Some (a, _) \<Rightarrow> access_ok fd (fst a) (snd a))"
      unfolding serves_def by (auto dest!: spec [of _ f] spec [of _ w0] split: prod.splits option.splits)
    then show ?case using ih unfolding ys g by (auto split: option.splits)
  qed simp
  then show "\<forall>a\<in>set (made acc xs ys). access_ok fd (fst a) (snd a)" and "length (made acc xs ys) \<le> length xs"
    by blast+
qed

lemma few_brief:
  assumes sv: "\<forall>x\<in>set xs. serves os live fd p (g x) (acc x) arr" and a: "answers g xs ys"
    and few: "int (length pre + length p + 31 * length xs) + 300 < BATCH_LIMIT"
  shows "\<forall>b\<in>set (batches (made acc xs ys)). brief pre p b"
proof
  fix b assume "b \<in> set (batches (made acc xs ys))"
  then obtain us vs where "batches (made acc xs ys) = us @ b # vs" by (meson split_list)
  then have "made acc xs ys = concat (map accs us) @ accs b @ concat (map accs vs)"
    using batches_accs [of "made acc xs ys"] by simp
  then have "length (io_string (accs b)) \<le> length (io_string (made acc xs ys))" by (simp add: io_string_def)
  then show "brief pre p b"
    using length_io_string_le [OF made_ok(1) [OF sv a]] made_ok(2) [OF sv a] few by (simp add: brief_def)
qed

section \<open>The close\<close>

text \<open>\<open>close\<close> writes the open batch out and then closes the descriptor.\<close>

lemma close_carried:
  assumes lc: "libc_ok os live" "roomy os live k" "clock_ok os live" and rd: "ready os live k s t"
    and ca: "carries s c fd p bo" and br: "\<And>b. bo = Some b \<Longrightarrow> brief (prefix s) p b"
    and at: "(c, cop) \<in> set closing_order" and fd: "0 < fd"
  shows "\<exists>s' t' rs. close_common os fd s = Some (Inr ((), s')) \<and> adds os live k s t s' t' rs \<and>
    logged op (cop @ '' (close)'') p (cut bo []) rs \<and> (\<forall>u. forgotten fd (fd_of u s'))"
proof -
  have other: "forgotten fd (last_fd (chans s d)) = (d \<noteq> c \<or> bo = None)" for d
    using ca fd by (cases bo) (auto simp: carries_def forgotten_def chan_is_def with_batch_def split: prod.splits
        dest: arg_cong [of _ _ last_fd])
  have "\<forall>d. forgotten fd (last_fd (chans s d)) \<or> chan_small (prefix s) (chans s d)"
    using other carries_small ca br by (cases bo) auto
  from close_common_adds [OF lc rd this] obtain s' t' rss where
    cl: "close_common os fd s = Some (Inr ((), s'))" "adds os live k s t s' t' (concat rss)"
    "list_all2 (\<lambda>(c, op). close_records fd op (chans s c)) closing_order rss" "\<forall>u. forgotten fd (fd_of u s')"
    by blast
  have "logged op (cop @ '' (close)'') p (cut bo []) (concat rss)"
  proof (cases bo)
    case None
    then have "concat rss = []"
      using cl(3) other by (simp add: closing_order_def list_all2_Cons1 close_records_def)
    then show ?thesis using None by simp
  next
    case (Some b)
    then obtain r where "concat rss = [r]" "batch_record (cop @ '' (close)'') (chans s c) r"
      using one_closes [OF cl(3) at] other fd by auto
    then show ?thesis using carries_record [of s c fd p b] ca Some by simp
  qed
  then show ?thesis using cl by blast
qed

text \<open>What is assumed of the real \<open>close\<close>.\<close>

definition close_ok :: "'w os \<Rightarrow> ('w \<Rightarrow> addr set) \<Rightarrow> bool" where
  "close_ok os live \<longleftrightarrow> (\<forall>f fd w. live (snd (sys_close os f fd w)) = live w \<and>
     sys_getpid os (snd (sys_close os f fd w)) = sys_getpid os w)"

lemma close_fd_carried:
  assumes lc: "libc_ok os live" "roomy os live k" "clock_ok os live" and rd: "ready os live k s t"
    and ca: "carries s c fd p bo" and br: "\<And>b. bo = Some b \<Longrightarrow> brief (prefix s) p b"
    and at: "(c, cop) \<in> set closing_order" and fd: "0 < fd"
    and cl: "close_ok os live" "dlsym os ''close'' \<noteq> 0"
  shows "\<exists>y s' t' rs. close_fd os fd s = Some (Inr (y, s')) \<and> adds os live k s t s' t' rs \<and>
    logged op (cop @ '' (close)'') p (cut bo []) rs \<and> (\<forall>u. forgotten fd (fd_of u s'))"
proof -
  let ?f = "resolved os s Close_close ''close'' ''__close''"
  let ?s = "s\<lparr>fptr := (fptr s)(Close_close := ?f)\<rparr>"
  have f: "?f \<noteq> 0" using cl(2) by (simp add: resolved_def)
  have rd1: "ready os live k ?s t" using rd batching_frame [of ?s s t] by (simp add: ready_def)
  have ca1: "carries ?s c fd p bo" using ca carries_frame [of ?s s] by simp
  have "brief (prefix ?s) p b" if "bo = Some b" for b using br [OF that] by simp
  from close_carried [OF lc rd1 ca1 this at fd] obtain s1 t1 rs where
    1: "close_common os fd ?s = Some (Inr ((), s1))" "adds os live k ?s t s1 t1 rs"
    "logged op (cop @ '' (close)'') p (cut bo []) rs" "\<forall>u. forgotten fd (fd_of u s1)" by blast
  have k: "fptr s1 Close_close = fptr ?s Close_close"
    using 1(1) by (rule keepsD [OF keeps_close_common, rotated 3])
      (auto simp: indep_rec_simps logger_slot_def)
  obtain y w where w: "sys_close os ?f fd (world s1) = (y, w)" by fastforce
  let ?s' = "s1\<lparr>world := w\<rparr>"
  have "close_fd os fd s = Some (Inr (y, ?s'))"
    using f fd ca1 1(1) k w
    by (simp add: close_fd_def close_init_def andthen_def load_sym_run bnd_Some [OF load_sym_run] bnd_gets
        bnd_Some [of "close_common os fd", OF 1(1)] call_def sysc_def carries_def)
  moreover have "live w = live (world s1)" "sys_getpid os w = sys_getpid os (world s1)"
    using cl(1) w by (metis close_ok_def snd_conv)+
  then have "ready os live k ?s' t1"
    using 1(2) batching_frame [of ?s' s1 t1] by (simp add: adds_def ready_def)
  then have "adds os live k s t ?s' t1 rs" using 1(2) by (simp add: adds_def)
  moreover have "fd_of u ?s' = fd_of u s1" for u by (cases u) simp_all
  ultimately show ?thesis using 1(3,4) by (metis (no_types, lifting))
qed

text \<open>The whole session, from a channel at rest: the calls on \<open>xs\<close>, then \<open>close\<close>.\<close>

definition session_run ::
  "'w os \<Rightarrow> int \<Rightarrow> ('x \<Rightarrow> ('w proc, 'r) exec) \<Rightarrow> 'x list \<Rightarrow> ('w proc, 'r list \<times> int) exec" where
  "session_run os fd m xs = bnd (each m xs) (\<lambda>rs. bnd (close_fd os fd) (\<lambda>y. ret (rs, y)))"

context traced
begin

lemma session:
  assumes lc: "libc_ok os live" "roomy os live k" "clock_ok os live" and rd: "ready os live k s t"
    and ld: "dlsym os name \<noteq> 0" "dlsym os ''close'' \<noteq> 0" and cl: "close_ok os live"
    and op: "NUL \<notin> set op" "length op \<le> 40" and at: "(c, cop) \<in> set closing_order" and fd: "0 < fd"
    and st: "notify_v s \<noteq> 0" "last_fd (chans s c) = - 1" "\<forall>d. last_fd (chans s d) \<noteq> fd"
    and sv: "\<forall>a\<in>set as. serves os live fd p (real os a) (acc os a) (arr os) \<and> descr a = fd \<and> opname a = op"
    and br: "\<And>ys. answers (real os) as ys \<Longrightarrow> \<forall>b\<in>set (batches (made (acc os) as ys)). brief (prefix s) p b"
  shows "\<exists>ys y s' t' rs. session_run os fd (io os) as s = Some (Inr ((map fst ys, y), s')) \<and>
    observed (io os) (real os) as s ys \<and> adds os live k s t s' t' rs \<and>
    logged op (cop @ '' (close)'') p (batches (made (acc os) as ys)) rs \<and> (\<forall>u. forgotten fd (fd_of u s'))"
proof -
  have "carries s c fd p None" using st by (simp add: carries_def)
  from all_calls [OF lc ld(1) op rd this sv br [unfolded batches_def]] obtain ys s1 t1 rs bs bo where
    1: "each (io os) as s = Some (Inr (map fst ys, s1))" "observed (io os) (real os) as s ys" "adds os live k s t s1 t1 rs"
    "written op p bs rs" "carries s1 c fd p bo" "cut None (made (acc os) as ys) = bs @ cut bo []" "bo = None \<longrightarrow> bs = []"
    by blast
  have rd1: "ready os live k s1 t1" and "prefix s1 = prefix s" using 1(3) by (auto simp: adds_def)
  then have "brief (prefix s1) p b" if "bo = Some b" for b
    using br [OF observed_answers [OF 1(2)]] 1(6) that by (simp add: batches_def)
  from close_fd_carried [OF lc rd1 1(5) this at fd cl ld(2)] obtain y s2 t2 qs where
    2: "close_fd os fd s1 = Some (Inr (y, s2))" "adds os live k s1 t1 s2 t2 qs"
    "logged op (cop @ '' (close)'') p (cut bo []) qs" "\<forall>u. forgotten fd (fd_of u s2)" by blast
  have "bs = [] \<or> cut bo [] \<noteq> []"
    using 1(7) by (cases bo) auto
  from logged_append [OF 1(4) 2(3) this] have
    "logged op (cop @ '' (close)'') p (batches (made (acc os) as ys)) (rs @ qs)"
    by (simp only: batches_def 1(6))
  moreover have "session_run os fd (io os) as s = Some (Inr ((map fst ys, y), s2))"
    using 1(1) 2(1) by (simp add: session_run_def bnd_def ret_def)
  ultimately show ?thesis using 1(2) adds_trans [OF 1(3) 2(2)] 2(4) by blast
qed

text \<open>The same for calls that share some of their arguments.\<close>

lemma session_map:
  assumes "libc_ok os live" "roomy os live k" "clock_ok os live" "ready os live k s t"
    and "dlsym os name \<noteq> 0" "dlsym os ''close'' \<noteq> 0" "close_ok os live"
    and "NUL \<notin> set op" "length op \<le> 40" "(c, cop) \<in> set closing_order" "0 < fd"
    and "notify_v s \<noteq> 0" "last_fd (chans s c) = - 1" "\<forall>d. last_fd (chans s d) \<noteq> fd"
    and sv: "\<forall>x\<in>set xs. serves os live fd p (real os (h x)) (acc os (h x)) (arr os)"
    and h: "\<And>x. descr (h x) = fd \<and> opname (h x) = op"
    and br: "\<forall>ys. answers (\<lambda>x. real os (h x)) xs ys \<longrightarrow>
      (\<forall>b\<in>set (batches (made (\<lambda>x. acc os (h x)) xs ys)). brief (prefix s) p b)"
  shows "\<exists>ys y s' t' rs. session_run os fd (\<lambda>x. io os (h x)) xs s = Some (Inr ((map fst ys, y), s')) \<and>
    observed (\<lambda>x. io os (h x)) (\<lambda>x. real os (h x)) xs s ys \<and> adds os live k s t s' t' rs \<and>
    logged op (cop @ '' (close)'') p (batches (made (\<lambda>x. acc os (h x)) xs ys)) rs \<and> (\<forall>u. forgotten fd (fd_of u s'))"
proof -
  have sv': "\<forall>a\<in>set (map h xs). serves os live fd p (real os a) (acc os a) (arr os) \<and> descr a = fd \<and> opname a = op"
    using sv h by simp
  have br': "\<forall>b\<in>set (batches (made (acc os) (map h xs) ys)). brief (prefix s) p b"
    if "answers (real os) (map h xs) ys" for ys
    using br that by (simp add: answers_map made_map)
  from session [OF assms(1-14) sv' br'] show ?thesis
    by (simp only: observed_map made_map session_run_def each_map)
qed

end

section \<open>The four files with descriptors\<close>

text \<open>The reports of positional calls and of those at the file position meet the contract.\<close>

lemma report_at_laws:
  "pos_access count off r w = None \<Longrightarrow> report_at os c op fd off (count r) s = Some (Inr ((), s))"
  "pos_access count off r (world s) = Some ((n, off'), w) \<Longrightarrow> notify_v s \<noteq> 0 \<Longrightarrow> last_fd (chans s c) = fd \<Longrightarrow>
     batch_read_write_first os c op fd n off' (s\<lparr>world := w\<rparr>) = Some (Inr (0, s')) \<Longrightarrow>
     report_at os c op fd off (count r) s = Some (Inr ((), s'))"
  "pos_access count off r (world s) = Some ((n, off'), w) \<Longrightarrow> access_ok fd n off' \<Longrightarrow> notify_v s \<noteq> 0 \<Longrightarrow>
     last_fd (chans s c) = - 1 \<Longrightarrow> opened os s fd p w' \<Longrightarrow>
     report_at os c op fd off (count r) s = Some (Inr ((), set_chan c (with_batch fd (single (n, off'))
       ((chans s c)\<lparr>path := p\<rparr>)) (s\<lparr>world := w'\<rparr>)))"
proof -
  show "pos_access count off r w = None \<Longrightarrow> report_at os c op fd off (count r) s = Some (Inr ((), s))"
    by (simp add: pos_access_def report_at_def bnd_gets ret_def split: if_splits)
  show "report_at os c op fd off (count r) s = Some (Inr ((), s'))"
    if "pos_access count off r (world s) = Some ((n, off'), w)" "notify_v s \<noteq> 0" "last_fd (chans s c) = fd"
      "batch_read_write_first os c op fd n off' (s\<lparr>world := w\<rparr>) = Some (Inr (0, s'))"
    using that by (auto simp: pos_access_def report_at_def bnd_gets trace_at_def bnd_Some ret_def split: if_splits)
  show "report_at os c op fd off (count r) s = Some (Inr ((), set_chan c (with_batch fd (single (n, off'))
       ((chans s c)\<lparr>path := p\<rparr>)) (s\<lparr>world := w'\<rparr>)))"
    if "pos_access count off r (world s) = Some ((n, off'), w)" "access_ok fd n off'" "notify_v s \<noteq> 0"
      "last_fd (chans s c) = - 1" "opened os s fd p w'"
    using that trace_at_fresh [OF that(2,4) retarget_opened [OF that(5)]]
    by (auto simp: pos_access_def report_at_def bnd_gets split: if_splits)
qed

lemma seek_accessD:
  assumes "seek_access os count fd r w = Some ((n, off), w')"
  shows "n = count r" "0 < n" "\<exists>pos. sys_lseek64 os fd w = (pos, w') \<and> off = s64 (pos - n)"
  using assms by (auto simp: seek_access_def split: if_splits prod.splits)

lemma report_seek_laws:
  "seek_access os count fd r w = None \<Longrightarrow> report_seek os c op fd (count r) s = Some (Inr ((), s))"
  "seek_access os count fd r (world s) = Some ((n, off'), w) \<Longrightarrow> access_ok fd n off' \<Longrightarrow> notify_v s \<noteq> 0 \<Longrightarrow>
     last_fd (chans s c) = fd \<Longrightarrow>
     batch_read_write_first os c op fd n off' (s\<lparr>world := w\<rparr>) = Some (Inr (0, s')) \<Longrightarrow>
     report_seek os c op fd (count r) s = Some (Inr ((), s'))"
  "seek_access os count fd r (world s) = Some ((n, off'), w) \<Longrightarrow> access_ok fd n off' \<Longrightarrow> notify_v s \<noteq> 0 \<Longrightarrow>
     last_fd (chans s c) = - 1 \<Longrightarrow> located os s fd n p off' w' \<Longrightarrow>
     report_seek os c op fd (count r) s = Some (Inr ((), set_chan c (with_batch fd (single (n, off'))
       ((chans s c)\<lparr>path := p\<rparr>)) (s\<lparr>world := w'\<rparr>)))"
proof -
  show "seek_access os count fd r w = None \<Longrightarrow> report_seek os c op fd (count r) s = Some (Inr ((), s))"
    by (simp add: seek_access_def report_seek_def bnd_gets ret_def split: if_splits prod.splits)
  show "report_seek os c op fd (count r) s = Some (Inr ((), s'))"
    if h: "seek_access os count fd r (world s) = Some ((n, off'), w)" "access_ok fd n off'" "notify_v s \<noteq> 0"
      "last_fd (chans s c) = fd" "batch_read_write_first os c op fd n off' (s\<lparr>world := w\<rparr>) = Some (Inr (0, s'))"
  proof -
    obtain pos where l: "sys_lseek64 os fd (world s) = (pos, w)" "off' = s64 (pos - n)"
      using seek_accessD(3) [OF h(1)] by blast
    have "\<not> s64 (pos - n) < 0" using h(2) l(2) by (simp add: access_ok_def)
    from trace_seek_more [OF l(1) this h(4) h(5) [unfolded l(2)]] show ?thesis
      using h(3) seek_accessD(1,2) [OF h(1)] by (simp add: report_seek_def bnd_gets)
  qed
  show "report_seek os c op fd (count r) s = Some (Inr ((), set_chan c (with_batch fd (single (n, off'))
       ((chans s c)\<lparr>path := p\<rparr>)) (s\<lparr>world := w'\<rparr>)))"
    if "seek_access os count fd r (world s) = Some ((n, off'), w)" "access_ok fd n off'" "notify_v s \<noteq> 0"
      "last_fd (chans s c) = - 1" "located os s fd n p off' w'"
  proof -
    show ?thesis
      using that(3) seek_accessD(1,2) [OF that(1)] trace_seek_fresh [OF that(5,2,4), of op False] by (simp add: report_seek_def bnd_gets)
  qed
qed

interpretation read_traced: traced "\<lambda>os (fd, sz). read_io os fd sz" Read_read "''read''" "''__read''"
  "\<lambda>os. err os ''_read''" "\<lambda>os (fd, sz) f. sys_read os f fd sz" "(- 1, [])"
  "\<lambda>os (fd, sz) (n, bytes). report_seek os Rd ''read'' fd n"
  Rd fst "\<lambda>_. ''read''" "\<lambda>os (fd, sz). seek_access os fst fd" "\<lambda>os s fd p (n, off). located os s fd n p off"
  by unfold_locales (auto simp: split_def intro: report_seek_laws)

interpretation write_traced: traced "\<lambda>os (fd, bytes). write_io os fd bytes" Write_write "''write''" "''__write''"
  "\<lambda>os. aloge os TAG_DBG ''NULL _write!''" "\<lambda>os (fd, bytes) f. sys_write os f fd bytes" "- 1"
  "\<lambda>os (fd, bytes) n. report_seek os Wr ''write'' fd n"
  Wr fst "\<lambda>_. ''write''" "\<lambda>os (fd, bytes). seek_access os (\<lambda>n. n) fd" "\<lambda>os s fd p (n, off). located os s fd n p off"
  by unfold_locales (auto simp: split_def intro: report_seek_laws [where count = "\<lambda>n. n"])

interpretation pread_traced: traced "\<lambda>os (op, fd, sz, off). do_pread64 os op fd sz off"
  Pread_pread64 "''pread64''" "''__pread64''"
  "\<lambda>os. err os ''_pread64''" "\<lambda>os (op, fd, sz, off) f. sys_pread64 os f fd sz off" "(- 1, [])"
  "\<lambda>os (op, fd, sz, off) (n, bytes). report_at os Prd op fd off n"
  Prd "\<lambda>(op, fd, sz, off). fd" fst "\<lambda>os (op, fd, sz, off). pos_access fst off" "\<lambda>os s fd p _. opened os s fd p"
  by unfold_locales (auto simp: split_def intro: report_at_laws)

interpretation pwrite_traced: traced "\<lambda>os (op, fd, bytes, off). do_pwrite64 os op fd bytes off"
  Pwrite_pwrite64 "''pwrite64''" "''__pwrite64''"
  "\<lambda>os. err os ''_pwrite64''" "\<lambda>os (op, fd, bytes, off) f. sys_pwrite64 os f fd bytes off" "- 1"
  "\<lambda>os (op, fd, bytes, off) n. report_at os Pwr op fd off n"
  Pwr "\<lambda>(op, fd, bytes, off). fd" fst "\<lambda>os (op, fd, bytes, off). pos_access (\<lambda>n. n) off" "\<lambda>os s fd p _. opened os s fd p"
  by unfold_locales (auto simp: split_def intro: report_at_laws [where count = "\<lambda>n. n"])

abbreviation at_position :: "'w os \<Rightarrow> 'w proc \<Rightarrow> int \<Rightarrow> string \<Rightarrow> int \<times> int \<Rightarrow> 'w \<Rightarrow> bool" where
  "at_position os \<equiv> (\<lambda>s fd p (n, off). located os s fd n p off)"

lemma op_names:
  "NUL \<notin> set ''read''" "NUL \<notin> set ''write''" "NUL \<notin> set ''pread64''" "NUL \<notin> set ''pwrite64''"
  "length ''read'' \<le> 40" "length ''write'' \<le> 40" "length ''pread64'' \<le> 40" "length ''pwrite64'' \<le> 40"
  "(Rd, ''read'') \<in> set closing_order" "(Wr, ''write'') \<in> set closing_order"
  "(Prd, ''pread64'') \<in> set closing_order" "(Pwr, ''pwrite64'') \<in> set closing_order"
  by (simp_all add: NUL_def closing_order_def)

lemma read_session:
  assumes "libc_ok os live" "roomy os live k" "clock_ok os live" "ready os live k s t"
    and "dlsym os ''read'' \<noteq> 0" "dlsym os ''close'' \<noteq> 0" "close_ok os live" "0 < fd"
    and "notify_v s \<noteq> 0" "last_fd (chans s Rd) = - 1" "\<forall>d. last_fd (chans s d) \<noteq> fd"
    and "\<forall>n\<in>set xs. serves os live fd p (\<lambda>f. sys_read os f fd n) (seek_access os fst fd) (at_position os)"
    and "\<forall>ys. answers (\<lambda>n f. sys_read os f fd n) xs ys \<longrightarrow>
      (\<forall>b\<in>set (batches (made (\<lambda>_. seek_access os fst fd) xs ys)). brief (prefix s) p b)"
  shows "\<exists>ys y s' t' rs. session_run os fd (read_io os fd) xs s = Some (Inr ((map fst ys, y), s')) \<and>
    observed (read_io os fd) (\<lambda>n f. sys_read os f fd n) xs s ys \<and> adds os live k s t s' t' rs \<and>
    logged ''read'' ''read (close)'' p (batches (made (\<lambda>_. seek_access os fst fd) xs ys)) rs \<and>
    (\<forall>u. forgotten fd (fd_of u s'))"
  using read_traced.session_map [OF assms(1-7) op_names(1,5,9) assms(8-11), of xs p "Pair fd"] assms(12,13) by simp

lemma write_session:
  assumes "libc_ok os live" "roomy os live k" "clock_ok os live" "ready os live k s t"
    and "dlsym os ''write'' \<noteq> 0" "dlsym os ''close'' \<noteq> 0" "close_ok os live" "0 < fd"
    and "notify_v s \<noteq> 0" "last_fd (chans s Wr) = - 1" "\<forall>d. last_fd (chans s d) \<noteq> fd"
    and "\<forall>bs\<in>set xs. serves os live fd p (\<lambda>f. sys_write os f fd bs) (seek_access os (\<lambda>n. n) fd) (at_position os)"
    and "\<forall>ys. answers (\<lambda>bs f. sys_write os f fd bs) xs ys \<longrightarrow>
      (\<forall>b\<in>set (batches (made (\<lambda>_. seek_access os (\<lambda>n. n) fd) xs ys)). brief (prefix s) p b)"
  shows "\<exists>ys y s' t' rs. session_run os fd (write_io os fd) xs s = Some (Inr ((map fst ys, y), s')) \<and>
    observed (write_io os fd) (\<lambda>bs f. sys_write os f fd bs) xs s ys \<and> adds os live k s t s' t' rs \<and>
    logged ''write'' ''write (close)'' p (batches (made (\<lambda>_. seek_access os (\<lambda>n. n) fd) xs ys)) rs \<and>
    (\<forall>u. forgotten fd (fd_of u s'))"
  using write_traced.session_map [OF assms(1-7) op_names(2,6,10) assms(8-11), of xs p "Pair fd"] assms(12,13) by simp

lemma pread_session:
  assumes "libc_ok os live" "roomy os live k" "clock_ok os live" "ready os live k s t"
    and "dlsym os ''pread64'' \<noteq> 0" "dlsym os ''close'' \<noteq> 0" "close_ok os live" "0 < fd"
    and "notify_v s \<noteq> 0" "last_fd (chans s Prd) = - 1" "\<forall>d. last_fd (chans s d) \<noteq> fd"
    and "\<forall>(n, off)\<in>set xs. serves os live fd p (\<lambda>f. sys_pread64 os f fd n off) (pos_access fst off) (\<lambda>s fd p _. opened os s fd p)"
    and "\<forall>ys. answers (\<lambda>(n, off) f. sys_pread64 os f fd n off) xs ys \<longrightarrow>
      (\<forall>b\<in>set (batches (made (\<lambda>(n, off). pos_access fst off) xs ys)). brief (prefix s) p b)"
  shows "\<exists>ys y s' t' rs. session_run os fd (\<lambda>(n, off). pread64 os fd n off) xs s = Some (Inr ((map fst ys, y), s')) \<and>
    observed (\<lambda>(n, off). pread64 os fd n off) (\<lambda>(n, off) f. sys_pread64 os f fd n off) xs s ys \<and> adds os live k s t s' t' rs \<and>
    logged ''pread64'' ''pread64 (close)'' p (batches (made (\<lambda>(n, off). pos_access fst off) xs ys)) rs \<and>
    (\<forall>u. forgotten fd (fd_of u s'))"
  using pread_traced.session_map [OF assms(1-7) op_names(3,7,11) assms(8-11), of xs p "\<lambda>x. (''pread64'', fd, fst x, snd x)"]
    assms(12,13) by (simp add: split_def pread64_def)

lemma pwrite_session:
  assumes "libc_ok os live" "roomy os live k" "clock_ok os live" "ready os live k s t"
    and "dlsym os ''pwrite64'' \<noteq> 0" "dlsym os ''close'' \<noteq> 0" "close_ok os live" "0 < fd"
    and "notify_v s \<noteq> 0" "last_fd (chans s Pwr) = - 1" "\<forall>d. last_fd (chans s d) \<noteq> fd"
    and "\<forall>(bs, off)\<in>set xs. serves os live fd p (\<lambda>f. sys_pwrite64 os f fd bs off) (pos_access (\<lambda>n. n) off) (\<lambda>s fd p _. opened os s fd p)"
    and "\<forall>ys. answers (\<lambda>(bs, off) f. sys_pwrite64 os f fd bs off) xs ys \<longrightarrow>
      (\<forall>b\<in>set (batches (made (\<lambda>(bs, off). pos_access (\<lambda>n. n) off) xs ys)). brief (prefix s) p b)"
  shows "\<exists>ys y s' t' rs. session_run os fd (\<lambda>(bs, off). pwrite64 os fd bs off) xs s = Some (Inr ((map fst ys, y), s')) \<and>
    observed (\<lambda>(bs, off). pwrite64 os fd bs off) (\<lambda>(bs, off) f. sys_pwrite64 os f fd bs off) xs s ys \<and> adds os live k s t s' t' rs \<and>
    logged ''pwrite64'' ''pwrite64 (close)'' p (batches (made (\<lambda>(bs, off). pos_access (\<lambda>n. n) off) xs ys)) rs \<and>
    (\<forall>u. forgotten fd (fd_of u s'))"
  using pwrite_traced.session_map [OF assms(1-7) op_names(4,8,12) assms(8-11), of xs p "\<lambda>x. (''pwrite64'', fd, fst x, snd x)"]
    assms(12,13) by (simp add: split_def pwrite64_def)

end
