(* ===== verification/Blog.thy ===== *)
theory Blog
  imports Counter Process
begin

unbundle bit_operations_syntax

text \<open>
  The unbatched logger (\<open>blog.c\<close>): every record is one entry of the Android log.  A
  thread-local array keeps the process prefix at its front; records are written behind it.
\<close>

section \<open>The functions\<close>

definition TAG_BLOG :: string where
  "TAG_BLOG = ''Storage-IO-UIUC''"

definition MAX_PREFIX_SIZE :: nat where
  "MAX_PREFIX_SIZE = 512"

definition upd_blog :: "(blog_vars \<Rightarrow> blog_vars) \<Rightarrow> ('w proc, unit) exec" where
  "upd_blog f = modify (\<lambda>s. s\<lparr>blog_v := f (blog_v s)\<rparr>)"

definition blog_prefix :: "int \<Rightarrow> string \<Rightarrow> 64 word \<Rightarrow> string" where
  \<open>blog_prefix pid name n =
     ''{"PID":'' @ dec_int pid @ '',"PROC":"'' @ name @ ''","CNTR":'' @ dec_nat (unat n) @ '',"REC":''\<close>

definition cas_b_procid :: "int \<Rightarrow> int \<Rightarrow> ('w proc, bool) exec" where
  "cas_b_procid old new = bnd (gets (\<lambda>s. b_procid (blog_v s))) (\<lambda>v.
     if v = old then andthen (upd_blog (\<lambda>v. v\<lparr>b_procid := new\<rparr>)) (ret True) else ret False)"

text \<open>The loop of \<open>init_buffer\<close>; \<open>False\<close> is its \<open>return -1\<close>.\<close>

partial_function (option) blog_reinit ::
  "'w os \<Rightarrow> int \<Rightarrow> 'w proc \<Rightarrow> (fault + bool \<times> 'w proc) option" where
  "blog_reinit os new_pid s =
     bnd (gets (\<lambda>s. b_procid (blog_v s))) (\<lambda>old_pid.
     if old_pid = new_pid then ret True else
     bnd (process_name_str os) (\<lambda>name.
     bnd cntr (\<lambda>n.
     bnd (ret (blog_prefix new_pid name n)) (\<lambda>text.
     andthen (upd_blog (\<lambda>v. v\<lparr>b_prefix := snprintf MAX_PREFIX_SIZE text, b_prefix_len := int (length text)\<rparr>)) (
     if MAX_PREFIX_SIZE \<le> length text then andthen (err os ''Prefix too long'') (ret False) else
     bnd (cas_b_procid old_pid new_pid) (\<lambda>ok.
     if ok then ret True else blog_reinit os new_pid)))))) s"

text \<open>\<open>init_buffer(buf)\<close>; its argument is the thread's array, never NULL.\<close>

definition blog_init_buffer :: "'w os \<Rightarrow> ('w proc, int) exec" where
  "blog_init_buffer os =
     bnd (asks (sys_getpid os)) (\<lambda>new_pid.
     bnd (gets blog_v) (\<lambda>v.
     if thread_pid v = new_pid then ret (b_prefix_len v) else
     andthen (upd_blog (\<lambda>v. v\<lparr>b_buffer := []\<rparr>)) (
     bnd (blog_reinit os new_pid) (\<lambda>ok.
     if \<not> ok then ret (- 1) else
     andthen (upd_blog (\<lambda>v. v\<lparr>thread_pid := b_procid v, b_buffer := b_prefix v\<rparr>))
             (gets (\<lambda>s. b_prefix_len (blog_v s)))))))"

text \<open>\<open>blog(format, ...)\<close>; \<open>msg\<close> is the format with its arguments filled in.\<close>

definition blog :: "'w os \<Rightarrow> string \<Rightarrow> ('w proc, int) exec" where
  "blog os msg =
     bnd (blog_init_buffer os) (\<lambda>r.
     if r < 0 then ret (- 1) else
     andthen (upd_blog (\<lambda>v. v\<lparr>b_buffer :=
       take (nat r) (b_buffer v) @ snprintf (BUFFER_SIZE - nat r - 2) msg\<rparr>)) (
     if BUFFER_SIZE - 2 \<le> nat r + length msg then andthen (err os ''Data too long'') (ret (- 1)) else
     andthen (upd_blog (\<lambda>v. v\<lparr>b_buffer := b_buffer v @ ''}''\<rparr>)) (
     bnd (gets (\<lambda>s. b_buffer (blog_v s))) (\<lambda>text.
     android_log os ANDROID_LOG_INFO TAG_BLOG text))))"

section \<open>A steady thread\<close>

text \<open>The thread's array starts with the prefix of the running process.\<close>

definition blog_steady :: "'w os \<Rightarrow> 'w proc \<Rightarrow> bool" where
  "blog_steady os s \<longleftrightarrow> thread_pid (blog_v s) = sys_getpid os (world s) \<and>
     b_prefix_len (blog_v s) = int (length (b_prefix (blog_v s))) \<and>
     length (b_prefix (blog_v s)) < MAX_PREFIX_SIZE \<and>
     take (length (b_prefix (blog_v s))) (b_buffer (blog_v s)) = b_prefix (blog_v s)"

lemma blog_writes:
  assumes st: "blog_steady os s"
    and len: "length (b_prefix (blog_v s)) + length msg < BUFFER_SIZE - 2"
  shows "\<exists>s'. blog os msg s = Some (Inr (fst (sys_log os (LogEv ANDROID_LOG_INFO TAG_BLOG
      (b_prefix (blog_v s) @ msg @ ''}'')) (world s)), s')) \<and>
    logs s' = logs s @ [LogEv ANDROID_LOG_INFO TAG_BLOG (b_prefix (blog_v s) @ msg @ ''}'')] \<and>
    b_prefix (blog_v s') = b_prefix (blog_v s) \<and>
    take (length (b_prefix (blog_v s))) (b_buffer (blog_v s')) = b_prefix (blog_v s)"
proof -
  let ?p = "b_prefix (blog_v s)"
  have ib: "blog_init_buffer os s = Some (Inr (int (length ?p), s))"
    using st by (simp add: blog_steady_def blog_init_buffer_def asks_def exec_defs)
  have sn: "snprintf (BUFFER_SIZE - length ?p - 2) msg = msg"
    using len by (simp add: snprintf_def)
  have bf: "take (length ?p) (b_buffer (blog_v s)) = ?p" using st by (simp add: blog_steady_def)
  show ?thesis
    using len sn bf
    by (simp add: blog_def bnd_def ib andthen_def upd_blog_def modify_def gets_def android_log_def emit_def
        sysc_def split: prod.splits)
qed

text \<open>
  Everything the logger stamps its prefix with is read once: the counter value in it is
  that of the first record of the process.
\<close>

lemma blog_reinit_new:
  assumes "b_procid (blog_v s) \<noteq> pid" and nm: "process_name_str os s = Some (Inr (n, s1))"
    and len: "length (blog_prefix pid n (cntr_v s + 1)) < MAX_PREFIX_SIZE"
  shows "blog_reinit os pid s = Some (Inr (True, s1\<lparr>cntr_v := cntr_v s + 1,
     blog_v := (blog_v s)\<lparr>b_prefix := blog_prefix pid n (cntr_v s + 1),
       b_prefix_len := int (length (blog_prefix pid n (cntr_v s + 1))), b_procid := pid\<rparr>\<rparr>))"
proof -
  have k: "blog_v s1 = blog_v s" "cntr_v s1 = cntr_v s"
    using keepsD [OF keeps_process_name_str nm, of blog_v] keepsD [OF keeps_process_name_str nm, of cntr_v]
    by (simp_all add: indep_defs)
  have "snprintf MAX_PREFIX_SIZE (blog_prefix pid n (cntr_v s + 1)) = blog_prefix pid n (cntr_v s + 1)"
    using len by (simp add: snprintf_def)
  then show ?thesis
    using assms k by (subst blog_reinit.simps)
      (simp add: bnd_def andthen_def gets_def ret_def cntr_run Let_def upd_blog_def modify_def cas_b_procid_def)
qed

end
