(* ===== verification/Protocol.thy ===== *)
theory Protocol
  imports Bblog
begin

unbundle bit_operations_syntax

text \<open>
  Several threads in \<open>_blog\<close> at once, on one log buffer.  A step is one atomic
  operation of the C code: the fetch-and-add that reserves room, the copy into the
  reserved room, the fetch-and-sub that gives the reference back, and the fetch-and-sub
  that takes a refused reservation back.  \<open>acc\<close> and \<open>written\<close> are history variables:
  the reservations in the order they were granted, and those that have been copied.
\<close>

section \<open>The steps\<close>

datatype pc = Idle | Reserved int string | Written int string | Refused string

record shared =
  wrd :: "64 word"
  bytes :: "char list"
  pcs :: "nat \<Rightarrow> pc"
  acc :: "(int \<times> string) list"
  written :: "(int \<times> string) set"

text \<open>Room is granted by the test of \<open>_blog\<close> on the old value of the word.\<close>

definition granted :: "int \<Rightarrow> 64 word \<Rightarrow> string \<Rightarrow> bool" where
  "granted pid w r \<longleftrightarrow> PIBR_PID w = pid \<and> PIBR_IDX w + int (length r) < BATCH_LIMIT"

definition reserve :: "nat \<Rightarrow> string \<Rightarrow> shared \<Rightarrow> shared" where
  "reserve t r s = s\<lparr>wrd := wrd s + pack_word 0 0 (int (length r)) 1,
     pcs := (pcs s)(t := Reserved (PIBR_IDX (wrd s)) r), acc := acc s @ [(PIBR_IDX (wrd s), r)]\<rparr>"

definition refuse :: "nat \<Rightarrow> string \<Rightarrow> shared \<Rightarrow> shared" where
  "refuse t r s = s\<lparr>wrd := wrd s + pack_word 0 0 (int (length r)) 1, pcs := (pcs s)(t := Refused r)\<rparr>"

definition copy :: "nat \<Rightarrow> int \<Rightarrow> string \<Rightarrow> char list \<Rightarrow> shared \<Rightarrow> shared" where
  "copy t i r bs s = s\<lparr>bytes := bs, pcs := (pcs s)(t := Written i r), written := insert (i, r) (written s)\<rparr>"

definition release :: "nat \<Rightarrow> shared \<Rightarrow> shared" where
  "release t s = s\<lparr>wrd := wrd s - 1, pcs := (pcs s)(t := Idle)\<rparr>"

definition undo :: "nat \<Rightarrow> string \<Rightarrow> shared \<Rightarrow> shared" where
  "undo t r s = s\<lparr>wrd := wrd s - pack_word 0 0 (int (length r)) 1, pcs := (pcs s)(t := Idle)\<rparr>"

text \<open>The steps of threads \<open>0, ..., n - 1\<close> of process \<open>pid\<close> while no reservation is refused.\<close>

inductive calm :: "int \<Rightarrow> nat \<Rightarrow> shared \<Rightarrow> shared \<Rightarrow> bool" for pid n where
  calm_reserve: "t < n \<Longrightarrow> pcs s t = Idle \<Longrightarrow> r \<noteq> [] \<Longrightarrow> granted pid (wrd s) r \<Longrightarrow> calm pid n s (reserve t r s)"
| calm_copy: "t < n \<Longrightarrow> pcs s t = Reserved i r \<Longrightarrow> write_at (nat i) r (bytes s) = Some bs \<Longrightarrow>
    calm pid n s (copy t i r bs s)"
| calm_release: "t < n \<Longrightarrow> pcs s t = Written i r \<Longrightarrow> calm pid n s (release t s)"

text \<open>All steps.\<close>

inductive busy :: "int \<Rightarrow> nat \<Rightarrow> shared \<Rightarrow> shared \<Rightarrow> bool" for pid n where
  busy_calm: "calm pid n s s' \<Longrightarrow> busy pid n s s'"
| busy_refuse: "t < n \<Longrightarrow> pcs s t = Idle \<Longrightarrow> length r < BUFFER_SIZE \<Longrightarrow> \<not> granted pid (wrd s) r \<Longrightarrow>
    busy pid n s (refuse t r s)"
| busy_undo: "t < n \<Longrightarrow> pcs s t = Refused r \<Longrightarrow> busy pid n s (undo t r s)"

inductive_cases calmE: "calm pid n s s'"

text \<open>
  Steps in which no room is granted while a refused reservation has not been taken back, as when
  one thread at a time meets the end of the buffer.
\<close>

definition refusing :: "shared \<Rightarrow> bool" where
  "refusing s \<longleftrightarrow> (\<exists>t r. pcs s t = Refused r)"

definition orderly :: "int \<Rightarrow> nat \<Rightarrow> shared \<Rightarrow> shared \<Rightarrow> bool" where
  "orderly pid n s s' \<longleftrightarrow> busy pid n s s' \<and> (acc s' \<noteq> acc s \<longrightarrow> \<not> refusing s)"

section \<open>Reservations tile the buffer\<close>

fun tiles :: "int \<Rightarrow> (int \<times> string) list \<Rightarrow> int \<Rightarrow> bool" where
  "tiles b [] e \<longleftrightarrow> b = e"
| "tiles b ((i, r) # xs) e \<longleftrightarrow> i = b \<and> r \<noteq> [] \<and> tiles (b + int (length r)) xs e"

definition apart :: "int \<times> string \<Rightarrow> int \<times> string \<Rightarrow> bool" where
  "apart x y \<longleftrightarrow> fst x + int (length (snd x)) \<le> fst y \<or> fst y + int (length (snd y)) \<le> fst x"

lemma tiles_append: "tiles b (xs @ [(i, r)]) e \<longleftrightarrow> tiles b xs i \<and> r \<noteq> [] \<and> e = i + int (length r)"
  by (induction b xs i rule: tiles.induct) auto

lemma tiles_le: "tiles b xs e \<Longrightarrow> b \<le> e"
  by (induction b xs e rule: tiles.induct) fastforce+

lemma tiles_range: "tiles b xs e \<Longrightarrow> (i, r) \<in> set xs \<Longrightarrow> b \<le> i \<and> i + int (length r) \<le> e \<and> r \<noteq> []"
proof (induction b xs e rule: tiles.induct)
  case (2 b j q xs e)
  then show ?case using tiles_le [of "b + int (length q)" xs e] by fastforce
qed simp

lemma tiles_apart: "tiles b xs e \<Longrightarrow> x \<in> set xs \<Longrightarrow> y \<in> set xs \<Longrightarrow> x = y \<or> apart x y"
proof (induction b xs e rule: tiles.induct)
  case (2 b i r xs e)
  have r: "\<And>j q. (j, q) \<in> set xs \<Longrightarrow> b + int (length r) \<le> j"
    using tiles_range "2.prems"(1) by fastforce
  consider "x = (i, r)" "y = (i, r)" | "x = (i, r)" "y \<in> set xs" | "y = (i, r)" "x \<in> set xs"
    | "x \<in> set xs" "y \<in> set xs"
    using "2.prems" by auto
  then show ?case
  proof cases
    case 2
    then show ?thesis using r [of "fst y" "snd y"] "2.prems"(1) by (simp add: apart_def)
  next
    case 3
    then show ?thesis using r [of "fst x" "snd x"] "2.prems"(1) by (simp add: apart_def)
  qed (use "2.IH" "2.prems"(1) in auto)
qed simp

section \<open>The invariant\<close>

definition stored :: "char list \<Rightarrow> int \<times> string \<Rightarrow> bool" where
  "stored bs x \<longleftrightarrow> take (length (snd x)) (drop (nat (fst x)) bs) = snd x"

definition active :: "shared \<Rightarrow> nat set" where
  "active s = {t. pcs s t \<noteq> Idle}"

fun claim :: "pc \<Rightarrow> (int \<times> string) option" where
  "claim Idle = None"
| "claim (Reserved i r) = Some (i, r)"
| "claim (Written i r) = Some (i, r)"
| "claim (Refused r) = None"

text \<open>
  The packed word gives the end of the tiling and the number of active threads; every
  active thread holds a tile of its own; every tile not held or held after the copy is
  stored; a held tile before the copy is not yet.
\<close>

definition word_inv :: "int \<Rightarrow> nat \<Rightarrow> addr \<Rightarrow> int \<Rightarrow> shared \<Rightarrow> bool" where
  "word_inv pid n p b s \<longleftrightarrow> active s \<subseteq> {..<n} \<and>
     (\<exists>e. pibr_is (wrd s) pid e p (int (card (active s))) \<and> tiles b (acc s) e \<and> 0 \<le> b \<and> e < BATCH_LIMIT)"

definition claim_inv :: "shared \<Rightarrow> bool" where
  "claim_inv s \<longleftrightarrow>
     (\<forall>t x. claim (pcs s t) = Some x \<longrightarrow> x \<in> set (acc s)) \<and>
     (\<forall>t u x. claim (pcs s t) = Some x \<and> claim (pcs s u) = Some x \<longrightarrow> t = u) \<and>
     (\<forall>t r. pcs s t \<noteq> Refused r)"

definition store_inv :: "shared \<Rightarrow> bool" where
  "store_inv s \<longleftrightarrow> length (bytes s) = PIBR_BUF_SIZE \<and> written s \<subseteq> set (acc s) \<and>
     (\<forall>x\<in>written s. stored (bytes s) x) \<and>
     (\<forall>x\<in>set (acc s). x \<in> written s \<or> (\<exists>t. pcs s t = Reserved (fst x) (snd x))) \<and>
     (\<forall>t i r. pcs s t = Reserved i r \<longrightarrow> (i, r) \<notin> written s)"

definition proto_inv :: "int \<Rightarrow> nat \<Rightarrow> addr \<Rightarrow> int \<Rightarrow> shared \<Rightarrow> bool" where
  "proto_inv pid n p b s \<longleftrightarrow> word_inv pid n p b s \<and> claim_inv s \<and> store_inv s"

lemma stored_other:
  assumes w: "write_at (nat i) r bs = Some bs'" and ap: "apart x (i, r)" and st: "stored bs x"
    and pos: "0 \<le> i" "0 \<le> fst x"
  shows "stored bs' x"
proof -
  obtain j q where x: "x = (j, q)" by (cases x)
  have bs': "bs' = take (nat i) bs @ r @ drop (nat i + length r) bs" and len: "nat i + length r \<le> length bs"
    using w by (auto simp: write_at_def split: if_splits)
  consider "j + int (length q) \<le> i" | "i + int (length r) \<le> j"
    using ap by (auto simp: apart_def x)
  then show ?thesis
  proof cases
    case 1
    then have "nat j + length q \<le> nat i" using pos x by simp
    moreover define A where "A = take (nat i) bs"
    moreover have "length A = nat i" using len by (simp add: A_def)
    ultimately have "take (length q) (drop (nat j) bs') = take (length q) (drop (nat j) A)"
      unfolding bs' by simp
    also have "\<dots> = take (length q) (drop (nat j) bs)"
    proof -
      have "length q \<le> nat i - nat j" using \<open>nat j + length q \<le> nat i\<close> by linarith
      then show ?thesis by (simp add: A_def drop_take min_def)
    qed
    finally have "take (length q) (drop (nat j) bs') = take (length q) (drop (nat j) bs)" .
    then show ?thesis using st by (simp add: stored_def x)
  next
    case 2
    then have "nat i + length r \<le> nat j" using pos x by simp
    then have "drop (nat j) bs' = drop (nat j) bs"
      unfolding bs' using len by (simp add: drop_append min_def)
    then show ?thesis using st by (simp add: stored_def x)
  qed
qed

lemma stored_self: "write_at (nat i) r bs = Some bs' \<Longrightarrow> stored bs' (i, r)"
  by (auto simp: write_at_def stored_def min_def split: if_splits)

lemma store_invD:
  assumes "store_inv s"
  shows "length (bytes s) = PIBR_BUF_SIZE" "written s \<subseteq> set (acc s)" "\<forall>x\<in>written s. stored (bytes s) x"
    "x \<in> set (acc s) \<Longrightarrow> x \<in> written s \<or> (\<exists>t. pcs s t = Reserved (fst x) (snd x))"
    "pcs s t = Reserved i r \<Longrightarrow> (i, r) \<notin> written s"
  using assms by (auto simp: store_inv_def)

lemma store_invI:
  assumes "length (bytes s) = PIBR_BUF_SIZE" "written s \<subseteq> set (acc s)" "\<And>x. x \<in> written s \<Longrightarrow> stored (bytes s) x"
    "\<And>x. x \<in> set (acc s) \<Longrightarrow> x \<notin> written s \<Longrightarrow> \<exists>t. pcs s t = Reserved (fst x) (snd x)"
    "\<And>t i r. pcs s t = Reserved i r \<Longrightarrow> (i, r) \<notin> written s"
  shows "store_inv s"
  unfolding store_inv_def using assms by blast

text \<open>A thread that holds no uncopied room can move without another one losing its own.\<close>

lemma reserved_kept:
  "pcs s u = Reserved i r \<Longrightarrow> pcs s t \<noteq> Reserved i r \<Longrightarrow> \<exists>v. ((pcs s)(t := c)) v = Reserved i r"
  by (metis fun_upd_other)

lemma active_card: "word_inv pid n p b s \<Longrightarrow> finite (active s) \<and> card (active s) \<le> n"
  using card_mono [of "{..<n}" "active s"] finite_subset [of "active s" "{..<n}"]
  by (auto simp: word_inv_def)

lemma active_upd: "active (s\<lparr>pcs := (pcs s)(t := c)\<rparr>) = (if c = Idle then active s - {t} else insert t (active s))"
  by (auto simp: active_def)

lemma word_invE:
  assumes "word_inv pid n p b s"
  obtains e where "pibr_is (wrd s) pid e p (int (card (active s)))" "tiles b (acc s) e" "0 \<le> b" "e < BATCH_LIMIT"
    "active s \<subseteq> {..<n}" "PIBR_IDX (wrd s) = e" "PIBR_PID (wrd s) = pid"
  using assms unfolding word_inv_def by (metis pibr_is_fields(1,2))

lemma word_inv_reserve:
  assumes w: "word_inv pid n p b s" and n: "n < 4096" and t: "t < n" "pcs s t = Idle"
    and r: "r \<noteq> []" "granted pid (wrd s) r"
  shows "word_inv pid n p b (reserve t r s)"
proof -
  obtain e where e: "pibr_is (wrd s) pid e p (int (card (active s)))" "tiles b (acc s) e" "0 \<le> b"
    "active s \<subseteq> {..<n}" "PIBR_IDX (wrd s) = e"
    using w by (rule word_invE)
  have nt: "t \<notin> active s" using t by (simp add: active_def)
  have fin: "finite (active s)" using active_card [OF w] by blast
  have "active (reserve t r s) = insert t (active s)"
    by (auto simp: reserve_def active_def)
  moreover have c: "card (insert t (active s)) = card (active s) + 1" using fin nt by simp
  moreover have "card (insert t (active s)) \<le> n"
    using card_mono [of "{..<n}" "insert t (active s)"] e(4) t(1) by simp
  moreover have "e + int (length r) < 4044"
    using r(2) e(5) by (simp add: granted_def BATCH_LIMIT_num)
  moreover have "pibr_is (wrd s + pack_word 0 0 (int (length r)) 1) pid (e + int (length r)) p
      (int (card (active s)) + 1)"
    using calculation n by (intro pibr_reserve [OF e(1)]) auto
  ultimately show ?thesis
    using e t r unfolding word_inv_def
    by (auto simp: reserve_def tiles_append BATCH_LIMIT_num add.commute intro!: exI [of _ "e + int (length r)"])
qed

lemma new_tile:
  assumes "word_inv pid n p b s" shows "(PIBR_IDX (wrd s), r) \<notin> set (acc s)"
proof
  assume m: "(PIBR_IDX (wrd s), r) \<in> set (acc s)"
  obtain e where "tiles b (acc s) e" "PIBR_IDX (wrd s) = e" using assms by (rule word_invE)
  then show False using tiles_range [OF _ m] by fastforce
qed

lemma proto_reserve:
  assumes inv: "proto_inv pid n p b s" and n: "n < 4096" and t: "t < n" "pcs s t = Idle"
    and r: "r \<noteq> []" "granted pid (wrd s) r"
  shows "proto_inv pid n p b (reserve t r s)"
proof -
  have w: "word_inv pid n p b s" and c: "claim_inv s" and st: "store_inv s"
    using inv by (simp_all add: proto_inv_def)
  let ?x = "(PIBR_IDX (wrd s), r)"
  note nt = new_tile [OF w]
  have "claim_inv (reserve t r s)"
    unfolding claim_inv_def reserve_def using c nt t by (auto simp: claim_inv_def)
  moreover have "store_inv (reserve t r s)"
  proof (rule store_invI)
    fix x assume x: "x \<in> set (acc (reserve t r s))" "x \<notin> written (reserve t r s)"
    show "\<exists>u. pcs (reserve t r s) u = Reserved (fst x) (snd x)"
    proof (cases "x = ?x")
      case True
      then show ?thesis by (auto simp: reserve_def intro: exI [of _ t])
    next
      case False
      then obtain u where "pcs s u = Reserved (fst x) (snd x)"
        using x store_invD(4) [OF st, of x] by (auto simp: reserve_def)
      then show ?thesis using t reserved_kept [of s u "fst x" "snd x" t] by (simp add: reserve_def)
    qed
  qed (use store_invD [OF st] nt t in \<open>auto simp: reserve_def split: if_splits\<close>)
  ultimately show ?thesis
    using word_inv_reserve [OF w n t r] by (simp add: proto_inv_def)
qed

lemma proto_copy:
  assumes inv: "proto_inv pid n p b s" and t: "pcs s t = Reserved i r"
    and wr: "write_at (nat i) r (bytes s) = Some bs"
  shows "proto_inv pid n p b (copy t i r bs s)"
proof -
  have w: "word_inv pid n p b s" and c: "claim_inv s" and st: "store_inv s"
    using inv by (simp_all add: proto_inv_def)
  obtain e where e: "tiles b (acc s) e" "0 \<le> b" using w by (rule word_invE)
  have cl: "claim (pcs s t) = Some (i, r)" using t by simp
  have ir: "(i, r) \<in> set (acc s)" using c cl by (auto simp: claim_inv_def)
  have nw: "(i, r) \<notin> written s" using st t by (auto simp: store_inv_def)
  have own: "u = t" if "pcs s u = Reserved i r" for u
    using c cl that unfolding claim_inv_def by (metis claim.simps(2))
  have others: "stored bs x" if "x \<in> written s" for x
  proof -
    have x: "x \<in> set (acc s)" "stored (bytes s) x" using st that by (auto simp: store_inv_def)
    have "apart x (i, r)" using tiles_apart [OF e(1) x(1) ir] that nw by auto
    moreover have "0 \<le> i" "0 \<le> fst x"
      using tiles_range [OF e(1) ir] tiles_range [OF e(1), of "fst x" "snd x"] x(1) e(2) by auto
    ultimately show ?thesis using stored_other [OF wr _ x(2)] by blast
  qed
  have "word_inv pid n p b (copy t i r bs s)"
  proof -
    have "active (copy t i r bs s) = active s" using t by (auto simp: copy_def active_def)
    then show ?thesis using w by (simp add: word_inv_def copy_def)
  qed
  moreover have "claim_inv (copy t i r bs s)"
    unfolding claim_inv_def copy_def using c cl by (auto simp: claim_inv_def)
  moreover have "store_inv (copy t i r bs s)"
  proof (rule store_invI)
    fix x assume x: "x \<in> set (acc (copy t i r bs s))" "x \<notin> written (copy t i r bs s)"
    then obtain u where u: "pcs s u = Reserved (fst x) (snd x)" "x \<noteq> (i, r)"
      using store_invD(4) [OF st, of x] by (auto simp: copy_def)
    then have "u \<noteq> t" using t by (auto simp: prod_eq_iff)
    then have "pcs (copy t i r bs s) u = Reserved (fst x) (snd x)" using u by (simp add: copy_def)
    then show "\<exists>u. pcs (copy t i r bs s) u = Reserved (fst x) (snd x)" ..
  next
    fix u j q assume "pcs (copy t i r bs s) u = Reserved j q"
    then have "pcs s u = Reserved j q" "u \<noteq> t" by (auto simp: copy_def split: if_splits)
    then show "(j, q) \<notin> written (copy t i r bs s)"
      using store_invD(5) [OF st] own by (auto simp: copy_def)
  qed (use store_invD [OF st] others stored_self [OF wr] length_write_at [OF wr] ir in
      \<open>auto simp: copy_def\<close>)
  ultimately show ?thesis by (simp add: proto_inv_def)
qed

lemma proto_release:
  assumes inv: "proto_inv pid n p b s" and t: "pcs s t = Written i r"
  shows "proto_inv pid n p b (release t s)"
proof -
  have w: "word_inv pid n p b s" and c: "claim_inv s" and st: "store_inv s"
    using inv by (simp_all add: proto_inv_def)
  obtain e where e: "pibr_is (wrd s) pid e p (int (card (active s)))" "tiles b (acc s) e" "0 \<le> b"
    "e < BATCH_LIMIT" "active s \<subseteq> {..<n}"
    using w by (rule word_invE)
  have fin: "finite (active s)" and ta: "t \<in> active s" using active_card [OF w] t by (auto simp: active_def)
  have ac: "active (release t s) = active s - {t}" by (auto simp: release_def active_def)
  have "1 \<le> card (active s)" using fin ta by (metis One_nat_def Suc_leI card_gt_0_iff empty_iff)
  then have "pibr_is (wrd s - 1) pid e p (int (card (active s)) - 1)"
    by (intro pibr_unref [OF e(1)]) simp
  moreover have "int (card (active s - {t})) = int (card (active s)) - 1"
    using fin ta \<open>1 \<le> card (active s)\<close> by simp
  ultimately have "word_inv pid n p b (release t s)"
    using e ac unfolding word_inv_def by (auto simp: release_def)
  moreover have "claim_inv (release t s)"
    using c unfolding claim_inv_def release_def by (auto split: if_splits)
  moreover have "store_inv (release t s)"
  proof (rule store_invI)
    fix x assume x: "x \<in> set (acc (release t s))" "x \<notin> written (release t s)"
    then obtain u where "pcs s u = Reserved (fst x) (snd x)"
      using store_invD(4) [OF st, of x] by (auto simp: release_def)
    then show "\<exists>u. pcs (release t s) u = Reserved (fst x) (snd x)"
      using t reserved_kept [of s u "fst x" "snd x" t] by (simp add: release_def)
  qed (use store_invD [OF st] in \<open>auto simp: release_def split: if_splits\<close>)
  ultimately show ?thesis by (simp add: proto_inv_def)
qed

lemma calm_inv: "calm pid n s s' \<Longrightarrow> n < 4096 \<Longrightarrow> proto_inv pid n p b s \<Longrightarrow> proto_inv pid n p b s'"
  by (erule calmE) (auto intro: proto_reserve proto_copy proto_release)

lemma calm_run_inv:
  assumes "(calm pid n)\<^sup>*\<^sup>* s s'" and "n < 4096" and "proto_inv pid n p b s"
  shows "proto_inv pid n p b s'"
  using assms by (induction rule: rtranclp_induct) (auto intro: calm_inv)

text \<open>When all threads are idle the buffer holds the records one behind the other.\<close>

lemma tiles_stored:
  assumes "tiles b xs e" and "\<forall>x\<in>set xs. stored bs x" and "0 \<le> b"
  shows "take (nat (e - b)) (drop (nat b) bs) = concat (map snd xs)"
  using assms
proof (induction b xs e rule: tiles.induct)
  case (2 b i r xs e)
  have ih: "take (nat (e - (b + int (length r)))) (drop (nat (b + int (length r))) bs) = concat (map snd xs)"
    using "2.IH" "2.prems" by auto
  have r: "take (length r) (drop (nat b) bs) = r" using "2.prems" by (auto simp: stored_def)
  have "b + int (length r) \<le> e" using "2.prems"(1) tiles_le [of "b + int (length r)" xs e] by simp
  then have "nat (e - b) = length r + nat (e - (b + int (length r)))" by simp
  moreover have "nat (b + int (length r)) = nat b + length r" using "2.prems"(3) by simp
  ultimately show ?case
    using r ih by (simp add: take_add add.commute)
qed simp

lemma quiet_content:
  assumes "proto_inv pid n p b s" and "\<forall>t. pcs s t = Idle"
  obtains e where "pibr_is (wrd s) pid e p 0"
    and "take (nat (e - b)) (drop (nat b) (bytes s)) = concat (map snd (acc s))"
proof -
  obtain e where e: "pibr_is (wrd s) pid e p (int (card (active s)))" "tiles b (acc s) e" "0 \<le> b"
    using assms(1) by (auto simp: proto_inv_def elim: word_invE)
  have "\<forall>x\<in>set (acc s). stored (bytes s) x"
    using assms by (auto simp: proto_inv_def store_inv_def)
  moreover have "active s = {}" using assms(2) by (simp add: active_def)
  ultimately show thesis using tiles_stored [OF e(2) _ e(3)] e(1) that by simp
qed

text \<open>A buffer nobody is writing to satisfies the invariant.\<close>

lemma proto_start:
  assumes "pibr_is w pid b p 0" and "length bs = PIBR_BUF_SIZE" and "b < BATCH_LIMIT"
  shows "proto_inv pid n p b \<lparr>wrd = w, bytes = bs, pcs = (\<lambda>_. Idle), acc = [], written = {}\<rparr>"
  using assms by (auto simp: proto_inv_def word_inv_def claim_inv_def store_inv_def active_def pibr_is_def)

text \<open>A granted record: the three steps of one thread, whatever the others are doing.\<close>

lemma granted_room:
  assumes inv: "proto_inv pid n p b s" and g: "granted pid (wrd s) r"
  obtains bs where "0 \<le> PIBR_IDX (wrd s)" "write_at (nat (PIBR_IDX (wrd s))) r (bytes s) = Some bs"
proof -
  let ?i = "PIBR_IDX (wrd s)"
  obtain e where e: "tiles b (acc s) e" "0 \<le> b" "?i = e"
    using inv by (auto simp: proto_inv_def elim: word_invE)
  have i: "0 \<le> ?i" using e tiles_le by fastforce
  have "length (bytes s) = PIBR_BUF_SIZE" using inv by (simp add: proto_inv_def store_inv_def)
  then have "nat ?i + length r \<le> length (bytes s)"
    using g i by (simp add: granted_def BATCH_LIMIT_num size_defs) linarith
  then show thesis using that i by (simp add: write_at_def)
qed

lemma three_steps:
  assumes t: "t < n" "pcs s t = Idle" and r: "r \<noteq> []" "granted pid (wrd s) r"
    and bs: "write_at (nat (PIBR_IDX (wrd s))) r (bytes s) = Some bs"
    and s': "s' = release t (copy t (PIBR_IDX (wrd s)) r bs (reserve t r s))"
  shows "(calm pid n)\<^sup>*\<^sup>* s s'" and "pcs s' = pcs s" and "acc s' = acc s @ [(PIBR_IDX (wrd s), r)]"
proof -
  let ?s1 = "reserve t r s" and ?s2 = "copy t (PIBR_IDX (wrd s)) r bs (reserve t r s)"
  have "calm pid n s ?s1" using t r by (intro calm_reserve) auto
  moreover have "calm pid n ?s1 ?s2" using t bs by (intro calm_copy) (simp_all add: reserve_def)
  moreover have "calm pid n ?s2 s'" unfolding s' using t by (intro calm_release) (simp_all add: copy_def)
  ultimately show "(calm pid n)\<^sup>*\<^sup>* s s'"
    by (meson converse_rtranclp_into_rtranclp rtranclp.rtrancl_refl)
  show "pcs s' = pcs s" "acc s' = acc s @ [(PIBR_IDX (wrd s), r)]"
    using t(2) by (auto simp: s' release_def copy_def reserve_def)
qed

text \<open>So a thread can always put a record behind the others.\<close>

lemma one_record:
  assumes "proto_inv pid n p b s" and "t < n" "pcs s t = Idle" and "r \<noteq> []" "granted pid (wrd s) r"
  shows "\<exists>s'. (calm pid n)\<^sup>*\<^sup>* s s' \<and> pcs s' = pcs s \<and> acc s' = acc s @ [(PIBR_IDX (wrd s), r)]"
  using granted_room [OF assms(1,5)] three_steps [OF assms(2-5) _ refl] by metis

section \<open>Refusals that are settled\<close>

text \<open>
  The state as it would be had the refused reservations never been made.  An orderly step is a
  calm one on it, or none.
\<close>

fun debt :: "pc \<Rightarrow> 64 word" where
  "debt (Refused r) = pack_word 0 0 (int (length r)) 1"
| "debt _ = 0"

fun settle :: "pc \<Rightarrow> pc" where
  "settle (Refused r) = Idle"
| "settle c = c"

definition settled :: "nat \<Rightarrow> shared \<Rightarrow> shared" where
  "settled n s = s\<lparr>wrd := wrd s - (\<Sum>t<n. debt (pcs s t)), pcs := (\<lambda>t. settle (pcs s t))\<rparr>"

text \<open>A sum over the threads when one of them moves.\<close>

lemma sum_upd:
  fixes f :: "'a \<Rightarrow> 'b :: comm_monoid_add" and n :: nat
  assumes "t < n"
  shows "(\<Sum>u<n. f ((g(t := c)) u)) + f (g t) = (\<Sum>u<n. f (g u)) + f c"
proof -
  have "(\<Sum>u<n. f (h u)) = f (h t) + (\<Sum>u\<in>{..<n} - {t}. f (h u))" for h
    using assms by (intro sum.remove) simp_all
  from this [of "g(t := c)"] this [of g] have "(\<Sum>u<n. f ((g(t := c)) u)) = f c + (\<Sum>u\<in>{..<n} - {t}. f (g u))"
    "(\<Sum>u<n. f (g u)) = f (g t) + (\<Sum>u\<in>{..<n} - {t}. f (g u))"
    by simp_all
  then show ?thesis by (simp add: ac_simps)
qed

lemma settled_same: "\<not> refusing s \<Longrightarrow> settled n s = s"
proof -
  assume r: "\<not> refusing s"
  have "debt (pcs s t) = 0 \<and> settle (pcs s t) = pcs s t" for t
    using r by (cases "pcs s t") (auto simp: refusing_def)
  then show ?thesis by (simp add: settled_def)
qed

lemma settled_moves:
  assumes "t < n"
  shows "pcs s t = Reserved i r \<Longrightarrow> settled n (copy t i r bs s) = copy t i r bs (settled n s)"
    and "pcs s t = Written i r \<Longrightarrow> settled n (release t s) = release t (settled n s)"
    and "pcs s t = Idle \<Longrightarrow> settled n (refuse t r s) = settled n s"
    and "pcs s t = Refused r \<Longrightarrow> settled n (undo t r s) = settled n s"
  using sum_upd [OF assms, of debt "pcs s" "Written i r"] sum_upd [OF assms, of debt "pcs s" Idle]
    sum_upd [OF assms, of debt "pcs s" "Refused r"]
  by (auto simp: settled_def copy_def release_def refuse_def undo_def fun_eq_iff algebra_simps eq_diff_eq)

lemma orderly_calm:
  assumes "orderly pid n s s'"
  shows "(calm pid n)\<^sup>*\<^sup>* (settled n s) (settled n s')"
proof -
  have "busy pid n s s'" and r: "acc s' \<noteq> acc s \<Longrightarrow> \<not> refusing s" using assms by (auto simp: orderly_def)
  then show ?thesis
  proof cases
    case busy_calm
    then show ?thesis
    proof cases
      case (calm_reserve t r)
      then have nr: "\<not> refusing s" using r by (simp add: reserve_def)
      then have "\<not> refusing (reserve t r s)" by (auto simp: refusing_def reserve_def)
      then show ?thesis using busy_calm nr calm_reserve(1) by (simp add: settled_same r_into_rtranclp)
    next
      case (calm_copy t i r bs)
      have "calm pid n (settled n s) (copy t i r bs (settled n s))"
        using calm_copy by (intro calm.calm_copy) (simp_all add: settled_def)
      then show ?thesis using calm_copy settled_moves(1) by (simp add: r_into_rtranclp)
    next
      case (calm_release t i r)
      have "calm pid n (settled n s) (release t (settled n s))"
        using calm_release by (intro calm.calm_release) (simp_all add: settled_def)
      then show ?thesis using calm_release settled_moves(2) by (simp add: r_into_rtranclp)
    qed
  qed (simp_all add: settled_moves)
qed

lemma orderly_run_inv:
  assumes run: "(orderly pid n)\<^sup>*\<^sup>* s s'" and "n < 4096" and inv: "proto_inv pid n p b s"
  shows "proto_inv pid n p b (settled n s')"
proof -
  have "\<not> refusing s" using inv by (auto simp: proto_inv_def claim_inv_def refusing_def)
  then have "settled n s = s" by (rule settled_same)
  moreover have "(calm pid n)\<^sup>*\<^sup>* (settled n s) (settled n s')"
    using run by (induction rule: rtranclp_induct) (auto dest: orderly_calm)
  ultimately show ?thesis using calm_run_inv [OF _ assms(2) inv] by simp
qed

lemma calm_run_orderly:
  assumes "(calm pid n)\<^sup>*\<^sup>* s s'" and "n < 4096" and "proto_inv pid n p b s"
  shows "(orderly pid n)\<^sup>*\<^sup>* s s'"
  using assms(1)
proof (induction rule: rtranclp_induct)
  case (step s1 s2)
  have "proto_inv pid n p b s1" using calm_run_inv [OF step.hyps(1) assms(2,3)] .
  then have "\<not> refusing s1" by (auto simp: proto_inv_def claim_inv_def refusing_def)
  then have "orderly pid n s1 s2" using step.hyps(2) by (simp add: orderly_def busy_calm)
  then show ?case using step.IH by simp
qed simp

section \<open>The functions make these steps\<close>

text \<open>
  \<open>views s p sh\<close>: the buffer at \<open>p\<close> is the one of the protocol state \<open>sh\<close>, in which other threads
  may be anywhere.  Each atomic operation of \<open>_blog\<close> on it is one step.
\<close>

definition views :: "'w proc \<Rightarrow> addr \<Rightarrow> shared \<Rightarrow> bool" where
  "views s p sh \<longleftrightarrow> p \<noteq> 0 \<and> bufs s p = Some \<lparr>pibr = wrd sh, buf = bytes sh\<rparr>"

lemma fetch_add_step:
  assumes "views s p sh"
  shows "\<exists>s'. fetch_add p (pack_word 0 0 (int (length r)) 1) s = Some (Inr (wrd sh, s')) \<and>
    views s' p (reserve t r sh) \<and> views s' p (refuse t r sh)"
  using assms by (auto simp: views_def fetch_add_run reserve_def refuse_def)

lemma copy_step:
  assumes "views s p sh" "0 \<le> i" "write_at (nat i) r (bytes sh) = Some bs"
  shows "\<exists>s'. copy_into p i r s = Some (Inr ((), s')) \<and> views s' p (copy t i r bs sh)"
  using assms by (auto simp: views_def copy_into_run copy_def)

lemma fetch_sub_step:
  assumes "views s p sh"
  shows "\<exists>s'. fetch_sub p 1 s = Some (Inr (wrd sh, s')) \<and> views s' p (release t sh)"
    and "\<exists>s'. fetch_sub p (pack_word 0 0 (int (length r)) 1) s = Some (Inr (wrd sh, s')) \<and> views s' p (undo t r sh)"
  using assms by (auto simp: views_def fetch_sub_run release_def undo_def)

text \<open>A call of \<open>_blog\<close> that is granted room is \<open>reserve\<close>, \<open>copy\<close> and \<open>release\<close>.\<close>

lemma do_blog_steps:
  assumes v: "views s p sh" and cur: "proc_pibr s = p" and pid: "sys_getpid os (world s) = pid"
    and inv: "proto_inv pid n p b sh" and t: "t < n" "pcs sh t = Idle" and r: "r \<noteq> []" "granted pid (wrd sh) r"
  shows "\<exists>s' sh'. do_blog os r s = Some (Inr (int (length r), s')) \<and> (calm pid n)\<^sup>*\<^sup>* sh sh' \<and> views s' p sh' \<and>
    pcs sh' = pcs sh \<and> acc sh' = acc sh @ [(PIBR_IDX (wrd sh), r)]"
proof -
  let ?i = "PIBR_IDX (wrd sh)" and ?incr = "pack_word 0 0 (int (length r)) 1"
  obtain e where "pibr_is (wrd sh) pid e p (int (card (active sh)))"
    using inv unfolding proto_inv_def by (blast elim: word_invE)
  then have ptr: "PIBR_PTR (wrd sh) = p" using pibr_is_fields by blast
  have p: "p \<noteq> 0" using v by (simp add: views_def)
  obtain bs where i: "0 \<le> ?i" and bs: "write_at (nat ?i) r (bytes sh) = Some bs"
    using granted_room [OF inv r(2)] by blast
  let ?h1 = "reserve t r sh" and ?h2 = "copy t ?i r bs (reserve t r sh)"
  obtain s1 where 1: "fetch_add p ?incr s = Some (Inr (wrd sh, s1))" "views s1 p ?h1"
    using fetch_add_step [OF v] by blast
  obtain s2 where 2: "copy_into p ?i r s1 = Some (Inr ((), s2))" "views s2 p ?h2"
    using copy_step [OF 1(2) i, of r bs t] bs by (force simp: reserve_def)
  obtain s3 w where 3: "fetch_sub p 1 s2 = Some (Inr (w, s3))" "views s3 p (release t ?h2)"
    using fetch_sub_step(1) [OF 2(2)] by blast
  have "blog_loop os pid ?incr r s = Some (Inr (int (length r), s3))"
    using 1(1) 2(1) 3(1) ptr p r(2) cur
    by (subst blog_loop.simps) (simp add: bnd_def andthen_def gets_def ret_def granted_def)
  then have "do_blog os r s = Some (Inr (int (length r), s3))"
    using pid by (simp add: do_blog_def asks_def bnd_def gets_def pack_buffer_run PID_MAX_def)
  then show ?thesis using 3(2) three_steps [OF t r bs refl] by blast
qed

section \<open>Refused reservations\<close>

text \<open>
  A refused reservation moves the index until it is undone.  A thread that reserves in
  between is granted room behind it, and the undo then moves the index back over that room.
\<close>

definition buffer_at :: "64 word \<Rightarrow> char list \<Rightarrow> shared" where
  "buffer_at w bs = \<lparr>wrd = w, bytes = bs, pcs = (\<lambda>_. Idle), acc = [], written = {}\<rparr>"

lemma busy_grant:
  assumes "pibr_is (wrd s) pid e p k" "t < n" "pcs s t = Idle" "r \<noteq> []" "e + int (length r) < BATCH_LIMIT"
    "k + 1 < 4096"
  shows "busy pid n s (reserve t r s)" and "pibr_is (wrd (reserve t r s)) pid (e + int (length r)) p (k + 1)"
    and "pcs (reserve t r s) = (pcs s)(t := Reserved e r)"
proof -
  note f = pibr_is_fields [OF assms(1)]
  have "granted pid (wrd s) r" using assms(5) f by (simp add: granted_def)
  then show "busy pid n s (reserve t r s)" using assms by (intro busy_calm calm_reserve)
  show "pibr_is (wrd (reserve t r s)) pid (e + int (length r)) p (k + 1)"
    using assms by (auto simp: reserve_def BATCH_LIMIT_num intro!: pibr_reserve)
  show "pcs (reserve t r s) = (pcs s)(t := Reserved e r)" using f by (simp add: reserve_def)
qed

lemma busy_deny:
  assumes "pibr_is (wrd s) pid e p k" "t < n" "pcs s t = Idle" "BATCH_LIMIT \<le> e + int (length r)"
    "length r < BUFFER_SIZE" "e + int (length r) < 65536" "k + 1 < 4096"
  shows "busy pid n s (refuse t r s)" and "pibr_is (wrd (refuse t r s)) pid (e + int (length r)) p (k + 1)"
    and "pcs (refuse t r s) = (pcs s)(t := Refused r)"
proof -
  have "\<not> granted pid (wrd s) r" using assms(4) pibr_is_fields [OF assms(1)] by (simp add: granted_def)
  then show "busy pid n s (refuse t r s)" using assms by (intro busy_refuse)
qed (use assms in \<open>auto simp: refuse_def intro!: pibr_reserve\<close>)

lemma busy_back:
  assumes "pibr_is (wrd s) pid e p k" "t < n" "pcs s t = Refused r" "int (length r) \<le> e" "1 \<le> k"
  shows "busy pid n s (undo t r s)" and "pibr_is (wrd (undo t r s)) pid (e - int (length r)) p (k - 1)"
    and "pcs (undo t r s) = (pcs s)(t := Idle)"
proof -
  show "busy pid n s (undo t r s)" using assms by (intro busy_undo)
qed (use assms in \<open>auto simp: undo_def intro!: pibr_release\<close>)

lemma overlap_reachable:
  assumes w: "pibr_is (wrd s) pid 4000 p 0" and idle: "\<forall>t. pcs s t = Idle"
  shows "\<exists>s'. (busy pid 4)\<^sup>*\<^sup>* s s' \<and> pcs s' 2 = Reserved 4010 (replicate 5 CHR ''x'') \<and>
    pcs s' 3 = Reserved 4005 (replicate 10 CHR ''y'')"
proof -
  let ?a = "replicate 100 CHR ''a''" and ?b = "replicate 10 CHR ''b''"
    and ?x = "replicate 5 CHR ''x''" and ?y = "replicate 10 CHR ''y''"
  define s1 where "s1 = refuse 0 ?a s"
  have 1: "busy pid 4 s s1" "pibr_is (wrd s1) pid 4100 p 1" "pcs s1 = (pcs s)(0 := Refused ?a)"
    using busy_deny [OF w, of 0 4 ?a] idle by (simp_all add: s1_def BATCH_LIMIT_num size_defs)
  define s2 where "s2 = refuse 1 ?b s1"
  have 2: "busy pid 4 s1 s2" "pibr_is (wrd s2) pid 4110 p 2" "pcs s2 = (pcs s1)(1 := Refused ?b)"
    using busy_deny [OF 1(2), of 1 4 ?b] idle 1(3) by (simp_all add: s2_def BATCH_LIMIT_num size_defs)
  define s3 where "s3 = undo 0 ?a s2"
  have 3: "busy pid 4 s2 s3" "pibr_is (wrd s3) pid 4010 p 1" "pcs s3 = (pcs s2)(0 := Idle)"
    using busy_back [OF 2(2), of 0 4 ?a] 1(3) 2(3) by (simp_all add: s3_def)
  define s4 where "s4 = reserve 2 ?x s3"
  have 4: "busy pid 4 s3 s4" "pibr_is (wrd s4) pid 4015 p 2" "pcs s4 = (pcs s3)(2 := Reserved 4010 ?x)"
    using busy_grant [OF 3(2), of 2 4 ?x] idle 1(3) 2(3) 3(3) by (simp_all add: s4_def BATCH_LIMIT_num)
  define s5 where "s5 = undo 1 ?b s4"
  have 5: "busy pid 4 s4 s5" "pibr_is (wrd s5) pid 4005 p 1" "pcs s5 = (pcs s4)(1 := Idle)"
    using busy_back [OF 4(2), of 1 4 ?b] 2(3) 3(3) 4(3) by (simp_all add: s5_def)
  define s6 where "s6 = reserve 3 ?y s5"
  have 6: "busy pid 4 s5 s6" "pcs s6 = (pcs s5)(3 := Reserved 4005 ?y)"
    using busy_grant [OF 5(2), of 3 4 ?y] idle 1(3) 2(3) 3(3) 4(3) 5(3) by (simp_all add: s6_def BATCH_LIMIT_num)
  have "(busy pid 4)\<^sup>*\<^sup>* s s6"
    using 1(1) 2(1) 3(1) 4(1) 5(1) 6(1) by (meson converse_rtranclp_into_rtranclp rtranclp.rtrancl_refl)
  moreover have "pcs s6 2 = Reserved 4010 ?x" "pcs s6 3 = Reserved 4005 ?y"
    using 4(3) 5(3) 6(2) by simp_all
  ultimately show ?thesis by blast
qed

section \<open>Flushing under a refused reservation\<close>

text \<open>
  A buffer that has been swapped out goes on changing: the threads in it finish, and a thread
  that had read \<open>proc_pibr\<close> before the swap may still reserve in it and be granted room or
  refused.  The index is at any time its first value, the bytes granted and the bytes of the
  refused reservations that have not been taken back.  \<open>L\<close> bounds the length of refused
  records, so that the 16 bits of the index do not overflow.
\<close>

fun refused_len :: "pc \<Rightarrow> nat" where
  "refused_len (Refused r) = length r"
| "refused_len _ = 0"

definition refused :: "nat \<Rightarrow> shared \<Rightarrow> nat" where
  "refused n s = (\<Sum>t<n. refused_len (pcs s t))"

definition granted_bytes :: "shared \<Rightarrow> nat" where
  "granted_bytes s = length (concat (map snd (acc s)))"

definition refusals_below :: "nat \<Rightarrow> shared \<Rightarrow> bool" where
  "refusals_below L s \<longleftrightarrow> (\<forall>t r. pcs s t = Refused r \<longrightarrow> length r \<le> L)"

definition late :: "nat \<Rightarrow> int \<Rightarrow> nat \<Rightarrow> shared \<Rightarrow> shared \<Rightarrow> bool" where
  "late L pid n s s' \<longleftrightarrow> busy pid n s s' \<and> refusals_below L s'"

definition accounted :: "int \<Rightarrow> nat \<Rightarrow> addr \<Rightarrow> int \<Rightarrow> shared \<Rightarrow> bool" where
  "accounted pid n p m s \<longleftrightarrow> 0 \<le> m \<and> m + int (granted_bytes s) < BATCH_LIMIT \<and> active s \<subseteq> {..<n} \<and>
     pibr_is (wrd s) pid (m + int (granted_bytes s) + int (refused n s)) p (int (card (active s)))"

lemma accountedD:
  assumes "accounted pid n p m s"
  shows "0 \<le> m" "m + int (granted_bytes s) < BATCH_LIMIT" "active s \<subseteq> {..<n}" "finite (active s)"
    "pibr_is (wrd s) pid (m + int (granted_bytes s) + int (refused n s)) p (int (card (active s)))"
  using assms finite_subset [of "active s" "{..<n}"] by (auto simp: accounted_def)

text \<open>Joining and leaving the active threads.\<close>

lemma active_join:
  assumes "active s \<subseteq> {..<n}" "pcs s t = Idle" "t < n"
  shows "card (insert t (active s)) = card (active s) + 1 \<and> card (active s) + 1 \<le> n"
proof -
  have "finite (active s)" using finite_subset [OF assms(1)] by simp
  moreover have "t \<notin> active s" using assms(2) by (simp add: active_def)
  moreover have "card (insert t (active s)) \<le> n" using card_mono [of "{..<n}" "insert t (active s)"] assms(1,3) by simp
  ultimately show ?thesis by simp
qed

lemma active_leave:
  assumes "finite (active s)" "pcs s t \<noteq> Idle"
  shows "int (card (active s - {t})) = int (card (active s)) - 1 \<and> 1 \<le> card (active s)"
  using card_Suc_Diff1 [OF assms(1), of t] assms(2) by (simp add: active_def)

lemma refused_le:
  assumes "refusals_below L s" shows "refused n s \<le> n * L"
proof -
  have "refused_len (pcs s t) \<le> L" for t using assms by (cases "pcs s t") (auto simp: refusals_below_def)
  then have "refused n s \<le> (\<Sum>t<n. L)" unfolding refused_def by (intro sum_mono) simp
  then show ?thesis by simp
qed

lemma accounted_busy:
  assumes step: "busy pid n s s'" and inv: "accounted pid n p m s" and n: "n < 4096"
    and below: "refusals_below L s'" and L: "BATCH_LIMIT + int (n * L) \<le> 65536"
  shows "accounted pid n p m s'"
proof -
  note i = accountedD [OF inv]
  have upd: "refused n (s\<lparr>pcs := (pcs s)(t := c)\<rparr>) + refused_len (pcs s t) = refused n s + refused_len c" if "t < n" for t c
    using sum_upd [OF that, of refused_len "pcs s" c] by (simp add: refused_def)
  have pcs: "refused n u = refused n v \<and> active u = active v" if "pcs u = pcs v" for u v :: shared
    using that by (simp add: refused_def active_def)
  show ?thesis
    using step
  proof cases
    case busy_calm
    then show ?thesis
    proof cases
      case (calm_reserve t r)
      have eq: "refused n s' = refused n s" "active s' = insert t (active s)"
        using upd [of t "Reserved (PIBR_IDX (wrd s)) r"] pcs [of s' "s\<lparr>pcs := (pcs s)(t := Reserved (PIBR_IDX (wrd s)) r)\<rparr>"]
          calm_reserve active_upd [of s t "Reserved (PIBR_IDX (wrd s)) r"] by (auto simp: reserve_def)
      have g: "granted_bytes s' = granted_bytes s + length r" using calm_reserve by (simp add: granted_bytes_def reserve_def)
      have c: "card (active s') = card (active s) + 1" "card (active s) + 1 \<le> n"
        using active_join [OF i(3)] calm_reserve eq(2) by simp_all
      have lt: "m + int (granted_bytes s) + int (refused n s) + int (length r) < BATCH_LIMIT"
        using calm_reserve pibr_is_fields(2) [OF i(5)] by (simp add: granted_def)
      have "pibr_is (wrd s + pack_word 0 0 (int (length r)) 1) pid
          (m + int (granted_bytes s) + int (refused n s) + int (length r)) p (int (card (active s)) + 1)"
        using lt c(2) n by (intro pibr_reserve [OF i(5)]) (simp_all add: BATCH_LIMIT_num)
      moreover have "m + int (granted_bytes s) + int (refused n s) + int (length r) =
          m + int (granted_bytes s') + int (refused n s')" "int (card (active s)) + 1 = int (card (active s'))"
        using g eq(1) c(1) by simp_all
      ultimately show ?thesis
        using i(1,3) lt g eq calm_reserve c(1) by (auto simp: accounted_def reserve_def)
    next
      case (calm_copy t i' r bs)
      then have "refused n s' = refused n s" "active s' = active s" "granted_bytes s' = granted_bytes s" "wrd s' = wrd s"
        using upd [of t "Written i' r"] pcs [of s' "s\<lparr>pcs := (pcs s)(t := Written i' r)\<rparr>"] active_upd [of s t "Written i' r"]
        by (auto simp: copy_def granted_bytes_def active_def)
      then show ?thesis using inv by (simp add: accounted_def)
    next
      case (calm_release t i' r)
      have eq: "refused n s' = refused n s" "active s' = active s - {t}" "granted_bytes s' = granted_bytes s" "wrd s' = wrd s - 1"
        using upd [of t Idle] pcs [of s' "s\<lparr>pcs := (pcs s)(t := Idle)\<rparr>"] calm_release active_upd [of s t Idle]
        by (auto simp: release_def granted_bytes_def)
      have c: "int (card (active s - {t})) = int (card (active s)) - 1" "1 \<le> card (active s)"
        using active_leave [OF i(4), of t] calm_release by simp_all
      have "pibr_is (wrd s - 1) pid (m + int (granted_bytes s) + int (refused n s)) p (int (card (active s)) - 1)"
        using c(2) by (intro pibr_unref [OF i(5)]) simp
      then show ?thesis using i eq c(1) by (auto simp: accounted_def)
    qed
  next
    case (busy_refuse t r)
    have eq: "refused n s' = refused n s + length r" "active s' = insert t (active s)" "granted_bytes s' = granted_bytes s"
      "wrd s' = wrd s + pack_word 0 0 (int (length r)) 1"
      using upd [of t "Refused r"] pcs [of s' "s\<lparr>pcs := (pcs s)(t := Refused r)\<rparr>"] busy_refuse active_upd [of s t "Refused r"]
      by (auto simp: refuse_def granted_bytes_def)
    have c: "card (active s') = card (active s) + 1" "card (active s) + 1 \<le> n"
      using active_join [OF i(3)] busy_refuse eq(2) by simp_all
    have "int (refused n s + length r) \<le> int (n * L)" using refused_le [OF below, of n] eq(1) by linarith
    then have lt: "m + int (granted_bytes s) + int (refused n s) + int (length r) < 65536" using i(2) L by linarith
    have "pibr_is (wrd s + pack_word 0 0 (int (length r)) 1) pid
        (m + int (granted_bytes s) + int (refused n s) + int (length r)) p (int (card (active s)) + 1)"
      using lt c(2) n by (intro pibr_reserve [OF i(5)]) simp_all
    moreover have "m + int (granted_bytes s) + int (refused n s) + int (length r) =
        m + int (granted_bytes s') + int (refused n s')" "int (card (active s)) + 1 = int (card (active s'))"
      using eq(1,3) c(1) by simp_all
    ultimately show ?thesis using i(1-3) eq busy_refuse by (auto simp: accounted_def)
  next
    case (busy_undo t r)
    have eq: "refused n s' + length r = refused n s" "active s' = active s - {t}" "granted_bytes s' = granted_bytes s"
      "wrd s' = wrd s - pack_word 0 0 (int (length r)) 1"
      using upd [of t Idle] pcs [of s' "s\<lparr>pcs := (pcs s)(t := Idle)\<rparr>"] busy_undo active_upd [of s t Idle]
      by (auto simp: undo_def granted_bytes_def)
    have c: "int (card (active s - {t})) = int (card (active s)) - 1" "1 \<le> card (active s)"
      using active_leave [OF i(4), of t] busy_undo by simp_all
    have "pibr_is (wrd s - pack_word 0 0 (int (length r)) 1) pid
        (m + int (granted_bytes s) + int (refused n s) - int (length r)) p (int (card (active s)) - 1)"
      using c(2) eq(1) i(1) by (intro pibr_release [OF i(5)]) simp_all
    moreover have "m + int (granted_bytes s) + int (refused n s) - int (length r) =
        m + int (granted_bytes s') + int (refused n s')" using eq(1,3) by simp
    ultimately show ?thesis using i eq c(1) by (auto simp: accounted_def)
  qed
qed

lemma accounted_late:
  assumes "(late L pid n)\<^sup>*\<^sup>* s s'" and "accounted pid n p m s" and "n < 4096" "BATCH_LIMIT + int (n * L) \<le> 65536"
  shows "accounted pid n p m s'"
  using assms by (induction rule: rtranclp_induct) (auto simp: late_def intro: accounted_busy)

lemma accounted_start: "pibr_is w pid m p 0 \<Longrightarrow> m < BATCH_LIMIT \<Longrightarrow> accounted pid n p m (buffer_at w bs)"
  by (simp add: accounted_def buffer_at_def granted_bytes_def refused_def active_def pibr_is_def)

text \<open>
  A flusher that read the index while refused reservations were in it waits for a word with that
  index and no references.  When the word comes, all threads have left and the refused bytes have
  been made up for by bytes granted after the reading.
\<close>

lemma awaited_word:
  assumes inv: "accounted pid n p m s" and run: "(late L pid n)\<^sup>*\<^sup>* s s'" and n: "n < 4096" "BATCH_LIMIT + int (n * L) \<le> 65536"
    and pid: "0 \<le> pid" "pid \<le> PID_MAX" and eq: "wrd s' = pack_word p pid (PIBR_IDX (wrd s)) 0"
  shows "active s' = {}" and "granted_bytes s' = granted_bytes s + refused n s"
proof -
  note i = accountedD [OF inv] and j = accountedD [OF accounted_late [OF run inv n]]
  have "pibr_is (wrd s') pid (m + int (granted_bytes s) + int (refused n s)) p 0"
    unfolding eq pibr_is_fields(2) [OF i(5)] using i(5) pid by (intro pack_word_is) (auto simp: pibr_is_def PID_MAX_def)
  then have k: "m + int (granted_bytes s') + int (refused n s') = m + int (granted_bytes s) + int (refused n s)"
    "int (card (active s')) = 0"
    using pack_word_inject [OF j(5)] by blast+
  show a: "active s' = {}" using k(2) j(4) by simp
  then have "refused n s' = 0" by (simp add: refused_def active_def)
  then show "granted_bytes s' = granted_bytes s + refused n s" using k(1) by simp
qed

end
