(* ===== verification/Sample.thy ===== *)
theory Sample
  imports System Session Blog Protocol
begin

unbundle bit_operations_syntax

text \<open>
  A small concrete operating system and process states over it.  The theorems of the
  development hold for every \<open>os\<close>; this one shows that what they assume can be met,
  and is what their witnesses are evaluated on.  It has eight pages of memory, one
  regular file and a settable clock.
\<close>

section \<open>The system\<close>

record sample_world =
  w_pid :: int
  w_pages :: "addr list"
  w_names :: nat
  w_secs :: int
  w_errno :: int
  w_pos :: int
  w_ppid :: int

definition sample_pages :: "addr list" where
  "sample_pages = [0x1000, 0x2000, 0x3000, 0x4000, 0x5000, 0x6000, 0x7000, 0x8000]"

definition blank_page :: pibr_t where
  "blank_page = \<lparr>pibr = 0, buf = replicate PIBR_BUF_SIZE NUL\<rparr>"

definition sample_memalign :: "sample_world \<Rightarrow> (addr \<times> pibr_t) \<times> sample_world" where
  "sample_memalign w = (case find (\<lambda>p. p \<notin> set (w_pages w)) sample_pages of
     None \<Rightarrow> ((0, blank_page), w)
   | Some p \<Rightarrow> ((p, blank_page), w\<lparr>w_pages := p # w_pages w\<rparr>))"

text \<open>Process numbers are those of a kernel with the usual limit.\<close>

definition sample_pid :: "sample_world \<Rightarrow> int" where
  "sample_pid w = 1 + (w_pid w - 1) mod 32767"

lemma sample_pid_eq [simp]: "0 < w_pid w \<Longrightarrow> w_pid w \<le> 32767 \<Longrightarrow> sample_pid w = w_pid w"
  by (simp add: sample_pid_def)

lemma sample_pid_frame [simp]:
  "sample_pid (w\<lparr>w_pages := ps\<rparr>) = sample_pid w" "sample_pid (w\<lparr>w_pos := i\<rparr>) = sample_pid w"
  "sample_pid (w\<lparr>w_names := n\<rparr>) = sample_pid w" "sample_pid (w\<lparr>w_secs := i\<rparr>) = sample_pid w"
  "sample_pid (w\<lparr>w_errno := i\<rparr>) = sample_pid w"
  by (simp_all add: sample_pid_def)

definition sample_os :: "sample_world os" where
  "sample_os = \<lparr>
     dlsym = (\<lambda>_. 1), errno = w_errno, set_errno = (\<lambda>e w. w\<lparr>w_errno := e\<rparr>),
     sys_getpid = sample_pid, sys_gettid = (\<lambda>w. w_pid w mod 10000000), sys_getppid = w_ppid, sys_getuid = (\<lambda>_. 0),
     sys_gettimeofday = (\<lambda>w. ((w_secs w mod 2147483648, 250), w)), sys_clock = (\<lambda>w. (w_secs w, w)),
     sys_malloc = (\<lambda>n w. (0x100000 + 4096 * of_nat (w_names w), w\<lparr>w_names := w_names w + 1\<rparr>)),
     sys_memalign = (\<lambda>_ _. sample_memalign),
     sys_free = (\<lambda>p w. w\<lparr>w_pages := removeAll p (w_pages w)\<rparr>),
     sys_log = (\<lambda>_ w. (1, w)),
     sys_openat = (\<lambda>_ _ _ _ _ w. (3, w)), sys_close = (\<lambda>_ _ w. (0, w)),
     sys_read = (\<lambda>_ _ n w. ((3, take n ''app''), w)), sys_write = (\<lambda>_ _ bs w. (int (length bs), w)),
     sys_pread64 = (\<lambda>_ _ n _ w. ((3, take n ''app''), w)),
     sys_pwrite64 = (\<lambda>_ _ bs _ w. (int (length bs), w)),
     sys_fread = (\<lambda>_ _ n _ w. ((int n, []), w)), sys_fwrite = (\<lambda>_ _ _ n _ w. (int n, w)),
     sys_fopen = (\<lambda>_ _ _ w. (1, w)), sys_fclose = (\<lambda>_ _ w. (0, w)),
     sys_fileno = (\<lambda>_ _. 3), sys_ferror = (\<lambda>_ _. False),
     sys_lseek64 = (\<lambda>_ w. (w_pos w, w)), sys_readlink = (\<lambda>_ w. (Some ''/data/f'', w)),
     sys_access = (\<lambda>_ w. (- 1, w\<lparr>w_errno := ENOENT\<rparr>)), sys_faccessat = (\<lambda>_ _ w. (- 1, w\<lparr>w_errno := ENOENT\<rparr>)),
     sys_fstat = (\<lambda>_ w. ((0, S_IFREG), w)), sys_lstat = (\<lambda>_ w. ((0, S_IFREG), w)),
     sys_renameat = (\<lambda>_ _ _ _ _ w. (0, w)), sys_unlinkat = (\<lambda>_ _ _ _ w. (0, w)),
     sys_mmap64 = (\<lambda>_ _ _ _ _ _ _ w. (0x200000, w)),
     sys_pthread_join = (\<lambda>_ w. w), sys_exit = (\<lambda>_ w. w), sys_pthread_exit = (\<lambda>_ _ w. w),
     sys_sleep = (\<lambda>n w. w\<lparr>w_secs := w_secs w + int n\<rparr>), sys_atexit = (\<lambda>w. (0, w)),
     sys_sigaction_get = (\<lambda>_ w. ((0, 0), w)), sys_sigaction_set = (\<lambda>_ _ w. (0, w)),
     sys_run_handler = (\<lambda>_ _ w. w), sys_timer_create = (\<lambda>_ w. ((0, 1), w)),
     sys_timer_settime = (\<lambda>_ _ _ w. (0, w)), sys_timer_delete = (\<lambda>_ w. (0, w)),
     sys_execve = (\<lambda>_ _ _ _ w. (- 1, w)), sys_execvpe = (\<lambda>_ _ _ _ w. (- 1, w)), sys_pthread_create = (\<lambda>_ _ _ w. ((0, 77), w)),
     sys_clone = (\<lambda>_ _ _ _ _ _ _ _ w. (78, w))\<rparr>"

definition sample_live :: "sample_world \<Rightarrow> addr set" where
  "sample_live w = set (w_pages w)"

lemma sample_page_ok: "p \<in> set sample_pages \<Longrightarrow> p \<noteq> 0 \<and> 4096 dvd uint p"
  by (auto simp: sample_pages_def)

lemma find_in: "find P xs = Some x \<Longrightarrow> x \<in> set xs \<and> P x"
  by (induction xs) (auto split: if_splits)

lemma sample_libc_ok: "libc_ok sample_os sample_live"
proof -
  have "case sample_memalign w of ((q, g), w') \<Rightarrow> sample_pid w' = sample_pid w \<and>
      (if q = 0 then sample_live w' = sample_live w
       else 4096 dvd uint q \<and> length (buf g) = PIBR_BUF_SIZE \<and> q \<notin> sample_live w \<and>
            sample_live w' = insert q (sample_live w))" for w
    by (auto simp: sample_memalign_def sample_live_def blank_page_def split: option.splits
        dest!: find_in sample_page_ok)
  then show ?thesis
    by (auto simp: libc_ok_def sample_os_def sample_live_def)
qed

lemma sample_roomy: "roomy sample_os sample_live 7"
proof -
  have d: "distinct sample_pages" "length sample_pages = 8" by (simp_all add: sample_pages_def)
  have "fst (fst (sample_memalign w)) \<noteq> 0" if f: "card (sample_live w) \<le> 7" for w
  proof -
    have "\<not> set sample_pages \<subseteq> set (w_pages w)"
    proof
      assume "set sample_pages \<subseteq> set (w_pages w)"
      then have "card (set sample_pages) \<le> card (set (w_pages w))" by (intro card_mono) auto
      with f d show False by (simp add: distinct_card sample_live_def)
    qed
    then have "find (\<lambda>p. p \<notin> set (w_pages w)) sample_pages \<noteq> None"
      by (auto simp: find_None_iff)
    then obtain p where p: "find (\<lambda>p. p \<notin> set (w_pages w)) sample_pages = Some p" by blast
    then show ?thesis
      using find_in [OF p] sample_page_ok by (simp add: sample_memalign_def)
  qed
  then show ?thesis by (auto simp: roomy_def sample_os_def)
qed

section \<open>A process that is logging\<close>

definition sample_world0 :: sample_world where
  "sample_world0 = \<lparr>w_pid = 7, w_pages = [0x1000], w_names = 1, w_secs = 100, w_errno = 0,
     w_pos = 4096, w_ppid = 1\<rparr>"

definition sample_prefix :: string where
  "sample_prefix = prefix_text 7 ''app''"

text \<open>The text \<open>t\<close> is pending in the current buffer; the process is called \<open>app\<close>.\<close>

definition sample_state :: "string \<Rightarrow> sample_world proc" where
  "sample_state t = (proc0 sample_world0)
     \<lparr>fptr := (\<lambda>_. 1), strs := [0x100000 \<mapsto> ''app''], procname_pid := pack_name 0x100000 7,
      bufs := [0x1000 \<mapsto> \<lparr>pibr = pack_word 0x1000 7 (int (length (sample_prefix @ t))) 0,
         buf = (sample_prefix @ t) @ replicate (PIBR_BUF_SIZE - length (sample_prefix @ t)) NUL\<rparr>],
      prefix := sample_prefix, prefix_len := int (length sample_prefix), procid := 7,
      proc_pibr := 0x1000, notify_v := 1\<rparr>"

lemma sample_prefix_text: "sample_prefix = ''{\"PID\":7,\"PROC\":\"app\",\"BATCH\":{''"
  by code_simp

lemma sample_prefix_facts: "length sample_prefix = 31" "NUL \<notin> set sample_prefix"
  by (simp_all add: sample_prefix_text NUL_def)

lemma sample_sel [simp]:
  "prefix (sample_state t) = sample_prefix" "procid (sample_state t) = 7" "cntr_v (sample_state t) = 0"
  "logs (sample_state t) = []" "proc_pibr (sample_state t) = 0x1000" "world (sample_state t) = sample_world0"
  "notify_v (sample_state t) = 1" "last_flush_secs (sample_state t) = 0" "chans (sample_state t) c = chan0"
  "flusher_info (flusher_v (sample_state t)) = 0" "fptr (sample_state t) v = 1"
  by (simp_all add: sample_state_def proc0_def)

lemma sample_batching:
  assumes "NUL \<notin> set t" "length t < 4000"
  shows "batching (sample_state t) t"
proof -
  have "pibr_is (pack_word 0x1000 7 (int (length (sample_prefix @ t))) 0) 7
      (int (length (sample_prefix @ t))) 0x1000 0"
    using assms by (intro pack_word_is) (auto simp: sample_prefix_facts)
  then show ?thesis
    using assms sample_prefix_facts
    by (simp add: batching_def prefix_ok_def holds_def sample_state_def BATCH_LIMIT_num size_defs PID_MAX_def
        proc0_def)
qed

lemma sample_ready:
  assumes "NUL \<notin> set t" "length t < 4000"
  shows "ready sample_os sample_live 7 (sample_state t) t"
  using sample_batching [OF assms]
  by (simp add: ready_def sample_os_def sample_live_def sample_world0_def) (simp add: sample_state_def)

lemma sample_named: "name_cached sample_os (sample_state t) ''app''"
  by (simp add: name_cached_def sample_state_def sample_os_def sample_world0_def name_pid_pack proc0_def)

lemma sample_resolved: "resolved sample_os (sample_state t) v a b = 1"
  by (simp add: resolved_def)

text \<open>Messages short enough for the sample process.\<close>

lemma sample_good: "NUL \<notin> set m \<Longrightarrow> length m < 3900 \<Longrightarrow> good_msg sample_prefix m"
  by (simp add: good_msg_def sample_prefix_facts BATCH_LIMIT_num)

text \<open>A change of what the logger does not own leaves it ready.\<close>

lemma ready_frame:
  assumes "ready os live k s t" "world s' = world s" "bufs s' = bufs s" "prefix s' = prefix s"
    "prefix_len s' = prefix_len s" "procid s' = procid s" "proc_pibr s' = proc_pibr s"
  shows "ready os live k s' t"
  using assms batching_frame [of s' s] by (simp add: ready_def)

text \<open>Its clock, and the file open as descriptor 3.\<close>

lemma sample_clock_ok: "clock_ok sample_os sample_live"
  by (simp add: clock_ok_def sample_os_def sample_live_def)

lemma sample_not_skipped: "\<not> skip_path ''/data/f''"
  by code_simp

text \<open>Its positional calls and \<open>close\<close>.\<close>

lemma sample_opened: "opened sample_os s 3 ''/data/f'' (world s)"
  using sample_not_skipped
  by (simp add: opened_def sample_os_def size_defs S_IFREG_def S_IFMT_def)

lemma sample_close_ok: "close_ok sample_os sample_live"
  by (simp add: close_ok_def sample_os_def)

lemma sample_resting:
  "ready sample_os sample_live 7 (sample_state []) []" "dlsym sample_os x \<noteq> 0"
  "notify_v (sample_state []) \<noteq> 0" "last_fd (chans (sample_state []) c) = - 1"
  "\<forall>d. last_fd (chans (sample_state []) d) \<noteq> 3"
  by (simp_all add: sample_ready chan0_def) (simp add: sample_os_def)

lemma sample_pwrite: "sys_pwrite64 sample_os f fd bs off w = (int (length bs), w)"
  by (simp add: sample_os_def)

lemma sample_serves:
  assumes "0 \<le> off" "off < 2 ^ 62" "length bs < 2 ^ 31"
  shows "serves sample_os sample_live 3 ''/data/f'' (\<lambda>f. sys_pwrite64 sample_os f 3 bs off) (pos_access (\<lambda>n. n) off)
    (\<lambda>s fd p _. opened sample_os s fd p)"
  using assms sample_opened
  by (auto simp: serves_def sample_pwrite pos_access_def access_ok_def untouched_def NUL_def)

text \<open>The same system with a file position: a read of fewer than \<open>2 ^ 20\<close> bytes in the first GB moves it.\<close>

definition sample_reader :: "sample_world os" where
  "sample_reader = sample_os\<lparr>sys_read := (\<lambda>_ _ n w.
     if 0 \<le> w_pos w \<and> w_pos w < 2 ^ 30 \<and> 0 < n \<and> n < 2 ^ 20
     then ((int n, replicate n CHR ''x''), w\<lparr>w_pos := w_pos w + int n\<rparr>) else ((- 1, []), w))\<rparr>"

lemma sample_reader_ok:
  "libc_ok sample_reader sample_live" "roomy sample_reader sample_live 7" "clock_ok sample_reader sample_live"
  "close_ok sample_reader sample_live" "ready sample_reader sample_live 7 (sample_state []) []"
  "dlsym sample_reader x \<noteq> 0"
  using sample_libc_ok sample_roomy sample_clock_ok sample_close_ok sample_resting(1)
  by (simp_all add: sample_reader_def libc_ok_def roomy_def clock_ok_def close_ok_def ready_def)
    (simp add: sample_os_def)

lemma sample_reader_located:
  "located sample_reader s 3 n ''/data/f'' off w = (off = s64 (w_pos (world s) - n) \<and> w = world s)"
  using sample_not_skipped
  by (simp add: located_def sample_reader_def sample_os_def size_defs S_IFREG_def S_IFMT_def)

lemma sample_reader_access:
  "seek_access sample_reader fst 3 r w = (if 0 < fst r then Some ((fst r, s64 (w_pos w - fst r)), w) else None)"
  by (simp add: seek_access_def sample_reader_def sample_os_def)

lemma sample_reader_serves:
  "serves sample_reader sample_live 3 ''/data/f'' (\<lambda>f. sys_read sample_reader f 3 n) (seek_access sample_reader fst 3)
    (at_position sample_reader)"
proof -
  have "sys_getpid sample_reader = sample_pid" by (simp add: sample_reader_def sample_os_def)
  moreover have "s64 x = x" if "0 \<le> x" "x < 2 ^ 30" for x
    using that by (simp add: s64_def)
  ultimately show ?thesis
    by (auto simp: serves_def sample_reader_access sample_reader_located untouched_def sample_live_def access_ok_def NUL_def)
      (simp_all add: sample_reader_def split: if_splits)
qed

text \<open>Its first read of three bytes.\<close>

lemma sample_reader_first:
  "read_io sample_reader 3 3 (sample_state []) = Some (Inr ((3, ''xxx''), set_chan Rd
     (with_batch 3 (single (3, 4096)) (chan0\<lparr>path := ''/data/f''\<rparr>))
     ((sample_state [])\<lparr>world := sample_world0\<lparr>w_pos := 4099\<rparr>\<rparr>)))"
proof -
  let ?s = "(sample_state [])\<lparr>world := sample_world0\<lparr>w_pos := 4099\<rparr>\<rparr>"
  have "(fptr (sample_state []))(v := 1) = fptr (sample_state [])" for v by (rule ext) simp
  moreover have r: "sys_read sample_reader f 3 3 sample_world0 = ((3, ''xxx''), sample_world0\<lparr>w_pos := 4099\<rparr>)" for f
    by (simp add: sample_reader_def sample_world0_def numeral_3_eq_3)
  ultimately have "read_call.after_call sample_reader (3, 3) (sample_state []) = ?s"
    by (simp add: read_call.after_call_def resolved_def)
  moreover have "located sample_reader ?s 3 3 ''/data/f'' 4096 (world ?s)"
    by (simp add: sample_reader_located s64_def)
  from trace_seek_fresh [OF this, of Rd "''read''" False] have "trace_seek sample_reader Rd ''read'' False 3 3 ?s =
      Some (Inr ((), set_chan Rd (with_batch 3 (single (3, 4096)) (chan0\<lparr>path := ''/data/f''\<rparr>)) ?s))"
    by (simp add: access_ok_def) (simp add: chan0_def)
  ultimately show ?thesis
    using read_call.io_run [of sample_reader "sample_state []" "(3, 3)"]
    by (simp add: resolved_def report_seek_def andthen_def r bnd_def gets_def ret_def)
qed

text \<open>The process with a batch of two accesses to that file in the channel of \<open>pread64\<close>.\<close>

definition sample_accesses :: "(int \<times> int) list" where
  "sample_accesses = [(100, 0), (50, 100)]"

definition sample_busy :: "string \<Rightarrow> sample_world proc" where
  "sample_busy t = set_chan Prd (with_batch 3 (0, 1, sample_accesses) (chan0\<lparr>path := ''/data/f''\<rparr>)) (sample_state t)"

lemma sample_iostr: "io_string sample_accesses = ''100@0;50@100;''"
  by code_simp

lemma sample_busy_sel [simp]:
  "chans (sample_busy t) = (\<lambda>_. chan0)(Prd := with_batch 3 (0, 1, sample_accesses) (chan0\<lparr>path := ''/data/f''\<rparr>))"
  "prefix (sample_busy t) = sample_prefix" "logs (sample_busy t) = []" "world (sample_busy t) = sample_world0"
  by (simp_all add: sample_busy_def set_chan_def fun_eq_iff)

lemma sample_busy_ready: "ready sample_os sample_live 7 (sample_busy []) []"
  using sample_ready [of "[]"] by (simp add: sample_busy_def set_chan_def)

lemma sample_busy_chan: "chan_is (chans (sample_busy t) Prd) 3 (0, 1, sample_accesses)"
  by (simp, rule chan_is_with_batch)
    (simp_all add: batch_ok_def sample_iostr size_defs, simp add: sample_accesses_def)

lemma sample_busy_small: "forgotten fd (last_fd (chans (sample_busy t) c)) \<or> chan_small sample_prefix (chans (sample_busy t) c)"
  by (cases "c = Prd")
    (simp_all add: chan_small_def with_batch_def sample_iostr sample_prefix_facts BATCH_LIMIT_num NUL_def chan0_def
      forgotten_def)

text \<open>The process with an access string that is full: 1010 reads of the first byte.\<close>

definition sample_many :: "(int \<times> int) list" where
  "sample_many = replicate 1010 (1, 0)"

lemma sample_many_length: "length (io_string sample_many) = 4040"
proof -
  have "io_entry 1 0 = ''1@0;''" by code_simp
  then have "length (io_string (replicate n (1, 0))) = 4 * n" for n
    by (induction n) (simp_all add: io_string_def)
  from this [of 1010] show ?thesis unfolding sample_many_def by linarith
qed

definition sample_crowded :: "sample_world proc" where
  "sample_crowded = set_chan Prd (with_batch 3 (0, 0, sample_many) (chan0\<lparr>path := ''/data/f''\<rparr>)) (sample_state [])"

lemma sample_crowded_ready: "ready sample_os sample_live 7 sample_crowded []"
  using sample_ready [of "[]"] by (simp add: sample_crowded_def set_chan_def)

lemma sample_crowded_chan: "chan_is (chans sample_crowded Prd) 3 (0, 0, sample_many)"
proof -
  have "sample_many \<noteq> []" by (simp add: sample_many_def)
  then show ?thesis
    unfolding sample_crowded_def chans_set_chan fun_upd_same
    by (intro chan_is_with_batch) (simp_all add: batch_ok_def sample_many_length size_defs)
qed

lemma sample_crowded_path: "path (chans sample_crowded Prd) = ''/data/f''"
  by (simp add: sample_crowded_def with_batch_def)

text \<open>A child of the process just after the fork, with the parent's buffer.\<close>

definition sample_child :: "sample_world proc" where
  "sample_child = (sample_state ''old,'')\<lparr>world := sample_world0\<lparr>w_pid := 8\<rparr>, procname_pid := pack_name 0x100000 8\<rparr>"

text \<open>A process that does not know its name yet.\<close>

definition sample_nameless :: "sample_world proc" where
  "sample_nameless = (sample_state [])\<lparr>procname_pid := 0\<rparr>"

text \<open>A process that finds all pages taken.\<close>

definition sample_full :: "sample_world proc" where
  "sample_full = (sample_state [])\<lparr>world := sample_world0\<lparr>w_pages := sample_pages\<rparr>\<rparr>"

lemma sample_full_memalign:
  "fst (fst (sys_memalign sample_os 4096 LOGGER_ENTRY_MAX_PAYLOAD (world sample_full))) = 0"
  "proc_pibr sample_full = 0x1000"
proof -
  have "find (\<lambda>p. p \<notin> set sample_pages) sample_pages = None" by (simp add: find_None_iff)
  then show "fst (fst (sys_memalign sample_os 4096 LOGGER_ENTRY_MAX_PAYLOAD (world sample_full))) = 0"
    by (simp add: sample_os_def sample_memalign_def sample_full_def)
  show "proc_pibr sample_full = 0x1000" by (simp add: sample_full_def)
qed

lemma sample_full_swap:
  "\<exists>x s'. swap_and_flush_buffer sample_os 0x1000 7 sample_full = Some (Inr (x, s'))"
proof -
  let ?ev = "LogEv ANDROID_LOG_ERROR ''Storage-IOERR-UIUC'' ''Failed to alloc pibr''"
  have m: "sys_memalign sample_os 4096 LOGGER_ENTRY_MAX_PAYLOAD (world sample_full) = ((0, blank_page), world sample_full)"
  proof -
    have "find (\<lambda>p. p \<notin> set sample_pages) sample_pages = None" by (simp add: find_None_iff)
    then show ?thesis by (simp add: sample_os_def sample_memalign_def sample_full_def)
  qed
  have nm: "name_cached sample_os sample_full ''app''"
    using sample_named [of "[]"] by (simp add: name_cached_def sample_full_def sample_os_def)
  have e: "err sample_os ''Failed to alloc pibr'' sample_full = Some (Inr ((), sample_full\<lparr>logs := [?ev]\<rparr>))"
    unfolding err_cached [OF nm] by (simp add: sample_full_def sample_os_def)
  let ?s = "sample_full\<lparr>logs := [?ev], proc_pibr := 0\<rparr>"
  have same: "sample_full\<lparr>world := world sample_full\<rparr> = sample_full"
    "sample_full\<lparr>proc_pibr := 0x1000\<rparr> = sample_full"
    by (simp_all add: sample_full_def sample_state_def)
  have sw: "swap_buffers sample_os 0x1000 7 sample_full = Some (Inr (True, ?s))"
    by (simp add: swap_buffers_def cas_proc_pibr_def bnd_def gets_def andthen_def modify_def ret_def
        sample_full_memalign same alloc_buffer_def sysc_def m e)
  have bt: "batching (sample_state []) []" by (rule sample_batching) simp_all
  have h: "holds ?s 0x1000 (prefix ?s)"
    using bt holds_frame [of ?s "0x1000" "sample_state []"]
    by (simp add: batching_def sample_full_def)
  have "prefix_ok ?s" using bt by (simp add: batching_def prefix_ok_def sample_full_def)
  then have "flush_buffer sample_os 0x1000 ?s = Some (Inr ((), ?s))" by (rule flush_buffer_empty [OF h])
  moreover have "(0x1000 :: addr) AND NOT 0xfff = 0x1000" by simp
  ultimately show ?thesis using sw by (simp add: swap_and_flush_buffer_def bnd_def)
qed

section \<open>A process with threads\<close>

text \<open>The same system with the answers of the data calls kept within the kernel's bounds.\<close>

definition sample_kernel :: "sample_world os" where
  "sample_kernel = sample_os\<lparr>sys_write := (\<lambda>_ _ bs w. (int (min (length bs) 4096), w)),
     sys_pread64 := (\<lambda>_ _ n off w. (if off < 2 ^ 62 then (3, take n ''app'') else (- 1, []), w)),
     sys_pwrite64 := (\<lambda>_ _ bs off w. (if off < 2 ^ 62 then int (min (length bs) 4096) else - 1, w)),
     sys_lseek64 := (\<lambda>_ w. (w_pos w mod 2 ^ 62, w))\<rparr>"

lemma sample_kernel_ok: "kernel_ok sample_kernel"
proof -
  have "0 \<le> x mod 4611686018427387904" "x mod 4611686018427387904 < (4611686018427387904 :: int)" for x :: int
    by simp_all
  then show "kernel_ok sample_kernel"
    by (auto simp: kernel_ok_def seek_ok_def sample_kernel_def sample_os_def)
qed

lemma sample_machine_ok: "machine_ok sample_os"
proof -
  have "0 < sample_pid w \<and> sample_pid w < 2 ^ 31" for w
    using pos_mod_bound [of 32767 "w_pid w - 1"] by (simp add: sample_pid_def add_strict_increasing)
  moreover have "length (cstr (take n ''app'')) \<le> name_limit" for n
    using length_cstr_take [of n "''app''"] by (simp add: cstr_def NUL_def name_limit_def)
  moreover have "alloc_ok sample_os"
    by (auto simp: alloc_ok_def sample_os_def sample_memalign_def blank_page_def split: option.splits)
  ultimately show ?thesis by (simp add: machine_ok_def identity_ok_def) (simp add: sample_os_def)
qed

text \<open>Every thread is at rest; the text \<open>t\<close> is pending in the shared buffer.\<close>

definition sample_process :: "string \<Rightarrow> sample_world process" where
  "sample_process t = (boot sample_world0)\<lparr>shared := sample_state t\<rparr>"

lemma sample_process_start:
  "at_rest (sample_process t)" "length t < 4000 \<Longrightarrow> process_ok (sample_process t)"
proof -
  show "at_rest (sample_process t)" using boot_start(1) [of sample_world0] by (simp add: sample_process_def at_rest_def)
  assume t: "length t < 4000"
  let ?b = "\<lparr>pibr = pack_word 0x1000 7 (int (length (sample_prefix @ t))) 0,
    buf = (sample_prefix @ t) @ replicate (PIBR_BUF_SIZE - length (sample_prefix @ t)) NUL\<rparr>"
  have "pibr_is (pibr ?b) 7 (int (length (sample_prefix @ t))) 0x1000 0"
    using t by (simp, intro pack_word_is) (auto simp: sample_prefix_facts)
  then have "buffer_ok 0x1000 ?b"
    using t unfolding buffer_ok_def word_ok_def
    by (intro conjI disjI2 exI [of _ 7] exI [of _ "int (length (sample_prefix @ t))"])
      (simp_all add: PID_MAX_def sample_prefix_facts BATCH_LIMIT_num size_defs)
  then have "buffers_ok (bufs (sample_state t))" by (simp add: sample_state_def buffers_ok_def)
  moreover have "short_names (strs (sample_state t))"
    by (simp add: sample_state_def short_names_def name_limit_def)
  moreover have "prefix_sane (sample_state t)"
    using sample_prefix_facts by (auto simp: sample_state_def prefix_sane_def size_defs)
  ultimately show "process_ok (sample_process t)"
    by (simp add: sample_process_def boot_def process_ok_parts mem_ok_def strings_ok_def chan0_def)
qed

text \<open>A read by a thread that has no batch yet starts one.\<close>

lemma sample_read:
  assumes "notify_v s = 1" "fptr s = (\<lambda>_. 1)" "world s = sample_world0" "last_fd (chans s Rd) = - 1"
  shows "read_io sample_kernel 3 10 s = Some (Inr ((3, ''app''),
    set_chan Rd (with_batch 3 (single (3, 4093)) ((chans s Rd)\<lparr>path := ''/data/f''\<rparr>)) s))"
proof -
  have eq: "s\<lparr>world := sample_world0\<rparr> = s" "s\<lparr>fptr := (\<lambda>_. Suc 0)(Read_read := Suc 0), world := sample_world0\<rparr> = s"
    using assms by (simp_all add: fun_upd_idem)
  have lo: "located sample_kernel s 3 3 ''/data/f'' 4093 sample_world0"
    using sample_not_skipped assms(3)
    by (simp add: located_def sample_kernel_def sample_os_def sample_world0_def size_defs S_IFREG_def S_IFMT_def s64_def)
  have "trace_seek sample_kernel Rd ''read'' False 3 3 s = Some (Inr ((), set_chan Rd
      (with_batch 3 (single (3, 4093)) ((chans s Rd)\<lparr>path := ''/data/f''\<rparr>)) s))"
    using trace_seek_fresh [OF lo _ assms(4)] by (simp add: access_ok_def eq)
  moreover have r: "sys_read sample_kernel f 3 10 w = ((3, ''app''), w)" for f w
    by (simp add: sample_kernel_def sample_os_def)
  then have "read_call.after_call sample_kernel (3, 10) s = s"
    by (simp add: read_call.after_call_def resolved_def assms(2,3) eq)
  ultimately show ?thesis
    using read_call.io_run [of sample_kernel s "(3, 10)"] assms
    by (simp add: resolved_def report_seek_def andthen_def r bnd_def gets_def ret_def)
qed

text \<open>Two threads read the same file.\<close>

definition sample_batched :: chan where
  "sample_batched = with_batch 3 (single (3, 4093)) (chan0\<lparr>path := ''/data/f''\<rparr>)"

lemma sample_step:
  assumes "shared P = s" "fptr s = (\<lambda>_. 1)" "notify_v s = 1" "world s = sample_world0" "t_chans (threads P i) = (\<lambda>_. chan0)"
  shows "run_api sample_kernel (Do_read 3 10) (switch_in i P) = Some (Inr ((),
    set_chan Rd sample_batched (switch_in i P)))"
proof -
  have "chans (switch_in i P) = (\<lambda>_. chan0)" using assms(5) by (simp add: switch_in_def)
  then have "read_io sample_kernel 3 10 (switch_in i P) = Some (Inr ((3, ''app''), set_chan Rd sample_batched (switch_in i P)))"
    using sample_read [of "switch_in i P"] assms(1-4) by (simp add: switch_in_def chan0_def sample_batched_def)
  then show ?thesis by (simp add: andthen_def bnd_def ret_def)
qed

lemma sample_two_readers:
  "\<exists>P'. runs sample_kernel (sample_process []) [(0, Do_read 3 10), (2, Do_read 3 10)] P' \<and>
    last_fd (t_chans (threads P' 0) Rd) = 3 \<and> last_fd (t_chans (threads P' 2) Rd) = 3"
proof -
  let ?s = "\<lambda>i P. set_chan Rd sample_batched (switch_in i P)" and ?P = "sample_process []"
  let ?P1 = "switch_out 0 (?s 0 ?P) ?P"
  let ?P2 = "switch_out 2 (?s 2 ?P1) ?P1"
  have f: "fptr (shared ?P) = (\<lambda>_. 1)" "notify_v (shared ?P) = 1" "world (shared ?P) = sample_world0"
    by (simp_all add: sample_process_def) (rule ext, simp)
  have r: "t_chans (threads ?P i) = (\<lambda>_. chan0)" for i by (simp add: sample_process_def boot_def)
  have 1: "run_api sample_kernel (Do_read 3 10) (switch_in 0 ?P) = Some (Inr ((), ?s 0 ?P))"
    by (rule sample_step [OF refl f r])
  have 2: "run_api sample_kernel (Do_read 3 10) (switch_in 2 ?P1) = Some (Inr ((), ?s 2 ?P1))"
    using f r by (intro sample_step [OF refl]) (simp_all add: switch_in_def switch_out_def set_chan_def)
  have "runs sample_kernel ?P [(0, Do_read 3 10), (2, Do_read 3 10)] ?P2"
    by (rule runs.step [OF 1], rule runs.step [OF 2], rule runs.stop)
  moreover have "last_fd (t_chans (threads ?P2 0) Rd) = 3" "last_fd (t_chans (threads ?P2 2) Rd) = 3"
    by (simp_all add: switch_out_def switch_in_def sample_batched_def with_batch_def single_def)
  ultimately show ?thesis by blast
qed

text \<open>A terminating signal is delivered to a thread while text is pending.\<close>

lemma sample_signalled:
  "\<exists>P'. runs sample_os (sample_process ''rec,'') [(0, Do_signal SIGTERM)] P' \<and>
    logs (shared P') = [LogEv ANDROID_LOG_ERROR ''Storage-IOERR-UIUC'' ''Signal'', batch_ev sample_prefix ''rec,'']"
proof -
  have same: "switch_in 0 (sample_process ''rec,'') = sample_state ''rec,''"
    by (simp add: switch_in_def sample_process_def boot_def sample_state_def proc0_def)
  have rd: "ready sample_os sample_live 7 (sample_state ''rec,'') ''rec,''" by (rule sample_ready) (simp_all add: NUL_def)
  have dfl: "old_handler SIGTERM (signal_v (sample_state ''rec,'')) = 0"
    by (simp add: signal_defs sample_state_def proc0_def)
  have sg: "SIGTERM \<in> terminal_signals" by (simp add: terminal_signals_def)
  obtain s' where "aggregate_handler sample_os SIGTERM (sample_state ''rec,'') = Some (Inr ((), s'))"
    "logs s' = [LogEv ANDROID_LOG_ERROR ''Storage-IOERR-UIUC'' ''Signal'', batch_ev sample_prefix ''rec,'']"
    using signal_flushes [OF sample_libc_ok sample_roomy rd _ sg dfl sample_named] by auto
  then show ?thesis
    by (intro exI [of _ "switch_out 0 s' (sample_process ''rec,'')"]) (simp add: same, simp add: switch_out_def)
qed

end
