(* ===== verification/Lists.thy ===== *)
theory Lists
  imports State
begin

unbundle bit_operations_syntax

text \<open>
  The doubly linked lists of \<open>list.h\<close>.  (The tracer and the utility headers carry the same
  text, \<open>tracer/include/list.h\<close> and \<open>include/utils/list.h\<close>, up to the include guard.)

  A \<open>struct list_head\<close> is a cell at an address; a list is a ring of cells through its head.
  The operations are sequences of loads and stores that fault on NULL and on addresses that
  hold no cell.  \<open>cyc\<close> is the abstraction: a list of addresses that the \<open>next\<close> and \<open>prev\<close>
  pointers connect in a ring, so that \<open>cyc s (head # xs)\<close> says that the list at \<open>head\<close> has
  the elements \<open>xs\<close>.  The state may have further fields, so clients use the operations on
  their own state.
\<close>

section \<open>Cells\<close>

record list_head =
  prev_p :: addr
  next_p :: addr

record lmem =
  cells :: "addr \<Rightarrow> list_head option"

definition LIST_POISON1 :: addr where "LIST_POISON1 = 0x00100100"
definition LIST_POISON2 :: addr where "LIST_POISON2 = 0x00200200"

definition node :: "addr \<Rightarrow> ('a lmem_scheme, list_head) exec" where
  "node p = bnd (gets (\<lambda>s. cells s p)) (\<lambda>c.
     if p = 0 then crash NullDeref else case c of None \<Rightarrow> crash WildDeref | Some c \<Rightarrow> ret c)"

definition get_next :: "addr \<Rightarrow> ('a lmem_scheme, addr) exec" where
  "get_next p = bnd (node p) (\<lambda>c. ret (next_p c))"

definition get_prev :: "addr \<Rightarrow> ('a lmem_scheme, addr) exec" where
  "get_prev p = bnd (node p) (\<lambda>c. ret (prev_p c))"

definition set_next :: "addr \<Rightarrow> addr \<Rightarrow> ('a lmem_scheme, unit) exec" where
  "set_next p q = bnd (node p) (\<lambda>c. modify (\<lambda>s. s\<lparr>cells := (cells s)(p \<mapsto> c\<lparr>next_p := q\<rparr>)\<rparr>))"

definition set_prev :: "addr \<Rightarrow> addr \<Rightarrow> ('a lmem_scheme, unit) exec" where
  "set_prev p q = bnd (node p) (\<lambda>c. modify (\<lambda>s. s\<lparr>cells := (cells s)(p \<mapsto> c\<lparr>prev_p := q\<rparr>)\<rparr>))"

section \<open>The operations\<close>

definition INIT_LIST_HEAD :: "addr \<Rightarrow> ('a lmem_scheme, unit) exec" where
  "INIT_LIST_HEAD l = andthen (set_next l l) (set_prev l l)"

definition do_list_add :: "addr \<Rightarrow> addr \<Rightarrow> addr \<Rightarrow> ('a lmem_scheme, unit) exec" where
  "do_list_add neew prv nxt =
     andthen (set_prev nxt neew) (
     andthen (set_next neew nxt) (
     andthen (set_prev neew prv)
             (set_next prv neew)))"

definition list_add :: "addr \<Rightarrow> addr \<Rightarrow> ('a lmem_scheme, unit) exec" where
  "list_add neew head = bnd (get_next head) (\<lambda>nxt. do_list_add neew head nxt)"

definition list_add_tail :: "addr \<Rightarrow> addr \<Rightarrow> ('a lmem_scheme, unit) exec" where
  "list_add_tail neew head = bnd (get_prev head) (\<lambda>prv. do_list_add neew prv head)"

definition do_list_del :: "addr \<Rightarrow> addr \<Rightarrow> ('a lmem_scheme, unit) exec" where
  "do_list_del prv nxt = andthen (set_prev nxt prv) (set_next prv nxt)"

definition do_list_del_entry :: "addr \<Rightarrow> ('a lmem_scheme, unit) exec" where
  "do_list_del_entry entry =
     bnd (get_prev entry) (\<lambda>prv. bnd (get_next entry) (\<lambda>nxt. do_list_del prv nxt))"

definition list_del :: "addr \<Rightarrow> ('a lmem_scheme, unit) exec" where
  "list_del entry =
     andthen (bnd (get_prev entry) (\<lambda>prv. bnd (get_next entry) (\<lambda>nxt. do_list_del prv nxt))) (
     andthen (set_next entry LIST_POISON1)
             (set_prev entry LIST_POISON2))"

definition list_replace :: "addr \<Rightarrow> addr \<Rightarrow> ('a lmem_scheme, unit) exec" where
  "list_replace old neew =
     andthen (bnd (get_next old) (set_next neew)) (
     andthen (bnd (get_next neew) (\<lambda>p. set_prev p neew)) (
     andthen (bnd (get_prev old) (set_prev neew))
             (bnd (get_prev neew) (\<lambda>p. set_next p neew))))"

definition list_replace_init :: "addr \<Rightarrow> addr \<Rightarrow> ('a lmem_scheme, unit) exec" where
  "list_replace_init old neew = andthen (list_replace old neew) (INIT_LIST_HEAD old)"

definition list_del_init :: "addr \<Rightarrow> ('a lmem_scheme, unit) exec" where
  "list_del_init entry = andthen (do_list_del_entry entry) (INIT_LIST_HEAD entry)"

definition list_move :: "addr \<Rightarrow> addr \<Rightarrow> ('a lmem_scheme, unit) exec" where
  "list_move l head = andthen (do_list_del_entry l) (list_add l head)"

definition list_move_tail :: "addr \<Rightarrow> addr \<Rightarrow> ('a lmem_scheme, unit) exec" where
  "list_move_tail l head = andthen (do_list_del_entry l) (list_add_tail l head)"

definition list_is_last :: "addr \<Rightarrow> addr \<Rightarrow> ('a lmem_scheme, bool) exec" where
  "list_is_last l head = bnd (get_next l) (\<lambda>p. ret (p = head))"

definition list_is_first :: "addr \<Rightarrow> addr \<Rightarrow> ('a lmem_scheme, bool) exec" where
  "list_is_first l head = bnd (get_prev l) (\<lambda>p. ret (p = head))"

definition list_empty :: "addr \<Rightarrow> ('a lmem_scheme, bool) exec" where
  "list_empty head = bnd (get_next head) (\<lambda>p. ret (p = head))"

definition list_empty_careful :: "addr \<Rightarrow> ('a lmem_scheme, bool) exec" where
  "list_empty_careful head =
     bnd (get_next head) (\<lambda>p.
     if p = head then bnd (get_prev head) (\<lambda>q. ret (p = q)) else ret False)"

definition list_rotate_left :: "addr \<Rightarrow> ('a lmem_scheme, unit) exec" where
  "list_rotate_left head =
     bnd (list_empty head) (\<lambda>e.
     if e then ret () else bnd (get_next head) (\<lambda>first. list_move_tail first head))"

definition list_is_singular :: "addr \<Rightarrow> ('a lmem_scheme, bool) exec" where
  "list_is_singular head =
     bnd (list_empty head) (\<lambda>e.
     if e then ret False
     else bnd (get_next head) (\<lambda>p. bnd (get_prev head) (\<lambda>q. ret (p = q))))"

definition do_list_cut_position :: "addr \<Rightarrow> addr \<Rightarrow> addr \<Rightarrow> ('a lmem_scheme, unit) exec" where
  "do_list_cut_position l head entry =
     bnd (get_next entry) (\<lambda>neew_first.
     andthen (bnd (get_next head) (set_next l)) (
     andthen (bnd (get_next l) (\<lambda>p. set_prev p l)) (
     andthen (set_prev l entry) (
     andthen (set_next entry l) (
     andthen (set_next head neew_first)
             (set_prev neew_first head))))))"

definition list_cut_position :: "addr \<Rightarrow> addr \<Rightarrow> addr \<Rightarrow> ('a lmem_scheme, unit) exec" where
  "list_cut_position l head entry =
     bnd (list_empty head) (\<lambda>e.
     if e then ret () else
     bnd (list_is_singular head) (\<lambda>one.
     bnd (if one then bnd (get_next head) (\<lambda>p. ret (p \<noteq> entry \<and> head \<noteq> entry)) else ret False) (\<lambda>foreign.
     if foreign then ret ()
     else if entry = head then INIT_LIST_HEAD l
     else do_list_cut_position l head entry)))"

definition do_list_splice :: "addr \<Rightarrow> addr \<Rightarrow> addr \<Rightarrow> ('a lmem_scheme, unit) exec" where
  "do_list_splice l prv nxt =
     bnd (get_next l) (\<lambda>first.
     bnd (get_prev l) (\<lambda>last.
     andthen (set_prev first prv) (
     andthen (set_next prv first) (
     andthen (set_next last nxt)
             (set_prev nxt last)))))"

definition list_splice :: "addr \<Rightarrow> addr \<Rightarrow> ('a lmem_scheme, unit) exec" where
  "list_splice l head =
     bnd (list_empty l) (\<lambda>e.
     if e then ret () else bnd (get_next head) (\<lambda>nxt. do_list_splice l head nxt))"

definition list_splice_tail :: "addr \<Rightarrow> addr \<Rightarrow> ('a lmem_scheme, unit) exec" where
  "list_splice_tail l head =
     bnd (list_empty l) (\<lambda>e.
     if e then ret () else bnd (get_prev head) (\<lambda>prv. do_list_splice l prv head))"

definition list_splice_init :: "addr \<Rightarrow> addr \<Rightarrow> ('a lmem_scheme, unit) exec" where
  "list_splice_init l head =
     bnd (list_empty l) (\<lambda>e.
     if e then ret ()
     else andthen (bnd (get_next head) (\<lambda>nxt. do_list_splice l head nxt)) (INIT_LIST_HEAD l))"

definition list_splice_tail_init :: "addr \<Rightarrow> addr \<Rightarrow> ('a lmem_scheme, unit) exec" where
  "list_splice_tail_init l head =
     bnd (list_empty l) (\<lambda>e.
     if e then ret ()
     else andthen (bnd (get_prev head) (\<lambda>prv. do_list_splice l prv head)) (INIT_LIST_HEAD l))"

section \<open>Loads and stores as equations\<close>

definition mem :: "'a lmem_scheme \<Rightarrow> addr \<Rightarrow> bool" where
  "mem s p \<longleftrightarrow> p \<noteq> 0 \<and> p \<in> dom (cells s)"

definition nx :: "'a lmem_scheme \<Rightarrow> addr \<Rightarrow> addr" where
  "nx s p = next_p (the (cells s p))"

definition pv :: "'a lmem_scheme \<Rightarrow> addr \<Rightarrow> addr" where
  "pv s p = prev_p (the (cells s p))"

definition with_next :: "addr \<Rightarrow> addr \<Rightarrow> 'a lmem_scheme \<Rightarrow> 'a lmem_scheme" where
  "with_next p q s = s\<lparr>cells := (cells s)(p \<mapsto> (the (cells s p))\<lparr>next_p := q\<rparr>)\<rparr>"

definition with_prev :: "addr \<Rightarrow> addr \<Rightarrow> 'a lmem_scheme \<Rightarrow> 'a lmem_scheme" where
  "with_prev p q s = s\<lparr>cells := (cells s)(p \<mapsto> (the (cells s p))\<lparr>prev_p := q\<rparr>)\<rparr>"

named_theorems cell_run \<open>loads and stores on cells that exist\<close>

lemma get_next_run [cell_run]: "mem s p \<Longrightarrow> get_next p s = Some (Inr (nx s p, s))"
  by (auto simp: mem_def nx_def get_next_def node_def exec_defs)

lemma get_prev_run [cell_run]: "mem s p \<Longrightarrow> get_prev p s = Some (Inr (pv s p, s))"
  by (auto simp: mem_def pv_def get_prev_def node_def exec_defs)

lemma set_next_run [cell_run]: "mem s p \<Longrightarrow> set_next p q s = Some (Inr ((), with_next p q s))"
  by (auto simp: mem_def with_next_def set_next_def node_def exec_defs)

lemma set_prev_run [cell_run]: "mem s p \<Longrightarrow> set_prev p q s = Some (Inr ((), with_prev p q s))"
  by (auto simp: mem_def with_prev_def set_prev_def node_def exec_defs)

lemma with_next_simps [simp]:
  "nx (with_next p q s) r = (if r = p then q else nx s r)"
  "pv (with_next p q s) r = pv s r"
  by (simp_all add: nx_def pv_def with_next_def)

lemma with_prev_simps [simp]:
  "nx (with_prev p q s) r = nx s r"
  "pv (with_prev p q s) r = (if r = p then q else pv s r)"
  by (simp_all add: nx_def pv_def with_prev_def)

lemma mem_with [simp]:
  "mem s p \<Longrightarrow> mem (with_next p q s) r = mem s r"
  "mem s p \<Longrightarrow> mem (with_prev p q s) r = mem s r"
  by (auto simp: mem_def with_next_def with_prev_def)

lemma node_wild: "p \<noteq> 0 \<Longrightarrow> p \<notin> dom (cells s) \<Longrightarrow> node p s = Some (Inl WildDeref)"
  by (auto simp: node_def exec_defs split: option.splits)

section \<open>Rings\<close>

definition link :: "'a lmem_scheme \<Rightarrow> addr \<Rightarrow> addr \<Rightarrow> bool" where
  "link s a b \<longleftrightarrow> mem s a \<and> mem s b \<and> nx s a = b \<and> pv s b = a"

fun links :: "'a lmem_scheme \<Rightarrow> addr list \<Rightarrow> bool" where
  "links s (a # b # as) \<longleftrightarrow> link s a b \<and> links s (b # as)"
| "links s as \<longleftrightarrow> True"

definition cyc :: "'a lmem_scheme \<Rightarrow> addr list \<Rightarrow> bool" where
  "cyc s zs \<longleftrightarrow> zs \<noteq> [] \<and> distinct zs \<and> links s (zs @ [hd zs])"

lemma links_cong:
  assumes "\<And>a. a \<in> set (butlast zs) \<Longrightarrow> nx s' a = nx s a" "\<And>a. a \<in> set (tl zs) \<Longrightarrow> pv s' a = pv s a"
    and "\<And>p. p \<in> set zs \<Longrightarrow> mem s' p = mem s p"
  shows "links s' zs = links s zs"
  using assms by (induction s zs rule: links.induct) (auto simp: link_def)

lemma links_split:
  "as \<noteq> [] \<Longrightarrow> bs \<noteq> [] \<Longrightarrow> links s (as @ bs) \<longleftrightarrow> links s as \<and> link s (last as) (hd bs) \<and> links s bs"
  by (induction s as rule: links.induct) (cases bs; auto)+

lemma links_Cons: "as \<noteq> [] \<Longrightarrow> links s (a # as) \<longleftrightarrow> link s a (hd as) \<and> links s as"
  by (cases as) simp_all

text \<open>A ring can be entered anywhere.\<close>

lemma cyc_rotate: "cyc s (as @ bs) \<longleftrightarrow> cyc s (bs @ as)"
proof (cases "as = [] \<or> bs = []")
  case False
  then show ?thesis by (auto simp: cyc_def links_split)
qed auto

lemma cyc_mem: "cyc s zs \<Longrightarrow> p \<in> set zs \<Longrightarrow> mem s p"
proof -
  have "links s (as @ [a]) \<Longrightarrow> p \<in> set as \<Longrightarrow> mem s p" for as a
    by (induction as) (auto simp: links_Cons link_def)
  then show "cyc s zs \<Longrightarrow> p \<in> set zs \<Longrightarrow> mem s p" by (auto simp: cyc_def)
qed


lemma cyc_ends:
  assumes "cyc s (a # zs)"
  shows "nx s a = hd (zs @ [a])" "pv s a = last (a # zs)"
proof -
  have "links s ((a # zs) @ [a])" using assms by (simp add: cyc_def)
  then show "nx s a = hd (zs @ [a])" "pv s a = last (a # zs)"
    using links_Cons [of "zs @ [a]" s a] links_split [of "a # zs" "[a]" s] by (simp_all add: link_def)
qed

lemma cyc_nbrs:
  assumes "cyc s (a # zs)"
  shows "nx s a \<in> set (a # zs)" "pv s a \<in> set (a # zs)" "mem s a" "mem s (nx s a)" "mem s (pv s a)"
proof -
  show n: "nx s a \<in> set (a # zs)" and p: "pv s a \<in> set (a # zs)"
    using cyc_ends [OF assms] by (cases zs; auto)+
  show "mem s a" "mem s (nx s a)" "mem s (pv s a)" using cyc_mem [OF assms] n p by auto
qed

text \<open>What an operation may change: the cells in \<open>A\<close>, and nothing else of the state.\<close>

definition within :: "addr set \<Rightarrow> 'a lmem_scheme \<Rightarrow> 'a lmem_scheme \<Rightarrow> bool" where
  "within A s s' \<longleftrightarrow> lmem.more s' = lmem.more s \<and> (\<forall>p. p \<notin> A \<longrightarrow> cells s' p = cells s p) \<and>
     dom (cells s') = dom (cells s)"

lemma within_refl [simp]: "within A s s"
  by (simp add: within_def)

lemma within_next: "mem s p \<Longrightarrow> p \<in> A \<Longrightarrow> within A s (with_next p q s)"
  by (auto simp: within_def with_next_def mem_def)

lemma within_prev: "mem s p \<Longrightarrow> p \<in> A \<Longrightarrow> within A s (with_prev p q s)"
  by (auto simp: within_def with_prev_def mem_def)

lemma within_trans: "within A s s' \<Longrightarrow> within A s' s'' \<Longrightarrow> within A s s''"
  by (simp add: within_def)

lemma within_mem: "within A s s' \<Longrightarrow> mem s' p = mem s p"
  by (simp add: within_def mem_def)

lemma within_mono: "within A s s' \<Longrightarrow> A \<subseteq> B \<Longrightarrow> within B s s'"
  by (auto simp: within_def)

lemma within_two: "within A s s' \<Longrightarrow> within B s' s'' \<Longrightarrow> A \<union> B \<subseteq> C \<Longrightarrow> within C s s''"
  using within_trans within_mono by (metis Un_subset_iff)

lemma within_steps:
  "within A s s' \<Longrightarrow> mem s p \<Longrightarrow> p \<in> A \<Longrightarrow> within A s (with_next p q s')"
  "within A s s' \<Longrightarrow> mem s p \<Longrightarrow> p \<in> A \<Longrightarrow> within A s (with_prev p q s')"
  using within_trans [of A s s'] within_next [of s' p A q] within_prev [of s' p A q] within_mem [of A s s' p]
  by blast+

lemma cyc_cells: "(\<And>p. p \<in> set zs \<Longrightarrow> cells s' p = cells s p) \<Longrightarrow> cyc s' zs \<longleftrightarrow> cyc s zs"
proof -
  assume eq: "\<And>p. p \<in> set zs \<Longrightarrow> cells s' p = cells s p"
  have "nx s' a = nx s a" "pv s' a = pv s a" "mem s' a = mem s a" if "a \<in> set (zs @ [hd zs])" "zs \<noteq> []" for a
    using eq that hd_in_set [of zs] by (auto simp: nx_def pv_def mem_def dom_def)
  then have "zs \<noteq> [] \<Longrightarrow> links s' (zs @ [hd zs]) = links s (zs @ [hd zs])"
    by (intro links_cong) (auto dest: in_set_butlastD list.set_sel(2))
  then show ?thesis by (auto simp: cyc_def)
qed

lemma cyc_within: "within A s s' \<Longrightarrow> set zs \<inter> A = {} \<Longrightarrow> cyc s' zs \<longleftrightarrow> cyc s zs"
  by (rule cyc_cells) (auto simp: within_def)

section \<open>The operations on rings\<close>

text \<open>\<open>does m s s'\<close>: \<open>m\<close> returns, with state \<open>s'\<close>.\<close>

abbreviation does :: "('s, unit) exec \<Rightarrow> 's \<Rightarrow> 's \<Rightarrow> bool" where
  "does m s s' \<equiv> m s = Some (Inr ((), s'))"

lemma INIT_LIST_HEAD_cyc:
  assumes "mem s l" shows "\<exists>s'. does (INIT_LIST_HEAD l) s s' \<and> cyc s' [l] \<and> within {l} s s'"
  using assms
  by (auto simp: INIT_LIST_HEAD_def andthen_def bnd_def cell_run cyc_def link_def intro!: within_steps)

lemma do_list_add_cyc:
  assumes c: "cyc s (a # zs)" and n: "mem s n" "n \<notin> set (a # zs)"
  shows "\<exists>s'. does (do_list_add n a (nx s a)) s s' \<and> cyc s' (a # n # zs) \<and> within (set (n # a # zs)) s s'"
proof -
  let ?b = "nx s a"
  let ?s = "with_next a n (with_prev n a (with_next n ?b (with_prev ?b n s)))"
  have m: "mem s a" "mem s ?b" and b: "?b \<in> set (a # zs)" and e: "?b = hd (zs @ [a])"
    using cyc_nbrs [OF c] cyc_ends [OF c] by auto
  have run: "does (do_list_add n a ?b) s ?s"
    using m n by (simp add: do_list_add_def andthen_def bnd_def cell_run)
  have "links s (zs @ [a])" using c by (auto simp: cyc_def links_Cons)
  then have "links ?s (zs @ [a])"
  proof (subst links_cong [of _ _ s])
    have d: "distinct (zs @ [a])" using c by (auto simp: cyc_def)
    show "nx ?s p = nx s p" if "p \<in> set (butlast (zs @ [a]))" for p
      using that n d by auto
    show "pv ?s p = pv s p" if "p \<in> set (tl (zs @ [a]))" for p
      using that n d e by (cases zs) auto
  qed (use m n in auto)
  moreover have "link ?s a n" "link ?s n (hd (zs @ [a]))"
    using m n b e by (auto simp: link_def)
  ultimately have "cyc ?s (a # n # zs)"
    using c n by (auto simp: cyc_def links_Cons)
  moreover have "within (set (n # a # zs)) s ?s" using m n b by (intro within_steps) auto
  ultimately show ?thesis using run by blast
qed

text \<open>The same ring, entered at its last cell.\<close>

lemma cyc_back:
  assumes c: "cyc s (h # xs)"
  shows "cyc s (pv s h # butlast (h # xs))" "nx s (pv s h) = h" "h # xs = butlast (h # xs) @ [pv s h]"
proof -
  have a: "pv s h = last (h # xs)" using cyc_ends [OF c] by simp
  show s: "h # xs = butlast (h # xs) @ [pv s h]" using a by simp
  show r: "cyc s (pv s h # butlast (h # xs))" using c cyc_rotate [of s "butlast (h # xs)" "[pv s h]"] s by simp
  show "nx s (pv s h) = h" using cyc_ends(1) [OF r] a by (cases xs) auto
qed

text \<open>\<open>list_add\<close> puts the new cell first, \<open>list_add_tail\<close> last.\<close>

lemma list_add_cyc:
  assumes c: "cyc s (h # xs)" and n: "mem s n" "n \<notin> set (h # xs)"
  shows "\<exists>s'. does (list_add n h) s s' \<and> cyc s' (h # n # xs) \<and> within (set (n # h # xs)) s s'"
  using do_list_add_cyc [OF assms] cyc_nbrs [OF c] by (simp add: list_add_def bnd_def cell_run)

lemma list_add_tail_cyc:
  assumes c: "cyc s (h # xs)" and n: "mem s n" "n \<notin> set (h # xs)"
  shows "\<exists>s'. does (list_add_tail n h) s s' \<and> cyc s' (h # xs @ [n]) \<and> within (set (n # h # xs)) s s'"
proof -
  let ?a = "pv s h" let ?zs = "butlast (h # xs)"
  note r = cyc_back(1) [OF c] and nx = cyc_back(2) [OF c] and s = cyc_back(3) [OF c]
  have set: "set (?a # ?zs) = set (h # xs)" using s by (metis rotate1.simps(2) set_rotate1)
  obtain s' where run: "does (do_list_add n ?a h) s s'" "cyc s' (?a # n # ?zs)" "within (set (n # h # xs)) s s'"
    using do_list_add_cyc [OF r n(1)] n(2) set nx by auto
  have "cyc s' (h # xs @ [n])" using run(2) s cyc_rotate [of s' "?a # [n]" ?zs] cyc_rotate [of s' "?zs @ [?a]" "[n]"]
    by (metis append.assoc append_Cons append_Nil)
  then show ?thesis using run cyc_nbrs [OF c] by (simp add: list_add_tail_def bnd_def cell_run)
qed

text \<open>Unlinking a cell leaves the ring of the others.\<close>

lemma do_list_del_cyc:
  assumes c: "cyc s (e # zs)" and ne: "zs \<noteq> []"
  shows "\<exists>s'. does (do_list_del_entry e) s s' \<and> cyc s' zs \<and> within (set zs) s s'"
proof -
  let ?p = "pv s e" let ?n = "nx s e"
  let ?s = "with_next ?p ?n (with_prev ?n ?p s)"
  have m: "mem s e" "mem s ?p" "mem s ?n" using cyc_nbrs [OF c] by auto
  have pn: "?p = last zs" "?n = hd zs" using cyc_ends [OF c] ne by auto
  have run: "does (do_list_del_entry e) s ?s"
    using m by (simp add: do_list_del_entry_def do_list_del_def andthen_def bnd_def cell_run)
  have d: "distinct zs" and l: "links s zs" using c ne by (auto simp: cyc_def links_Cons links_split)
  have "links ?s zs"
  proof (subst links_cong [of _ _ s])
    show "nx ?s p = nx s p" if "p \<in> set (butlast zs)" for p
      using that pn d ne by (auto simp: distinct_butlast dest: in_set_butlastD)
        (metis append_butlast_last_id d distinct.simps(2) distinct_append insert_disjoint(1) list.simps(15) not_distinct_conv_prefix)
    show "pv ?s p = pv s p" if "p \<in> set (tl zs)" for p
      using that pn d ne by (cases zs) auto
  qed (use m l in auto)
  moreover have "link ?s (last zs) (hd zs)" using m pn by (auto simp: link_def)
  ultimately have "cyc ?s zs" using d ne by (simp add: cyc_def links_split)
  moreover have "within (set zs) s ?s" using m pn ne by (intro within_steps) auto
  ultimately show ?thesis using run by blast
qed

lemma unlink_cyc:
  assumes c: "cyc s (h # xs @ e # ys)"
  shows "\<exists>s'. does (do_list_del_entry e) s s' \<and> cyc s' (h # xs @ ys) \<and> within (set (h # xs @ ys)) s s'"
proof -
  have "cyc s (e # ys @ h # xs)" using c cyc_rotate [of s "h # xs" "e # ys"] by simp
  then obtain s' where "does (do_list_del_entry e) s s'" "cyc s' (ys @ h # xs)" "within (set (ys @ h # xs)) s s'"
    using do_list_del_cyc by blast
  moreover have "set (ys @ h # xs) = set (h # xs @ ys)" by auto
  ultimately show ?thesis using cyc_rotate [of s' ys "h # xs"] by auto
qed

lemma unlink_facts:
  assumes "cyc s (h # xs @ e # ys)" shows "mem s e" "e \<notin> set (h # xs @ ys)"
  using assms cyc_mem [OF assms, of e] by (auto simp: cyc_def)

text \<open>\<open>list_del\<close> poisons the pointers of the cell, \<open>list_del_init\<close> makes it a ring of its own.\<close>

lemma list_del_unlinks:
  "list_del e = andthen (do_list_del_entry e) (andthen (set_next e LIST_POISON1) (set_prev e LIST_POISON2))"
  by (simp add: list_del_def do_list_del_entry_def)

lemma list_del_cyc:
  assumes c: "cyc s (h # xs @ e # ys)"
  shows "\<exists>s'. does (list_del e) s s' \<and> cyc s' (h # xs @ ys) \<and> nx s' e = LIST_POISON1 \<and> pv s' e = LIST_POISON2 \<and>
    within (set (h # xs @ e # ys)) s s'"
proof -
  obtain s1 where run: "does (do_list_del_entry e) s s1" and c1: "cyc s1 (h # xs @ ys)"
    and w: "within (set (h # xs @ ys)) s s1" using unlink_cyc [OF c] by blast
  let ?s = "with_prev e LIST_POISON2 (with_next e LIST_POISON1 s1)"
  have m: "mem s1 e" using unlink_facts(1) [OF c] within_mem [OF w] by simp
  have we: "within {e} s1 ?s" using m by (intro within_steps) auto
  have "cyc ?s (h # xs @ ys)" using c1 cyc_within [OF we] unlink_facts(2) [OF c] by auto
  moreover have "within (set (h # xs @ e # ys)) s ?s"
    by (rule within_two [OF w we]) auto
  moreover have "does (list_del e) s ?s"
    using run m by (simp add: list_del_unlinks andthen_def bnd_def cell_run)
  ultimately show ?thesis by auto
qed

lemma list_del_init_cyc:
  assumes c: "cyc s (h # xs @ e # ys)"
  shows "\<exists>s'. does (list_del_init e) s s' \<and> cyc s' (h # xs @ ys) \<and> cyc s' [e] \<and> within (set (h # xs @ e # ys)) s s'"
proof -
  obtain s1 where run: "does (do_list_del_entry e) s s1" and c1: "cyc s1 (h # xs @ ys)"
    and w: "within (set (h # xs @ ys)) s s1" using unlink_cyc [OF c] by blast
  have m: "mem s1 e" using unlink_facts(1) [OF c] within_mem [OF w] by simp
  obtain s2 where run2: "does (INIT_LIST_HEAD e) s1 s2" "cyc s2 [e]" and we: "within {e} s1 s2"
    using INIT_LIST_HEAD_cyc [OF m] by blast
  have "cyc s2 (h # xs @ ys)" using c1 cyc_within [OF we] unlink_facts(2) [OF c] by auto
  moreover have "within (set (h # xs @ e # ys)) s s2"
    by (rule within_two [OF w we]) auto
  ultimately show ?thesis using run run2 by (auto simp: list_del_init_def andthen_def bnd_def)
qed

text \<open>A cell that was deleted with \<open>list_del\<close> cannot be deleted again.\<close>

lemma list_del_twice:
  assumes "mem s e" "nx s e = LIST_POISON1" "pv s e = LIST_POISON2" "LIST_POISON1 \<notin> dom (cells s)"
  shows "list_del e s = Some (Inl WildDeref)"
  using assms node_wild [of LIST_POISON1 s]
  by (simp add: list_del_def do_list_del_def andthen_def bnd_def cell_run set_prev_def LIST_POISON1_def)

text \<open>Moving a cell, within its list or to another one.\<close>

lemma list_move_cyc:
  assumes c: "cyc s (h # xs @ e # ys)"
  shows "\<exists>s'. does (list_move e h) s s' \<and> cyc s' (h # e # xs @ ys)"
    and "\<exists>s'. does (list_move_tail e h) s s' \<and> cyc s' (h # xs @ ys @ [e])"
proof -
  obtain s1 where run: "does (do_list_del_entry e) s s1" and c1: "cyc s1 (h # xs @ ys)"
    and w: "within (set (h # xs @ ys)) s s1" using unlink_cyc [OF c] by blast
  have m: "mem s1 e" "e \<notin> set (h # xs @ ys)" using unlink_facts [OF c] within_mem [OF w] by auto
  show "\<exists>s'. does (list_move e h) s s' \<and> cyc s' (h # e # xs @ ys)"
    using list_add_cyc [OF c1 m] run by (auto simp: list_move_def andthen_def bnd_def)
  show "\<exists>s'. does (list_move_tail e h) s s' \<and> cyc s' (h # xs @ ys @ [e])"
    using list_add_tail_cyc [OF c1 m] run by (auto simp: list_move_tail_def andthen_def bnd_def)
qed

lemma list_move_other:
  assumes c: "cyc s (h # xs @ e # ys)" and k: "cyc s (k # zs)" and d: "set (h # xs @ e # ys) \<inter> set (k # zs) = {}"
  shows "\<exists>s'. does (list_move e k) s s' \<and> cyc s' (h # xs @ ys) \<and> cyc s' (k # e # zs)"
    and "\<exists>s'. does (list_move_tail e k) s s' \<and> cyc s' (h # xs @ ys) \<and> cyc s' (k # zs @ [e])"
proof -
  obtain s1 where run: "does (do_list_del_entry e) s s1" and c1: "cyc s1 (h # xs @ ys)"
    and w: "within (set (h # xs @ ys)) s s1" using unlink_cyc [OF c] by blast
  have k1: "cyc s1 (k # zs)" using k d cyc_within [OF w, of "k # zs"] by auto
  have m: "mem s1 e" "e \<notin> set (k # zs)" using unlink_facts [OF c] d within_mem [OF w] by auto
  have dd: "set (h # xs @ ys) \<inter> set (e # k # zs) = {}" using unlink_facts(2) [OF c] d by auto
  obtain s2 where a: "does (list_add e k) s1 s2" "cyc s2 (k # e # zs)" "within (set (e # k # zs)) s1 s2"
    using list_add_cyc [OF k1 m] by blast
  have "cyc s2 (h # xs @ ys)" using c1 cyc_within [OF a(3) dd] by simp
  then show "\<exists>s'. does (list_move e k) s s' \<and> cyc s' (h # xs @ ys) \<and> cyc s' (k # e # zs)"
    using a run by (auto simp: list_move_def andthen_def bnd_def)
  obtain s3 where b: "does (list_add_tail e k) s1 s3" "cyc s3 (k # zs @ [e])" "within (set (e # k # zs)) s1 s3"
    using list_add_tail_cyc [OF k1 m] by blast
  have "cyc s3 (h # xs @ ys)" using c1 cyc_within [OF b(3) dd] by simp
  then show "\<exists>s'. does (list_move_tail e k) s s' \<and> cyc s' (h # xs @ ys) \<and> cyc s' (k # zs @ [e])"
    using b run by (auto simp: list_move_tail_def andthen_def bnd_def)
qed

section \<open>Queries\<close>

lemma list_empty_cyc: "cyc s (h # xs) \<Longrightarrow> list_empty h s = Some (Inr (xs = [], s))"
  using cyc_ends [of s h xs] cyc_nbrs(3) [of s h xs]
  by (cases xs) (auto simp: list_empty_def bnd_def cell_run ret_def cyc_def)

lemma list_empty_careful_cyc: "cyc s (h # xs) \<Longrightarrow> list_empty_careful h s = Some (Inr (xs = [], s))"
  using cyc_ends [of s h xs] cyc_nbrs(3) [of s h xs]
  by (cases xs) (auto simp: list_empty_careful_def bnd_def cell_run ret_def cyc_def)

lemma list_is_singular_cyc:
  assumes c: "cyc s (h # xs)" shows "list_is_singular h s = Some (Inr (length xs = 1, s))"
proof (cases xs)
  case Nil
  then show ?thesis using c by (simp add: list_is_singular_def bnd_def list_empty_cyc ret_def)
next
  case (Cons x ys)
  have d: "distinct (x # ys)" and m: "mem s h" and e: "nx s h = x" "pv s h = last (x # ys)"
    using c Cons cyc_ends [OF c] cyc_nbrs(3) [OF c] by (auto simp: cyc_def)
  have "(x = last (x # ys)) = (ys = [])" using d last_in_set [of ys] by auto
  then show ?thesis using c Cons m e by (simp add: list_is_singular_def bnd_def list_empty_cyc cell_run ret_def)
qed

lemma list_is_last_cyc:
  "cyc s (h # xs @ e # ys) \<Longrightarrow> list_is_last e h s = Some (Inr (ys = [], s))"
  using cyc_rotate [of s "h # xs" "e # ys"] cyc_ends(1) [of s e "ys @ h # xs"] unlink_facts(1) [of s h xs e ys]
  by (cases ys) (auto simp: list_is_last_def bnd_def cell_run ret_def cyc_def)

lemma list_is_first_cyc:
  "cyc s (h # xs @ e # ys) \<Longrightarrow> list_is_first e h s = Some (Inr (xs = [], s))"
  using cyc_rotate [of s "h # xs" "e # ys"] cyc_ends(2) [of s e "ys @ h # xs"] unlink_facts(1) [of s h xs e ys]
  by (cases xs rule: rev_cases) (auto simp: list_is_first_def bnd_def cell_run ret_def cyc_def)

lemma list_rotate_left_cyc:
  assumes c: "cyc s (h # xs)"
  shows "\<exists>s'. does (list_rotate_left h) s s' \<and> cyc s' (h # rotate1 xs)"
proof (cases xs)
  case Nil
  then show ?thesis using c by (simp add: list_rotate_left_def bnd_def list_empty_cyc ret_def)
next
  case (Cons x ys)
  then have n: "nx s h = x" and m: "mem s h" using cyc_ends [OF c] cyc_nbrs [OF c] by auto
  show ?thesis using list_move_cyc(2) [of s h "[]" x ys] c Cons n m
    by (auto simp: list_rotate_left_def bnd_def list_empty_cyc cell_run)
qed

section \<open>Replacing, cutting and joining\<close>

text \<open>The new cell takes the place of the old one, also when the old one is an empty list's head.\<close>

lemma list_replace_cyc:
  assumes c: "cyc s (old # zs)" and n: "mem s n" "n \<notin> set (old # zs)"
  shows "\<exists>s'. does (list_replace old n) s s' \<and> cyc s' (n # zs) \<and> within (set (n # old # zs)) s s'"
proof -
  let ?a = "nx s old" let ?b = "if zs = [] then n else pv s old"
  let ?s = "with_next ?b n (with_prev n ?b (with_prev ?a n (with_next n ?a s)))"
  have m: "mem s old" "mem s ?a" "mem s ?b" using cyc_nbrs [OF c] n by auto
  have e: "?a = hd (zs @ [old])" "pv s old = last (old # zs)" using cyc_ends [OF c] by auto
  have nb: "?a \<noteq> n" "pv s old \<noteq> n" using cyc_nbrs [OF c] n by auto
  have "?a = old \<longleftrightarrow> zs = []" using e c by (cases zs) (auto simp: cyc_def)
  then have run: "does (list_replace old n) s ?s"
    using m n nb by (auto simp: list_replace_def andthen_def bnd_def cell_run)
  have w: "within (set (n # old # zs)) s ?s"
    using m n cyc_nbrs [OF c] by (intro within_steps) auto
  show ?thesis
  proof (cases "zs = []")
    case True
    have "cyc ?s (n # zs)" using True m n nb by (auto simp: cyc_def link_def)
    then show ?thesis using run w by blast
  next
    case False
    have d: "distinct zs" and l: "links s zs" using c False by (auto simp: cyc_def links_Cons links_split)
    have a: "?a = hd zs" "?b = last zs" using e False by auto
    have bl: "last zs \<notin> set (butlast zs)"
      using d False by (metis append_butlast_last_id distinct_append disjoint_insert(1) list.simps(15))
    have "links ?s zs"
    proof (subst links_cong [of _ _ s])
      show "nx ?s p = nx s p" if "p \<in> set (butlast zs)" for p
        using that bl a n in_set_butlastD [OF that] by auto
      show "pv ?s p = pv s p" if "p \<in> set (tl zs)" for p
        using that a d n False by (cases zs) auto
    qed (use m n l in auto)
    moreover have "link ?s n (hd zs)" "link ?s (last zs) n" using m n nb a False by (auto simp: link_def)
    ultimately have "cyc ?s (n # zs)" using d n False by (auto simp: cyc_def links_Cons links_split)
    then show ?thesis using run w by blast
  qed
qed

lemma list_replace_init_cyc:
  assumes c: "cyc s (old # zs)" and n: "mem s n" "n \<notin> set (old # zs)"
  shows "\<exists>s'. does (list_replace_init old n) s s' \<and> cyc s' (n # zs) \<and> cyc s' [old]"
proof -
  obtain s1 where r: "does (list_replace old n) s s1" "cyc s1 (n # zs)" "within (set (n # old # zs)) s s1"
    using list_replace_cyc [OF assms] by blast
  obtain s2 where i: "does (INIT_LIST_HEAD old) s1 s2" "cyc s2 [old]" "within {old} s1 s2"
    using INIT_LIST_HEAD_cyc [of s1 old] within_mem [OF r(3)] cyc_nbrs(3) [OF c] by auto
  have "cyc s2 (n # zs)" using r(2) cyc_within [OF i(3), of "n # zs"] c n by (auto simp: cyc_def)
  then show ?thesis using r i by (auto simp: list_replace_init_def andthen_def bnd_def)
qed

text \<open>The elements of one list go in front of (or behind) those of another.\<close>

lemma do_list_splice_cyc:
  assumes c: "cyc s (l # xs)" and ne: "xs \<noteq> []" and k: "cyc s (a # zs)" and d: "set (l # xs) \<inter> set (a # zs) = {}"
  shows "\<exists>s'. does (do_list_splice l a (nx s a)) s s' \<and> cyc s' (a # xs @ zs) \<and> within (set (xs @ a # zs)) s s'"
proof -
  let ?f = "nx s l" let ?z = "pv s l" let ?b = "nx s a"
  let ?s = "with_prev ?b ?z (with_next ?z ?b (with_next a ?f (with_prev ?f a s)))"
  have m: "mem s l" "mem s ?f" "mem s ?z" "mem s a" "mem s ?b" using cyc_nbrs [OF c] cyc_nbrs [OF k] by auto
  have e: "?f = hd xs" "?z = last xs" "?b = hd (zs @ [a])" using cyc_ends [OF c] cyc_ends [OF k] ne by auto
  have run: "does (do_list_splice l a ?b) s ?s"
    using m by (simp add: do_list_splice_def andthen_def bnd_def cell_run)
  have D: "distinct xs" "distinct (zs @ [a])" "set xs \<inter> set (zs @ [a]) = {}" using c k d by (auto simp: cyc_def)
  have f: "?f \<in> set xs" "?z \<in> set xs" "?b \<in> set (zs @ [a])"
    using e ne hd_in_set [of "zs @ [a]"] by auto
  have bl: "last xs \<notin> set (butlast xs)"
    using D ne by (metis append_butlast_last_id distinct_append disjoint_insert(1) list.simps(15))
  have lx: "links s xs" "links s (zs @ [a])" using c k ne by (auto simp: cyc_def links_Cons links_split)
  have "links ?s xs"
  proof (subst links_cong [of _ _ s])
    show "nx ?s p = nx s p" if "p \<in> set (butlast xs)" for p
      using that bl e D f in_set_butlastD [OF that] by auto
    show "pv ?s p = pv s p" if "p \<in> set (tl xs)" for p
    proof -
      have "p \<in> set xs" "p \<noteq> hd xs" using that D ne by (cases xs; auto)+
      then show ?thesis using e D f by auto
    qed
  qed (use m lx in auto)
  moreover have "links ?s (zs @ [a])"
  proof (subst links_cong [of _ _ s])
    show "nx ?s p = nx s p" if "p \<in> set (butlast (zs @ [a]))" for p
      using that D f by auto
    show "pv ?s p = pv s p" if "p \<in> set (tl (zs @ [a]))" for p
    proof -
      have "p \<in> set (zs @ [a])" "p \<noteq> hd (zs @ [a])" using that D by (cases zs; auto)+
      then show ?thesis using e D f by auto
    qed
  qed (use m lx in auto)
  moreover have "a \<noteq> last xs" "hd (zs @ [a]) \<noteq> hd xs"
    using last_in_set [OF ne] hd_in_set [OF ne] hd_in_set [of "zs @ [a]"] D(3) by auto
  then have "link ?s a (hd xs)" "link ?s (last xs) (hd (zs @ [a]))"
    using m e by (auto simp: link_def)
  ultimately have "cyc ?s (a # xs @ zs)" using D ne by (auto simp: cyc_def links_Cons links_split)
  moreover have "within (set (xs @ a # zs)) s ?s" using m f by (intro within_steps) auto
  ultimately show ?thesis using run by blast
qed

lemma list_splice_cyc:
  assumes c: "cyc s (l # xs)" and k: "cyc s (h # zs)" and d: "set (l # xs) \<inter> set (h # zs) = {}"
  shows "\<exists>s'. does (list_splice l h) s s' \<and> cyc s' (h # xs @ zs)"
    and "\<exists>s'. does (list_splice_tail l h) s s' \<and> cyc s' (h # zs @ xs)"
proof -
  have e: "list_empty l s = Some (Inr (xs = [], s))" using list_empty_cyc [OF c] .
  have m: "mem s h" using cyc_nbrs(3) [OF k] .
  show "\<exists>s'. does (list_splice l h) s s' \<and> cyc s' (h # xs @ zs)"
    using do_list_splice_cyc [OF c _ k d] e m k
    by (cases "xs = []") (auto simp: list_splice_def bnd_def cell_run ret_def)
  let ?a = "pv s h" let ?zs = "butlast (h # zs)"
  note r = cyc_back [OF k]
  have d2: "set (l # xs) \<inter> set (?a # ?zs) = {}" using d r(3) by (metis Un_insert_right append_Nil2 list.set(2) set_append)
  show "\<exists>s'. does (list_splice_tail l h) s s' \<and> cyc s' (h # zs @ xs)"
  proof (cases "xs = []")
    case False
    obtain s' where s': "does (do_list_splice l ?a h) s s'" "cyc s' (?a # xs @ ?zs)"
      using do_list_splice_cyc [OF c False r(1) d2] r(2) by auto
    have "cyc s' ((?zs @ [?a]) @ xs)" using s'(2) cyc_rotate [of s' ?zs "?a # xs"] by simp
    then have "cyc s' (h # zs @ xs)" using r(3) by (metis append_Cons)
    then show ?thesis using s'(1) e m False by (auto simp: list_splice_tail_def bnd_def cell_run)
  qed (use e k in \<open>simp add: list_splice_tail_def bnd_def ret_def\<close>)
qed

text \<open>
  The \<open>_init\<close> variants also leave the emptied head usable; the plain ones leave it
  pointing into the other list.
\<close>

lemma list_splice_init_cyc:
  assumes c: "cyc s (l # xs)" and k: "cyc s (h # zs)" and d: "set (l # xs) \<inter> set (h # zs) = {}"
  shows "\<exists>s'. does (list_splice_init l h) s s' \<and> cyc s' (h # xs @ zs) \<and> cyc s' [l]"
proof (cases "xs = []")
  case True
  then show ?thesis using c k list_empty_cyc [OF c] by (auto simp: list_splice_init_def bnd_def ret_def)
next
  case False
  obtain s1 where r: "does (do_list_splice l h (nx s h)) s s1" "cyc s1 (h # xs @ zs)" "within (set (xs @ h # zs)) s s1"
    using do_list_splice_cyc [OF c False k d] by blast
  obtain s2 where i: "does (INIT_LIST_HEAD l) s1 s2" "cyc s2 [l]" "within {l} s1 s2"
    using INIT_LIST_HEAD_cyc [of s1 l] within_mem [OF r(3)] cyc_nbrs(3) [OF c] by auto
  have "l \<notin> set (h # xs @ zs)" using c d by (auto simp: cyc_def)
  then have "cyc s2 (h # xs @ zs)" using r(2) cyc_within [OF i(3)] by auto
  then show ?thesis using r(1) i list_empty_cyc [OF c] False cyc_nbrs(3) [OF k]
    by (auto simp: list_splice_init_def andthen_def bnd_def cell_run)
qed

text \<open>\<open>list_cut_position\<close> moves the elements up to \<open>entry\<close> to the new head.\<close>

lemma do_list_cut_cyc:
  assumes c: "cyc s (h # xs @ e # ys)" and l: "mem s l" "l \<notin> set (h # xs @ e # ys)"
  shows "\<exists>s'. does (do_list_cut_position l h e) s s' \<and> cyc s' (l # xs @ [e]) \<and> cyc s' (h # ys)"
proof -
  let ?f = "nx s e" let ?b = "nx s h"
  let ?s = "with_prev ?f h (with_next h ?f (with_next e l (with_prev l e (with_prev ?b l (with_next l ?b s)))))"
  have m: "mem s h" "mem s e" "mem s ?b" using cyc_nbrs [OF c] cyc_mem [OF c] by auto
  have r: "cyc s (e # ys @ h # xs)" using c cyc_rotate [of s "h # xs" "e # ys"] by simp
  have mf: "mem s ?f" using cyc_nbrs [OF r] by simp
  have b: "?b = hd (xs @ [e])" and f: "?f = hd (ys @ [h])" using cyc_ends(1) [OF c] cyc_ends(1) [OF r] by (cases xs; cases ys; auto)+
  have D: "distinct (xs @ [e])" "distinct (ys @ [h])" "set (xs @ [e]) \<inter> set (ys @ [h]) = {}"
    using c by (auto simp: cyc_def)
  have i: "?b \<in> set (xs @ [e])" "?f \<in> set (ys @ [h])" using b f hd_in_set [of "xs @ [e]"] hd_in_set [of "ys @ [h]"] by auto
  have ne: "?b \<noteq> l" "h \<noteq> l" "e \<noteq> l" "?f \<noteq> l" "h \<noteq> e" "?f \<noteq> ?b" using l i D by auto
  have run: "does (do_list_cut_position l h e) s ?s"
    using m mf l ne by (simp add: do_list_cut_position_def andthen_def bnd_def cell_run)
  have lx: "links s (xs @ [e])" "links s (ys @ [h])"
    using c links_split [of "h # xs @ [e]" "ys @ [h]" s] by (auto simp: cyc_def links_Cons)
  have "links ?s (xs @ [e])"
  proof (subst links_cong [of _ _ s])
    show "nx ?s p = nx s p" if "p \<in> set (butlast (xs @ [e]))" for p using that D l by auto
    show "pv ?s p = pv s p" if "p \<in> set (tl (xs @ [e]))" for p
    proof -
      have "p \<in> set (xs @ [e])" "p \<noteq> hd (xs @ [e])" using that D by (cases xs; auto)+
      then show ?thesis using b i D l by auto
    qed
  qed (use m mf l lx in auto)
  moreover have "links ?s (ys @ [h])"
  proof (subst links_cong [of _ _ s])
    show "nx ?s p = nx s p" if "p \<in> set (butlast (ys @ [h]))" for p using that D l by auto
    show "pv ?s p = pv s p" if "p \<in> set (tl (ys @ [h]))" for p
    proof -
      have "p \<in> set (ys @ [h])" "p \<noteq> hd (ys @ [h])" using that D by (cases ys; auto)+
      then show ?thesis using f i D l by auto
    qed
  qed (use m mf l lx in auto)
  moreover have "link ?s l (hd (xs @ [e]))" "link ?s e l" "link ?s h (hd (ys @ [h]))"
    using m mf l ne b f i D by (auto simp: link_def)
  ultimately have "cyc ?s (l # xs @ [e])" "cyc ?s (h # ys)"
    using D l links_split [of "xs @ [e]" "[l]" ?s] hd_append2 [of "xs @ [e]" "[l]"] by (auto simp: cyc_def links_Cons)
  then show ?thesis using run by blast
qed

lemma list_cut_position_cyc:
  assumes c: "cyc s (h # xs @ e # ys)" and l: "mem s l" "l \<notin> set (h # xs @ e # ys)"
  shows "\<exists>s'. does (list_cut_position l h e) s s' \<and> cyc s' (l # xs @ [e]) \<and> cyc s' (h # ys)"
proof -
  have he: "e \<noteq> h" using c by (auto simp: cyc_def)
  have one: "length (xs @ e # ys) = 1 \<Longrightarrow> nx s h = e" using cyc_ends(1) [OF c] by (cases xs) auto
  show ?thesis
    using do_list_cut_cyc [OF assms] list_empty_cyc [OF c] list_is_singular_cyc [OF c] one he cyc_nbrs(3) [OF c]
    by (cases "length (xs @ e # ys) = 1") (auto simp: list_cut_position_def bnd_def ret_def cell_run)
qed

end
