(* ===== verification/Walk.thy ===== *)
theory Walk
  imports Lists
begin

text \<open>
  The loops of \<open>list.h\<close>: the \<open>list_for_each\<close> family.  Each macro is a C \<open>for\<close> whose body
  is the statement that follows it; here the body is an argument, a function of the loop
  variable.  \<open>list_entry\<close> subtracts the offset of the member in its structure.

  A loop over a list whose body leaves the links alone does the body once per element, in
  order; the \<open>_safe\<close> loops also allow a body that deletes the element, the others do not.
\<close>

section \<open>The \<open>for\<close> statement\<close>

partial_function (option) for_loop ::
  "('p \<Rightarrow> bool) \<Rightarrow> ('p \<Rightarrow> ('s, 'p) exec) \<Rightarrow> ('p \<Rightarrow> ('s, unit) exec) \<Rightarrow> 'p \<Rightarrow> 's \<Rightarrow> (fault + unit \<times> 's) option" where
  "for_loop cond step body p s =
     (if cond p then andthen (body p) (bnd (step p) (\<lambda>q. for_loop cond step body q)) else ret ()) s"

section \<open>The macros\<close>

definition list_entry :: "addr \<Rightarrow> addr \<Rightarrow> addr" where
  "list_entry p off = p - off"

definition list_first_entry :: "addr \<Rightarrow> addr \<Rightarrow> ('a lmem_scheme, addr) exec" where
  "list_first_entry p off = bnd (get_next p) (\<lambda>q. ret (list_entry q off))"

definition list_for_each :: "(addr \<Rightarrow> ('a lmem_scheme, unit) exec) \<Rightarrow> addr \<Rightarrow> ('a lmem_scheme, unit) exec" where
  "list_for_each body head =
     bnd (get_next head) (for_loop (\<lambda>pos. pos \<noteq> head) get_next body)"

definition do_list_for_each :: "(addr \<Rightarrow> ('a lmem_scheme, unit) exec) \<Rightarrow> addr \<Rightarrow> ('a lmem_scheme, unit) exec" where
  "do_list_for_each body head =
     bnd (get_next head) (for_loop (\<lambda>pos. pos \<noteq> head) get_next body)"

definition list_for_each_prev :: "(addr \<Rightarrow> ('a lmem_scheme, unit) exec) \<Rightarrow> addr \<Rightarrow> ('a lmem_scheme, unit) exec" where
  "list_for_each_prev body head =
     bnd (get_prev head) (for_loop (\<lambda>pos. pos \<noteq> head) get_prev body)"

definition list_for_each_safe :: "(addr \<Rightarrow> ('a lmem_scheme, unit) exec) \<Rightarrow> addr \<Rightarrow> ('a lmem_scheme, unit) exec" where
  "list_for_each_safe body head =
     bnd (get_next head) (\<lambda>pos.
     bnd (get_next pos) (\<lambda>n.
     for_loop (\<lambda>(pos, n). pos \<noteq> head) (\<lambda>(pos, n). bnd (get_next n) (\<lambda>m. ret (n, m)))
       (\<lambda>(pos, n). body pos) (pos, n)))"

definition list_for_each_prev_safe :: "(addr \<Rightarrow> ('a lmem_scheme, unit) exec) \<Rightarrow> addr \<Rightarrow> ('a lmem_scheme, unit) exec" where
  "list_for_each_prev_safe body head =
     bnd (get_prev head) (\<lambda>pos.
     bnd (get_prev pos) (\<lambda>n.
     for_loop (\<lambda>(pos, n). pos \<noteq> head) (\<lambda>(pos, n). bnd (get_prev n) (\<lambda>m. ret (n, m)))
       (\<lambda>(pos, n). body pos) (pos, n)))"

text \<open>\<open>list_entry(pos->member.next, ...)\<close> and its mirror image.\<close>

definition next_entry :: "addr \<Rightarrow> addr \<Rightarrow> ('a lmem_scheme, addr) exec" where
  "next_entry off pos = bnd (get_next (pos + off)) (\<lambda>q. ret (list_entry q off))"

definition prev_entry :: "addr \<Rightarrow> addr \<Rightarrow> ('a lmem_scheme, addr) exec" where
  "prev_entry off pos = bnd (get_prev (pos + off)) (\<lambda>q. ret (list_entry q off))"

definition list_for_each_entry :: "addr \<Rightarrow> (addr \<Rightarrow> ('a lmem_scheme, unit) exec) \<Rightarrow> addr \<Rightarrow> ('a lmem_scheme, unit) exec" where
  "list_for_each_entry off body head =
     bnd (bnd (get_next head) (\<lambda>q. ret (list_entry q off)))
       (for_loop (\<lambda>pos. pos + off \<noteq> head) (next_entry off) body)"

definition list_for_each_entry_reverse :: "addr \<Rightarrow> (addr \<Rightarrow> ('a lmem_scheme, unit) exec) \<Rightarrow> addr \<Rightarrow> ('a lmem_scheme, unit) exec" where
  "list_for_each_entry_reverse off body head =
     bnd (bnd (get_prev head) (\<lambda>q. ret (list_entry q off)))
       (for_loop (\<lambda>pos. pos + off \<noteq> head) (prev_entry off) body)"

definition list_prepare_entry :: "addr \<Rightarrow> addr \<Rightarrow> addr \<Rightarrow> addr" where
  "list_prepare_entry off pos head = (if pos \<noteq> 0 then pos else list_entry head off)"

definition list_for_each_entry_continue ::
  "addr \<Rightarrow> (addr \<Rightarrow> ('a lmem_scheme, unit) exec) \<Rightarrow> addr \<Rightarrow> addr \<Rightarrow> ('a lmem_scheme, unit) exec" where
  "list_for_each_entry_continue off body head pos =
     bnd (next_entry off pos) (for_loop (\<lambda>pos. pos + off \<noteq> head) (next_entry off) body)"

definition list_for_each_entry_continue_reverse ::
  "addr \<Rightarrow> (addr \<Rightarrow> ('a lmem_scheme, unit) exec) \<Rightarrow> addr \<Rightarrow> addr \<Rightarrow> ('a lmem_scheme, unit) exec" where
  "list_for_each_entry_continue_reverse off body head pos =
     bnd (prev_entry off pos) (for_loop (\<lambda>pos. pos + off \<noteq> head) (prev_entry off) body)"

definition list_for_each_entry_from ::
  "addr \<Rightarrow> (addr \<Rightarrow> ('a lmem_scheme, unit) exec) \<Rightarrow> addr \<Rightarrow> addr \<Rightarrow> ('a lmem_scheme, unit) exec" where
  "list_for_each_entry_from off body head pos =
     for_loop (\<lambda>pos. pos + off \<noteq> head) (next_entry off) body pos"

definition safe_entries ::
  "(addr \<Rightarrow> ('a lmem_scheme, addr) exec) \<Rightarrow> addr \<Rightarrow> (addr \<Rightarrow> ('a lmem_scheme, unit) exec) \<Rightarrow> addr \<Rightarrow> addr \<Rightarrow>
     ('a lmem_scheme, unit) exec" where
  "safe_entries adv off body head pos =
     bnd (adv pos) (\<lambda>n.
     for_loop (\<lambda>(pos, n). pos + off \<noteq> head) (\<lambda>(pos, n). bnd (adv n) (\<lambda>m. ret (n, m)))
       (\<lambda>(pos, n). body pos) (pos, n))"

definition list_for_each_entry_safe :: "addr \<Rightarrow> (addr \<Rightarrow> ('a lmem_scheme, unit) exec) \<Rightarrow> addr \<Rightarrow> ('a lmem_scheme, unit) exec" where
  "list_for_each_entry_safe off body head =
     bnd (bnd (get_next head) (\<lambda>q. ret (list_entry q off))) (safe_entries (next_entry off) off body head)"

definition list_for_each_entry_safe_continue ::
  "addr \<Rightarrow> (addr \<Rightarrow> ('a lmem_scheme, unit) exec) \<Rightarrow> addr \<Rightarrow> addr \<Rightarrow> ('a lmem_scheme, unit) exec" where
  "list_for_each_entry_safe_continue off body head pos =
     bnd (next_entry off pos) (safe_entries (next_entry off) off body head)"

definition list_for_each_entry_safe_from ::
  "addr \<Rightarrow> (addr \<Rightarrow> ('a lmem_scheme, unit) exec) \<Rightarrow> addr \<Rightarrow> addr \<Rightarrow> ('a lmem_scheme, unit) exec" where
  "list_for_each_entry_safe_from off body head pos = safe_entries (next_entry off) off body head pos"

definition list_for_each_entry_safe_reverse ::
  "addr \<Rightarrow> (addr \<Rightarrow> ('a lmem_scheme, unit) exec) \<Rightarrow> addr \<Rightarrow> ('a lmem_scheme, unit) exec" where
  "list_for_each_entry_safe_reverse off body head =
     bnd (bnd (get_prev head) (\<lambda>q. ret (list_entry q off))) (safe_entries (prev_entry off) off body head)"

definition list_safe_reset_next :: "addr \<Rightarrow> addr \<Rightarrow> ('a lmem_scheme, addr) exec" where
  "list_safe_reset_next off pos = next_entry off pos"

section \<open>Loops that leave the links alone\<close>

text \<open>The reference: do the body for one element after the other.\<close>

primrec run_all :: "('e \<Rightarrow> ('s, unit) exec) \<Rightarrow> 'e list \<Rightarrow> ('s, unit) exec" where
  "run_all body [] = ret ()"
| "run_all body (x # xs) = andthen (body x) (run_all body xs)"

text \<open>\<open>walk cond step s p ps\<close>: from \<open>p\<close> the loop head visits \<open>ps\<close> and stops.\<close>

fun walk :: "('p \<Rightarrow> bool) \<Rightarrow> ('p \<Rightarrow> ('s, 'p) exec) \<Rightarrow> 's \<Rightarrow> 'p \<Rightarrow> 'p list \<Rightarrow> bool" where
  "walk cond step s p [] \<longleftrightarrow> \<not> cond p"
| "walk cond step s p (q # qs) \<longleftrightarrow> p = q \<and> cond p \<and> (\<exists>r. step p s = Some (Inr (r, s)) \<and> walk cond step s r qs)"

text \<open>The loop head looks at nothing but \<open>view\<close>.\<close>

definition reads_only :: "('s \<Rightarrow> 'v) \<Rightarrow> ('p \<Rightarrow> ('s, 'p) exec) \<Rightarrow> bool" where
  "reads_only view step \<longleftrightarrow>
     (\<forall>p q s s'. step p s = Some (Inr (q, s)) \<longrightarrow> view s' = view s \<longrightarrow> step p s' = Some (Inr (q, s')))"

lemma walk_view: "reads_only view step \<Longrightarrow> walk cond step s p ps \<Longrightarrow> view s' = view s \<Longrightarrow> walk cond step s' p ps"
proof (induction ps arbitrary: p)
  case (Cons q qs)
  then obtain r where r: "p = q" "cond p" "step p s = Some (Inr (r, s))" "walk cond step s r qs" by auto
  have "step p s' = Some (Inr (r, s'))" using Cons.prems(1,3) r(3) unfolding reads_only_def by blast
  then show ?case using r Cons.IH [OF Cons.prems(1) r(4) Cons.prems(3)] by simp
qed simp

lemma reads_onlyD: "reads_only view step \<Longrightarrow> step p s = Some (Inr (q, s)) \<Longrightarrow> view s' = view s \<Longrightarrow>
    step p s' = Some (Inr (q, s'))"
  unfolding reads_only_def by blast

lemma for_loop_walk:
  assumes "\<And>p. keeps view (body p)" and rd: "reads_only view step" and "walk cond step s p ps"
  shows "for_loop cond step body p s = run_all body ps s"
  using assms(3)
proof (induction ps arbitrary: p s)
  case Nil
  then show ?case by (subst for_loop.simps) simp
next
  case (Cons q qs)
  then obtain r where p: "p = q" "cond p" and r: "step p s = Some (Inr (r, s))" and w: "walk cond step s r qs" by auto
  have "andthen (body p) (bnd (step p) (\<lambda>q. for_loop cond step body q)) s = andthen (body p) (run_all body qs) s"
  proof (cases "\<exists>s'. body p s = Some (Inr ((), s'))")
    case True
    then obtain s' where b: "body p s = Some (Inr ((), s'))" by blast
    have c: "view s' = view s" using keepsD [OF assms(1) b] .
    have "step p s' = Some (Inr (r, s'))" using reads_onlyD [OF rd r c] .
    then show ?thesis using b Cons.IH [OF walk_view [OF rd w c]] by (simp add: andthen_def bnd_def)
  next
    case False
    then show ?thesis by (cases "body p s") (auto simp: andthen_def bnd_def split: sum.splits)
  qed
  then show ?case using p by (subst for_loop.simps) simp
qed

lemma node_cells: "cells s' = cells s \<Longrightarrow> node p s = Some (Inr (c, s)) \<Longrightarrow> node p s' = Some (Inr (c, s'))"
  by (auto simp: node_def exec_defs split: if_splits option.splits)

lemma node_inv: "node p s = Some (Inr (c, s'')) \<Longrightarrow> s'' = s"
  by (auto simp: node_def exec_defs split: if_splits option.splits)

lemma get_inv:
  "get_next p s = Some (Inr (q, s'')) \<Longrightarrow> \<exists>c. node p s = Some (Inr (c, s)) \<and> q = next_p c"
  "get_prev p s = Some (Inr (q, s'')) \<Longrightarrow> \<exists>c. node p s = Some (Inr (c, s)) \<and> q = prev_p c"
  by (auto simp: get_next_def get_prev_def ret_def elim!: bndE dest: node_inv)

lemma get_cells:
  "get_next p s = Some (Inr (q, s)) \<Longrightarrow> cells s' = cells s \<Longrightarrow> get_next p s' = Some (Inr (q, s'))"
  "get_prev p s = Some (Inr (q, s)) \<Longrightarrow> cells s' = cells s \<Longrightarrow> get_prev p s' = Some (Inr (q, s'))"
  by (drule get_inv, clarsimp, drule (1) node_cells, simp add: get_next_def get_prev_def bnd_def ret_def)+

lemma reads_entries: "reads_only cells (next_entry off)" "reads_only cells (prev_entry off)"
  unfolding reads_only_def next_entry_def prev_entry_def
  by (auto simp: ret_def elim!: bndE) (drule (1) get_cells, simp add: bnd_def)+

lemma entry_zero: "next_entry 0 = get_next" "prev_entry 0 = get_prev"
  by (rule ext, simp add: next_entry_def prev_entry_def list_entry_def cong: bnd_ret_right)+

text \<open>Around a ring.\<close>

lemma walk_next:
  assumes "links s (xs @ [h])" "h \<notin> set xs"
  shows "walk (\<lambda>p. p + off \<noteq> h) (next_entry off) s (hd (xs @ [h]) - off) (map (\<lambda>p. p - off) xs)"
  using assms
proof (induction xs)
  case (Cons x xs)
  then have l: "link s x (hd (xs @ [h]))" by (simp add: links_Cons)
  have "next_entry off (x - off) s = Some (Inr (hd (xs @ [h]) - off, s))"
    using l by (simp add: next_entry_def bnd_def cell_run link_def ret_def list_entry_def)
  then show ?case using Cons by (auto simp: links_Cons)
qed simp

lemma walk_prev:
  assumes "links s (h # xs)" "h \<notin> set xs"
  shows "walk (\<lambda>p. p + off \<noteq> h) (prev_entry off) s (last (h # xs) - off) (map (\<lambda>p. p - off) (rev xs))"
  using assms
proof (induction xs rule: rev_induct)
  case (snoc x xs)
  have l: "link s (last (h # xs)) x" and r: "links s (h # xs)"
    using snoc.prems links_split [of "h # xs" "[x]" s] by auto
  have "prev_entry off (x - off) s = Some (Inr (last (h # xs) - off, s))"
    using l by (simp add: prev_entry_def bnd_def cell_run link_def ret_def list_entry_def)
  then show ?case using snoc r by auto
qed simp

lemma cyc_links: "cyc s (h # xs) \<Longrightarrow> links s (xs @ [h]) \<and> links s (h # xs) \<and> h \<notin> set xs"
  using links_split [of "h # xs" "[h]" s] by (simp add: cyc_def links_Cons)

text \<open>Forwards and backwards.\<close>

lemma list_for_each_entry_all:
  assumes c: "cyc s (h # xs)" and k: "\<And>p. keeps cells (body p)"
  shows "list_for_each_entry off body h s = run_all body (map (\<lambda>p. p - off) xs) s"
  using for_loop_walk [OF k reads_entries(1) walk_next, of s xs h off] cyc_links [OF c] cyc_ends(1) [OF c] cyc_nbrs(3) [OF c]
  by (simp add: list_for_each_entry_def bnd_def cell_run ret_def list_entry_def)

lemma list_for_each_entry_reverse_all:
  assumes c: "cyc s (h # xs)" and k: "\<And>p. keeps cells (body p)"
  shows "list_for_each_entry_reverse off body h s = run_all body (map (\<lambda>p. p - off) (rev xs)) s"
  using for_loop_walk [OF k reads_entries(2) walk_prev, of s h xs off] cyc_links [OF c] cyc_ends(2) [OF c] cyc_nbrs(3) [OF c]
  by (simp add: list_for_each_entry_reverse_def bnd_def cell_run ret_def list_entry_def)

lemma list_for_each_all:
  assumes "cyc s (h # xs)" and "\<And>p. keeps cells (body p)"
  shows "list_for_each body h s = run_all body xs s"
    and "list_for_each_prev body h s = run_all body (rev xs) s"
  using list_for_each_entry_all [OF assms, of 0] list_for_each_entry_reverse_all [OF assms, of 0]
  by (simp_all add: list_for_each_entry_def list_for_each_entry_reverse_def list_for_each_def list_for_each_prev_def
      entry_zero list_entry_def)

text \<open>From the middle: \<open>_from\<close> includes the element it starts at, \<open>_continue\<close> does not.\<close>

lemma list_for_each_entry_from_all:
  assumes c: "cyc s (h # xs @ e # ys)" and k: "\<And>p. keeps cells (body p)"
  shows "list_for_each_entry_from off body h (e - off) s = run_all body (map (\<lambda>p. p - off) (e # ys)) s"
    and "list_for_each_entry_continue off body h (e - off) s = run_all body (map (\<lambda>p. p - off) ys) s"
proof -
  have l: "links s ((e # ys) @ [h])" "h \<notin> set (e # ys)"
    using cyc_links [OF c] links_split [of "h # xs" "e # ys @ [h]" s] c by (auto simp: cyc_def)
  have l2: "links s (ys @ [h])" "h \<notin> set ys" and e: "link s e (hd (ys @ [h]))" using l by (auto simp: links_Cons)
  show "list_for_each_entry_from off body h (e - off) s = run_all body (map (\<lambda>p. p - off) (e # ys)) s"
    using for_loop_walk [OF k reads_entries(1) walk_next [OF l, of off]] by (simp add: list_for_each_entry_from_def)
  have "next_entry off (e - off) s = Some (Inr (hd (ys @ [h]) - off, s))"
    using e by (simp add: next_entry_def bnd_def cell_run link_def ret_def list_entry_def)
  then show "list_for_each_entry_continue off body h (e - off) s = run_all body (map (\<lambda>p. p - off) ys) s"
    using for_loop_walk [OF k reads_entries(1) walk_next [OF l2, of off]]
    by (simp add: list_for_each_entry_continue_def bnd_def)
qed

lemma list_for_each_entry_continue_reverse_all:
  assumes c: "cyc s (h # xs @ e # ys)" and k: "\<And>p. keeps cells (body p)"
  shows "list_for_each_entry_continue_reverse off body h (e - off) s = run_all body (map (\<lambda>p. p - off) (rev xs)) s"
proof -
  have l: "links s (h # xs)" "h \<notin> set xs" and e: "link s (last (h # xs)) e"
    using cyc_links [OF c] links_split [of "h # xs" "e # ys" s] by auto
  have "prev_entry off (e - off) s = Some (Inr (last (h # xs) - off, s))"
    using e by (simp add: prev_entry_def bnd_def cell_run link_def ret_def list_entry_def)
  then show ?thesis
    using for_loop_walk [OF k reads_entries(2) walk_prev [OF l, of off]]
    by (simp add: list_for_each_entry_continue_reverse_def bnd_def)
qed

section \<open>Loops whose body unlinks the element\<close>

text \<open>
  The \<open>_safe\<close> loops fetch the successor before the body runs.  \<open>I s xs\<close> is the loop
  invariant: in state \<open>s\<close> the elements \<open>xs\<close> are still to come.
\<close>

lemma safe_loop:
  assumes body: "\<And>x r s. I s (x # r) \<Longrightarrow> \<exists>s'. does (body (x - off)) s s' \<and> I s' r"
    and nxt: "\<And>x r s. I s (x # r) \<Longrightarrow> x \<noteq> h \<and> adv (x - off) s = Some (Inr (hd (r @ [h]) - off, s))"
    and fin: "\<And>s. I s [] \<Longrightarrow> \<exists>q. adv (h - off) s = Some (Inr (q, s))"
    and start: "I s xs"
  shows "\<exists>s'. does (safe_entries adv off body h (hd (xs @ [h]) - off)) s s' \<and> I s' []"
proof -
  let ?loop = "for_loop (\<lambda>(pos, n). pos + off \<noteq> h) (\<lambda>(pos, n). bnd (adv n) (\<lambda>m. ret (n, m))) (\<lambda>(pos, n). body pos)"
  have adv: "\<exists>q. adv (hd (r @ [h]) - off) s = Some (Inr (q, s))" if "I s r" for r s
    using that nxt fin by (cases r) auto
  have "\<exists>s'. does (?loop (hd (xs @ [h]) - off, n)) s s' \<and> I s' []"
    if "I s xs" "adv (hd (xs @ [h]) - off) s = Some (Inr (n, s))" for n
    using that
  proof (induction xs arbitrary: s n)
    case Nil
    then show ?case by (subst for_loop.simps) (simp add: ret_def)
  next
    case (Cons x r)
    have n: "n = hd (r @ [h]) - off" and x: "x \<noteq> h" using Cons.prems nxt [of s x r] by auto
    obtain s1 where b: "does (body (x - off)) s s1" and i: "I s1 r" using body [OF Cons.prems(1)] by blast
    obtain q where q: "adv n s1 = Some (Inr (q, s1))" using adv [OF i] n by auto
    obtain s' where "does (?loop (n, q)) s1 s'" "I s' []" using Cons.IH [OF i, of q] q n by auto
    then show ?case using b q x by (subst for_loop.simps) (simp add: andthen_def bnd_def ret_def)
  qed
  then show ?thesis using adv [OF start] start by (auto simp: safe_entries_def bnd_def)
qed

lemma safe_plain: "list_for_each_safe body h = list_for_each_entry_safe 0 body h"
  by (simp add: list_for_each_safe_def list_for_each_entry_safe_def safe_entries_def [abs_def] entry_zero list_entry_def)

text \<open>Deleting every element from its own loop empties the list ...\<close>

lemma delete_all:
  assumes c: "cyc s (h # xs)"
  shows "\<exists>s'. does (list_for_each_safe list_del h) s s' \<and> cyc s' [h]"
proof -
  have nxt: "x \<noteq> h \<and> next_entry 0 (x - 0) s = Some (Inr (hd (r @ [h]) - 0, s))" if "cyc s (h # x # r)" for x r and s :: "'a lmem_scheme"
    using that cyc_links [OF that] by (auto simp: entry_zero cell_run links_Cons link_def)
  have body: "\<exists>s'. does (list_del (x - 0)) s s' \<and> cyc s' (h # r)" if "cyc s (h # x # r)" for x r and s :: "'a lmem_scheme"
    using list_del_cyc [of s h "[]" x r] that by auto
  have fin: "\<exists>q. next_entry 0 (h - 0) s = Some (Inr (q, s))" if "cyc s [h]" for s :: "'a lmem_scheme"
    using cyc_nbrs(3) [OF that] by (simp add: entry_zero cell_run)
  have "\<exists>s'. does (safe_entries (next_entry 0) 0 list_del h (hd (xs @ [h]) - 0)) s s' \<and> cyc s' [h]"
    using safe_loop [where I = "\<lambda>s r. cyc s (h # r)" and adv = "next_entry 0" and off = 0 and body = list_del and h = h and s = s and xs = xs]
      body nxt fin c by blast
  then show ?thesis
    using cyc_ends(1) [OF c] cyc_nbrs(3) [OF c]
    by (simp add: safe_plain list_for_each_entry_safe_def bnd_def cell_run ret_def list_entry_def)
qed

text \<open>... and with the plain loop it faults at the second element.\<close>

lemma delete_all_unsafe:
  assumes c: "cyc s (h # x # xs)" and p: "LIST_POISON1 \<notin> dom (cells s)"
  shows "list_for_each list_del h s = Some (Inl WildDeref)"
proof -
  obtain s1 where d: "does (list_del x) s s1" "nx s1 x = LIST_POISON1" and w: "within (set (h # x # xs)) s s1"
    using list_del_cyc [of s h "[]" x xs] c by auto
  have m: "mem s1 x" "mem s h" "LIST_POISON1 \<notin> dom (cells s1)"
    using within_mem [OF w, of x] within_mem [OF w, of LIST_POISON1] cyc_mem [OF c] p by (auto simp: mem_def LIST_POISON1_def)
  have ne: "LIST_POISON1 \<noteq> h" using m(2) p by (auto simp: mem_def)
  have "list_del LIST_POISON1 s1 = Some (Inl WildDeref)"
    using node_wild [OF _ m(3)] by (simp add: list_del_def andthen_def get_prev_def bnd_def LIST_POISON1_def)
  then have "for_loop (\<lambda>pos. pos \<noteq> h) get_next list_del LIST_POISON1 s1 = Some (Inl WildDeref)"
    using ne by (subst for_loop.simps) (simp add: andthen_def bnd_def)
  moreover have "x \<noteq> h" "nx s h = x" using c cyc_ends(1) [OF c] by (auto simp: cyc_def)
  ultimately show ?thesis
    using d m by (simp add: list_for_each_def bnd_def cell_run) (subst for_loop.simps, simp add: andthen_def bnd_def cell_run)
qed

section \<open>The interface of a queue of cells\<close>

text \<open>
  What a client of the header relies on that queues cells at the tail and walks the queue:
  \<open>rep s h xs\<close> says that the queue at \<open>h\<close> holds \<open>xs\<close>, \<open>room s n\<close> that \<open>n\<close> is a cell.
\<close>

locale cell_queue =
  fixes prepare :: "addr \<Rightarrow> ('a lmem_scheme, unit) exec" and enq :: "addr \<Rightarrow> addr \<Rightarrow> ('a lmem_scheme, unit) exec"
    and visit :: "addr \<Rightarrow> (addr \<Rightarrow> ('a lmem_scheme, unit) exec) \<Rightarrow> addr \<Rightarrow> ('a lmem_scheme, unit) exec"
    and rep :: "'a lmem_scheme \<Rightarrow> addr \<Rightarrow> addr list \<Rightarrow> bool" and room :: "'a lmem_scheme \<Rightarrow> addr \<Rightarrow> bool"
  assumes prepare_ok: "room s h \<Longrightarrow> \<exists>s'. does (prepare h) s s' \<and> rep s' h [] \<and> room s' = room s \<and> dom (cells s') = dom (cells s) \<and> lmem.more s' = lmem.more s"
    and enq_ok: "rep s h xs \<Longrightarrow> room s n \<Longrightarrow> n \<notin> set (h # xs) \<Longrightarrow>
      \<exists>s'. does (enq n h) s s' \<and> rep s' h (xs @ [n]) \<and> room s' = room s \<and> dom (cells s') = dom (cells s) \<and> lmem.more s' = lmem.more s"
    and visit_ok: "rep s h xs \<Longrightarrow> (\<And>p. keeps cells (body p)) \<Longrightarrow>
      visit off body h s = run_all body (map (\<lambda>p. p - off) xs) s"
begin

lemma enq_all:
  assumes "rep s h xs" "\<forall>n\<in>set ns. room s n" "distinct ns" "set ns \<inter> set (h # xs) = {}"
  shows "\<exists>s'. does (run_all (\<lambda>n. enq n h) ns) s s' \<and> rep s' h (xs @ ns) \<and> lmem.more s' = lmem.more s"
  using assms
proof (induction ns arbitrary: s xs)
  case (Cons n ns)
  obtain s1 where s1: "does (enq n h) s s1" "rep s1 h (xs @ [n])" "room s1 = room s" "lmem.more s1 = lmem.more s"
    using enq_ok [of s h xs n] Cons.prems by auto
  obtain s' where "does (run_all (\<lambda>n. enq n h) ns) s1 s'" "rep s' h ((xs @ [n]) @ ns)" "lmem.more s' = lmem.more s1"
    using Cons.IH [OF s1(2)] Cons.prems s1(3) by auto
  then show ?case using s1 by (auto simp: andthen_def bnd_def)
qed (simp add: ret_def)

text \<open>First in, first out.\<close>

lemma fifo:
  assumes "room s h" "\<forall>n\<in>set ns. room s n" "distinct (h # ns)" "\<And>p. keeps cells (body p)"
  shows "\<exists>s'. does (andthen (prepare h) (run_all (\<lambda>n. enq n h) ns)) s s' \<and> rep s' h ns \<and> lmem.more s' = lmem.more s \<and>
    visit off body h s' = run_all body (map (\<lambda>p. p - off) ns) s'"
proof -
  obtain s1 where s1: "does (prepare h) s s1" "rep s1 h []" "room s1 = room s" "lmem.more s1 = lmem.more s"
    using prepare_ok [OF assms(1)] by blast
  obtain s' where "does (run_all (\<lambda>n. enq n h) ns) s1 s'" "rep s' h ns" "lmem.more s' = lmem.more s1"
    using enq_all [OF s1(2), of ns] assms(2,3) s1(3) by auto
  then show ?thesis using s1 visit_ok [OF _ assms(4)] by (auto simp: andthen_def bnd_def)
qed

end

interpretation ring_queue: cell_queue INIT_LIST_HEAD list_add_tail list_for_each_entry "\<lambda>s h xs. cyc s (h # xs)" mem
proof
  show "\<exists>s'. does (INIT_LIST_HEAD h) s s' \<and> cyc s' (h # []) \<and> mem s' = mem s \<and> dom (cells s') = dom (cells s) \<and> lmem.more s' = lmem.more s"
    if "mem s h" for s :: "'a lmem_scheme" and h
    using INIT_LIST_HEAD_cyc [OF that] by (auto simp: within_def fun_eq_iff mem_def)
  show "\<exists>s'. does (list_add_tail n h) s s' \<and> cyc s' (h # xs @ [n]) \<and> mem s' = mem s \<and> dom (cells s') = dom (cells s) \<and> lmem.more s' = lmem.more s"
    if "cyc s (h # xs)" "mem s n" "n \<notin> set (h # xs)" for s :: "'a lmem_scheme" and h xs n
    using list_add_tail_cyc [OF that] by (auto simp: within_def fun_eq_iff mem_def)
  show "list_for_each_entry off body h s = run_all body (map (\<lambda>p. p - off) xs) s"
    if "cyc s (h # xs)" "\<And>p. keeps cells (body p)" for s :: "'a lmem_scheme" and h xs body off
    using that by (rule list_for_each_entry_all)
qed

end
