(* ===== verification/Hlists.thy ===== *)
theory Hlists
  imports Walk
begin

text \<open>
  The second half of \<open>list.h\<close>: lists with a head of one pointer (\<open>struct hlist_head\<close>), whose
  nodes point to the next node and to the pointer that points at them (\<open>pprev\<close>, a pointer to
  a pointer).  Such a pointer variable is a \<open>slot\<close>: the \<open>first\<close> field of a head or the
  \<open>next\<close> field of a node.  \<open>hlist s h xs\<close> is the abstraction of the list at head \<open>h\<close>.
\<close>

section \<open>Nodes, heads and slots\<close>

datatype slot = FirstOf addr | NextOf addr | PoisonSlot

record hlist_node =
  h_next :: addr
  h_pprev :: "slot option"

record hmem =
  heads :: "addr \<Rightarrow> addr option"
  nodes :: "addr \<Rightarrow> hlist_node option"

definition hnode :: "addr \<Rightarrow> ('a hmem_scheme, hlist_node) exec" where
  "hnode p = bnd (gets (\<lambda>s. nodes s p)) (\<lambda>c.
     if p = 0 then crash NullDeref else case c of None \<Rightarrow> crash WildDeref | Some c \<Rightarrow> ret c)"

definition hget_next :: "addr \<Rightarrow> ('a hmem_scheme, addr) exec" where
  "hget_next p = bnd (hnode p) (\<lambda>c. ret (h_next c))"

definition hget_pprev :: "addr \<Rightarrow> ('a hmem_scheme, slot option) exec" where
  "hget_pprev p = bnd (hnode p) (\<lambda>c. ret (h_pprev c))"

definition hset_next :: "addr \<Rightarrow> addr \<Rightarrow> ('a hmem_scheme, unit) exec" where
  "hset_next p q = bnd (hnode p) (\<lambda>c. modify (\<lambda>s. s\<lparr>nodes := (nodes s)(p \<mapsto> c\<lparr>h_next := q\<rparr>)\<rparr>))"

definition hset_pprev :: "addr \<Rightarrow> slot option \<Rightarrow> ('a hmem_scheme, unit) exec" where
  "hset_pprev p q = bnd (hnode p) (\<lambda>c. modify (\<lambda>s. s\<lparr>nodes := (nodes s)(p \<mapsto> c\<lparr>h_pprev := q\<rparr>)\<rparr>))"

definition hget_first :: "addr \<Rightarrow> ('a hmem_scheme, addr) exec" where
  "hget_first h = bnd (gets (\<lambda>s. heads s h)) (\<lambda>c.
     if h = 0 then crash NullDeref else case c of None \<Rightarrow> crash WildDeref | Some q \<Rightarrow> ret q)"

definition hset_first :: "addr \<Rightarrow> addr \<Rightarrow> ('a hmem_scheme, unit) exec" where
  "hset_first h q = bnd (hget_first h) (\<lambda>_. modify (\<lambda>s. s\<lparr>heads := (heads s)(h \<mapsto> q)\<rparr>))"

text \<open>The assignment \<open>*pprev = q\<close>.\<close>

definition store_slot :: "slot option \<Rightarrow> addr \<Rightarrow> ('a hmem_scheme, unit) exec" where
  "store_slot pprev q = (case pprev of
       None \<Rightarrow> crash NullDeref
     | Some (FirstOf h) \<Rightarrow> hset_first h q
     | Some (NextOf n) \<Rightarrow> hset_next n q
     | Some PoisonSlot \<Rightarrow> crash WildDeref)"

section \<open>The operations\<close>

definition INIT_HLIST_HEAD :: "addr \<Rightarrow> ('a hmem_scheme, unit) exec" where
  "INIT_HLIST_HEAD h = hset_first h 0"

definition INIT_HLIST_NODE :: "addr \<Rightarrow> ('a hmem_scheme, unit) exec" where
  "INIT_HLIST_NODE h = andthen (hset_next h 0) (hset_pprev h None)"

definition hlist_unhashed :: "addr \<Rightarrow> ('a hmem_scheme, bool) exec" where
  "hlist_unhashed h = bnd (hget_pprev h) (\<lambda>p. ret (p = None))"

definition hlist_empty :: "addr \<Rightarrow> ('a hmem_scheme, bool) exec" where
  "hlist_empty h = bnd (hget_first h) (\<lambda>p. ret (p = 0))"

definition do_hlist_del :: "addr \<Rightarrow> ('a hmem_scheme, unit) exec" where
  "do_hlist_del n =
     bnd (hget_next n) (\<lambda>nxt.
     bnd (hget_pprev n) (\<lambda>pprev.
     andthen (store_slot pprev nxt)
             (if nxt \<noteq> 0 then hset_pprev nxt pprev else ret ())))"

definition hlist_del :: "addr \<Rightarrow> ('a hmem_scheme, unit) exec" where
  "hlist_del n =
     andthen (do_hlist_del n) (andthen (hset_next n LIST_POISON1) (hset_pprev n (Some PoisonSlot)))"

definition hlist_del_init :: "addr \<Rightarrow> ('a hmem_scheme, unit) exec" where
  "hlist_del_init n =
     bnd (hlist_unhashed n) (\<lambda>u.
     if \<not> u then andthen (do_hlist_del n) (INIT_HLIST_NODE n) else ret ())"

definition hlist_add_head :: "addr \<Rightarrow> addr \<Rightarrow> ('a hmem_scheme, unit) exec" where
  "hlist_add_head n h =
     bnd (hget_first h) (\<lambda>first.
     andthen (hset_next n first) (
     andthen (if first \<noteq> 0 then hset_pprev first (Some (NextOf n)) else ret ()) (
     andthen (hset_first h n)
             (hset_pprev n (Some (FirstOf h))))))"

definition hlist_add_before :: "addr \<Rightarrow> addr \<Rightarrow> ('a hmem_scheme, unit) exec" where
  "hlist_add_before n nxt =
     andthen (bnd (hget_pprev nxt) (hset_pprev n)) (
     andthen (hset_next n nxt) (
     andthen (hset_pprev nxt (Some (NextOf n)))
             (bnd (hget_pprev n) (\<lambda>pp. store_slot pp n))))"

definition hlist_add_after :: "addr \<Rightarrow> addr \<Rightarrow> ('a hmem_scheme, unit) exec" where
  "hlist_add_after n nxt =
     andthen (bnd (hget_next n) (hset_next nxt)) (
     andthen (hset_next n nxt) (
     andthen (hset_pprev nxt (Some (NextOf n)))
             (bnd (hget_next nxt) (\<lambda>q. if q \<noteq> 0 then hset_pprev q (Some (NextOf nxt)) else ret ()))))"

definition hlist_add_fake :: "addr \<Rightarrow> ('a hmem_scheme, unit) exec" where
  "hlist_add_fake n = hset_pprev n (Some (NextOf n))"

definition hlist_move_list :: "addr \<Rightarrow> addr \<Rightarrow> ('a hmem_scheme, unit) exec" where
  "hlist_move_list old neew =
     andthen (bnd (hget_first old) (hset_first neew)) (
     andthen (bnd (hget_first neew) (\<lambda>q. if q \<noteq> 0 then hset_pprev q (Some (FirstOf neew)) else ret ()))
             (hset_first old 0))"

section \<open>The loops\<close>

definition hlist_for_each :: "(addr \<Rightarrow> ('a hmem_scheme, unit) exec) \<Rightarrow> addr \<Rightarrow> ('a hmem_scheme, unit) exec" where
  "hlist_for_each body head = bnd (hget_first head) (for_loop (\<lambda>pos. pos \<noteq> 0) hget_next body)"

text \<open>The \<open>_safe\<close> loops fetch the successor in the loop condition.\<close>

partial_function (option) hsafe_loop ::
  "addr \<Rightarrow> (addr \<Rightarrow> ('a hmem_scheme, unit) exec) \<Rightarrow> addr \<Rightarrow> 'a hmem_scheme \<Rightarrow> (fault + unit \<times> 'a hmem_scheme) option" where
  "hsafe_loop off body pos s =
     (if pos = 0 then ret () else
      bnd (hget_next (pos + off)) (\<lambda>n.
      andthen (body pos) (hsafe_loop off body (if n \<noteq> 0 then n - off else 0)))) s"

definition hlist_entry :: "addr \<Rightarrow> addr \<Rightarrow> addr" where
  "hlist_entry p off = p - off"

definition hlist_entry_safe :: "addr \<Rightarrow> addr \<Rightarrow> addr" where
  "hlist_entry_safe p off = (if p \<noteq> 0 then hlist_entry p off else 0)"

definition hlist_for_each_safe :: "(addr \<Rightarrow> ('a hmem_scheme, unit) exec) \<Rightarrow> addr \<Rightarrow> ('a hmem_scheme, unit) exec" where
  "hlist_for_each_safe body head = bnd (hget_first head) (hsafe_loop 0 body)"

definition hnext_entry :: "addr \<Rightarrow> addr \<Rightarrow> ('a hmem_scheme, addr) exec" where
  "hnext_entry off pos = bnd (hget_next (pos + off)) (\<lambda>q. ret (hlist_entry_safe q off))"

definition hlist_for_each_entry :: "addr \<Rightarrow> (addr \<Rightarrow> ('a hmem_scheme, unit) exec) \<Rightarrow> addr \<Rightarrow> ('a hmem_scheme, unit) exec" where
  "hlist_for_each_entry off body head =
     bnd (bnd (hget_first head) (\<lambda>q. ret (hlist_entry_safe q off)))
       (for_loop (\<lambda>pos. pos \<noteq> 0) (hnext_entry off) body)"

definition hlist_for_each_entry_continue ::
  "addr \<Rightarrow> (addr \<Rightarrow> ('a hmem_scheme, unit) exec) \<Rightarrow> addr \<Rightarrow> ('a hmem_scheme, unit) exec" where
  "hlist_for_each_entry_continue off body pos =
     bnd (hnext_entry off pos) (for_loop (\<lambda>pos. pos \<noteq> 0) (hnext_entry off) body)"

definition hlist_for_each_entry_from ::
  "addr \<Rightarrow> (addr \<Rightarrow> ('a hmem_scheme, unit) exec) \<Rightarrow> addr \<Rightarrow> ('a hmem_scheme, unit) exec" where
  "hlist_for_each_entry_from off body pos = for_loop (\<lambda>pos. pos \<noteq> 0) (hnext_entry off) body pos"

definition hlist_for_each_entry_safe :: "addr \<Rightarrow> (addr \<Rightarrow> ('a hmem_scheme, unit) exec) \<Rightarrow> addr \<Rightarrow> ('a hmem_scheme, unit) exec" where
  "hlist_for_each_entry_safe off body head =
     bnd (bnd (hget_first head) (\<lambda>q. ret (hlist_entry_safe q off))) (hsafe_loop off body)"

section \<open>Slots as variables\<close>

definition hn :: "'a hmem_scheme \<Rightarrow> addr \<Rightarrow> bool" where
  "hn s p \<longleftrightarrow> p \<noteq> 0 \<and> p \<in> dom (nodes s)"

fun rd :: "'a hmem_scheme \<Rightarrow> slot \<Rightarrow> addr option" where
  "rd s (FirstOf h) = (if h = 0 then None else heads s h)"
| "rd s (NextOf n) = (if n = 0 then None else map_option h_next (nodes s n))"
| "rd s PoisonSlot = None"

definition pp :: "'a hmem_scheme \<Rightarrow> addr \<Rightarrow> slot option" where
  "pp s p = h_pprev (the (nodes s p))"

fun wr :: "slot \<Rightarrow> addr \<Rightarrow> 'a hmem_scheme \<Rightarrow> 'a hmem_scheme" where
  "wr (FirstOf h) v s = s\<lparr>heads := (heads s)(h \<mapsto> v)\<rparr>"
| "wr (NextOf n) v s = s\<lparr>nodes := (nodes s)(n \<mapsto> (the (nodes s n))\<lparr>h_next := v\<rparr>)\<rparr>"
| "wr PoisonSlot v s = s"

definition with_pp :: "addr \<Rightarrow> slot option \<Rightarrow> 'a hmem_scheme \<Rightarrow> 'a hmem_scheme" where
  "with_pp n v s = s\<lparr>nodes := (nodes s)(n \<mapsto> (the (nodes s n))\<lparr>h_pprev := v\<rparr>)\<rparr>"

named_theorems slot_run \<open>loads and stores on nodes and heads that exist\<close>

lemma hn_rd: "hn s n \<Longrightarrow> \<exists>q. rd s (NextOf n) = Some q"
  by (auto simp: hn_def)

lemma rd_hn: "rd s (NextOf n) = Some q \<Longrightarrow> hn s n"
  by (auto simp: hn_def split: if_splits)

lemma hget_next_run [slot_run]: "rd s (NextOf n) = Some q \<Longrightarrow> hget_next n s = Some (Inr (q, s))"
  by (auto simp: hget_next_def hnode_def exec_defs split: if_splits)

lemma hget_first_run [slot_run]: "rd s (FirstOf h) = Some q \<Longrightarrow> hget_first h s = Some (Inr (q, s))"
  by (auto simp: hget_first_def exec_defs split: if_splits)

lemma hget_pprev_run [slot_run]: "hn s n \<Longrightarrow> hget_pprev n s = Some (Inr (pp s n, s))"
  by (auto simp: hget_pprev_def hnode_def hn_def pp_def exec_defs)

lemma hset_next_run [slot_run]: "hn s n \<Longrightarrow> hset_next n v s = Some (Inr ((), wr (NextOf n) v s))"
  by (auto simp: hset_next_def hnode_def hn_def exec_defs)

lemma hset_first_run [slot_run]: "rd s (FirstOf h) = Some q \<Longrightarrow> hset_first h v s = Some (Inr ((), wr (FirstOf h) v s))"
  by (simp add: hset_first_def hget_first_run bnd_def modify_def)

lemma hset_pprev_run [slot_run]: "hn s n \<Longrightarrow> hset_pprev n v s = Some (Inr ((), with_pp n v s))"
  by (auto simp: hset_pprev_def hnode_def hn_def with_pp_def exec_defs)

lemma store_slot_run [slot_run]: "rd s sl = Some q \<Longrightarrow> store_slot (Some sl) v s = Some (Inr ((), wr sl v s))"
  by (cases sl) (simp_all add: store_slot_def hset_first_run hset_next_run rd_hn del: rd.simps(1,2) wr.simps)

lemma rd_wr [simp]: "rd s sl = Some q \<Longrightarrow> rd (wr sl v s) sl' = (if sl' = sl then Some v else rd s sl')"
  by (cases sl; cases sl') (auto split: if_splits)

lemma pp_wr [simp]: "pp (wr sl v s) n = pp s n"
  by (cases sl) (auto simp: pp_def)

lemma hn_wr [simp]: "rd s sl = Some q \<Longrightarrow> hn (wr sl v s) n = hn s n"
  by (cases sl) (auto simp: hn_def split: if_splits)

lemma rd_with_pp [simp]: "hn s n \<Longrightarrow> rd (with_pp n v s) sl = rd s sl"
  by (cases sl) (auto simp: with_pp_def hn_def)

lemma pp_with_pp [simp]: "pp (with_pp n v s) m = (if m = n then v else pp s m)"
  by (simp add: pp_def with_pp_def)

lemma hn_with_pp [simp]: "hn s n \<Longrightarrow> hn (with_pp n v s) m = hn s m"
  by (auto simp: hn_def with_pp_def)

declare rd.simps [simp del] wr.simps [simp del]

section \<open>Chains\<close>

text \<open>\<open>hseg s sl xs\<close>: following the pointer in \<open>sl\<close> visits \<open>xs\<close>; \<open>ends sl xs\<close> is the slot where the visit ends.\<close>

fun hseg :: "'a hmem_scheme \<Rightarrow> slot \<Rightarrow> addr list \<Rightarrow> bool" where
  "hseg s sl [] \<longleftrightarrow> True"
| "hseg s sl (x # xs) \<longleftrightarrow> rd s sl = Some x \<and> hn s x \<and> pp s x = Some sl \<and> hseg s (NextOf x) xs"

fun ends :: "slot \<Rightarrow> addr list \<Rightarrow> slot" where
  "ends sl [] = sl"
| "ends sl (x # xs) = ends (NextOf x) xs"

definition hchain :: "'a hmem_scheme \<Rightarrow> slot \<Rightarrow> addr list \<Rightarrow> bool" where
  "hchain s sl xs \<longleftrightarrow> hseg s sl xs \<and> rd s (ends sl xs) = Some 0"

definition hlist :: "'a hmem_scheme \<Rightarrow> addr \<Rightarrow> addr list \<Rightarrow> bool" where
  "hlist s h xs \<longleftrightarrow> distinct xs \<and> hchain s (FirstOf h) xs"

lemma hseg_append: "hseg s sl (xs @ ys) \<longleftrightarrow> hseg s sl xs \<and> hseg s (ends sl xs) ys"
  by (induction xs arbitrary: sl) auto

lemma ends_append: "ends sl (xs @ ys) = ends (ends sl xs) ys"
  by (induction xs arbitrary: sl) auto

lemma ends_cases: "ends sl xs = sl \<and> xs = [] \<or> (\<exists>x\<in>set xs. ends sl xs = NextOf x)"
proof (induction xs arbitrary: sl)
  case (Cons x xs)
  then show ?case using Cons.IH [of "NextOf x"] by auto
qed simp

lemma hchain_append: "hchain s sl (xs @ ys) \<longleftrightarrow> hseg s sl xs \<and> hchain s (ends sl xs) ys"
  by (simp add: hchain_def hseg_append ends_append)

lemma hchain_Cons: "hchain s sl (x # xs) \<longleftrightarrow> rd s sl = Some x \<and> hn s x \<and> pp s x = Some sl \<and> hchain s (NextOf x) xs"
  by (auto simp: hchain_def)

lemma hchain_Nil: "hchain s sl [] \<longleftrightarrow> rd s sl = Some 0"
  by (simp add: hchain_def)

lemma hseg_cong:
  assumes "xs \<noteq> [] \<Longrightarrow> rd s' sl = rd s sl" "\<And>x. x \<in> set (butlast xs) \<Longrightarrow> rd s' (NextOf x) = rd s (NextOf x)"
    "\<And>x. x \<in> set xs \<Longrightarrow> pp s' x = pp s x" "\<And>x. x \<in> set xs \<Longrightarrow> hn s' x = hn s x"
  shows "hseg s' sl xs = hseg s sl xs"
  using assms
proof (induction xs arbitrary: sl)
  case (Cons x xs)
  have "hseg s' (NextOf x) xs = hseg s (NextOf x) xs"
  proof (rule Cons.IH)
    show "rd s' (NextOf x) = rd s (NextOf x)" if "xs \<noteq> []" using Cons.prems(2) [of x] that by simp
    show "rd s' (NextOf y) = rd s (NextOf y)" if "y \<in> set (butlast xs)" for y
      using Cons.prems(2) [of y] that by (cases xs) auto
  qed (use Cons.prems in auto)
  then show ?case using Cons.prems by auto
qed simp

lemma hchain_cong:
  assumes "rd s' sl = rd s sl" "\<And>x. x \<in> set xs \<Longrightarrow> rd s' (NextOf x) = rd s (NextOf x)"
    "\<And>x. x \<in> set xs \<Longrightarrow> pp s' x = pp s x" "\<And>x. x \<in> set xs \<Longrightarrow> hn s' x = hn s x"
  shows "hchain s' sl xs = hchain s sl xs"
proof -
  have "hseg s' sl xs = hseg s sl xs" using assms by (intro hseg_cong) (auto dest: in_set_butlastD)
  moreover have "rd s' (ends sl xs) = rd s (ends sl xs)" using ends_cases [of sl xs] assms by auto
  ultimately show ?thesis by (simp add: hchain_def)
qed

lemma hseg_last: "hseg s sl xs \<Longrightarrow> distinct xs \<Longrightarrow> ends sl xs \<notin> NextOf ` set (butlast xs)"
  by (cases xs rule: rev_cases) (auto simp: ends_append)

section \<open>The operations on chains\<close>

text \<open>Two chains one after the other, of which only the second was rebuilt.\<close>

lemma hchain_join:
  assumes seg: "hseg s sl xs" and d: "distinct xs" and sl: "sl \<notin> NextOf ` set xs" and tl: "hchain s' (ends sl xs) ys"
    and rd: "\<And>p. p \<noteq> ends sl xs \<Longrightarrow> p \<in> insert sl (NextOf ` set xs) \<Longrightarrow> rd s' p = rd s p"
    and "\<And>x. x \<in> set xs \<Longrightarrow> pp s' x = pp s x" "\<And>x. x \<in> set xs \<Longrightarrow> hn s' x = hn s x"
  shows "hchain s' sl (xs @ ys)"
proof -
  have "hseg s' sl xs = hseg s sl xs"
  proof (rule hseg_cong)
    show "rd s' sl = rd s sl" if "xs \<noteq> []"
      using rd [of sl] ends_cases [of sl xs] that sl by (metis imageI insertI1)
    show "rd s' (NextOf x) = rd s (NextOf x)" if "x \<in> set (butlast xs)" for x
      using rd [of "NextOf x"] hseg_last [OF seg d] that by (metis imageI in_set_butlastD insertCI)
  qed (use assms in auto)
  then show ?thesis using seg tl by (simp add: hchain_append)
qed

lemma hlist_split:
  assumes "hlist s h (xs @ ys)"
  shows "hseg s (FirstOf h) xs" "hchain s (ends (FirstOf h) xs) ys" "distinct xs" "distinct ys" "set xs \<inter> set ys = {}"
    "ends (FirstOf h) xs \<notin> NextOf ` set ys"
  using assms ends_cases [of "FirstOf h" xs] by (auto simp: hlist_def hchain_append)

lemma hlist_join:
  assumes "hlist s h (xs @ zs)" and tl: "hchain s' (ends (FirstOf h) xs) ys"
    and "\<And>p. p \<noteq> ends (FirstOf h) xs \<Longrightarrow> p \<in> insert (FirstOf h) (NextOf ` set xs) \<Longrightarrow> rd s' p = rd s p"
    and "\<And>x. x \<in> set xs \<Longrightarrow> pp s' x = pp s x" "\<And>x. x \<in> set xs \<Longrightarrow> hn s' x = hn s x"
    and "distinct ys" "set xs \<inter> set ys = {}"
  shows "hlist s' h (xs @ ys)"
  unfolding hlist_def using hlist_split [OF assms(1)] assms by (auto intro!: hchain_join [of s])

lemma hlist_add_head_ok:
  assumes l: "hlist s h xs" and n: "hn s n" "n \<notin> set xs"
  shows "\<exists>s'. does (hlist_add_head n h) s s' \<and> hlist s' h (n # xs)"
proof -
  obtain q where q: "rd s (NextOf n) = Some q" using hn_rd [OF n(1)] by blast
  show ?thesis
  proof (cases xs)
    case Nil
    then have f: "rd s (FirstOf h) = Some 0" using l by (simp add: hlist_def hchain_Nil)
    let ?s = "with_pp n (Some (FirstOf h)) (wr (FirstOf h) n (wr (NextOf n) 0 s))"
    have f2: "rd (wr (NextOf n) 0 s) (FirstOf h) = Some 0" using q f by simp
    have "does (hlist_add_head n h) s ?s"
      using f f2 q n by (simp add: hlist_add_head_def andthen_def bnd_def slot_run ret_def)
    moreover have "hlist ?s h (n # xs)" using Nil f f2 q n by (simp add: hlist_def hchain_Cons hchain_Nil)
    ultimately show ?thesis by blast
  next
    case (Cons x ys)
    have f: "rd s (FirstOf h) = Some x" "hn s x" "pp s x = Some (FirstOf h)" "hchain s (NextOf x) ys" "x \<noteq> 0" "x \<noteq> n"
      using l Cons n by (auto simp: hlist_def hchain_Cons hn_def)
    let ?s1 = "with_pp x (Some (NextOf n)) (wr (NextOf n) x s)"
    let ?s = "with_pp n (Some (FirstOf h)) (wr (FirstOf h) n ?s1)"
    have f2: "rd ?s1 (FirstOf h) = Some x" using q f by simp
    have "does (hlist_add_head n h) s ?s"
      using f f2 q n by (simp add: hlist_add_head_def andthen_def bnd_def slot_run ret_def)
    moreover have "hchain ?s (NextOf x) ys"
      using f(4) by (subst hchain_cong [of _ _ s]) (use f f2 q n l Cons in \<open>auto simp: hlist_def\<close>)
    then have "hlist ?s h (n # xs)" using Cons l f f2 q n by (simp add: hlist_def hchain_Cons)
    ultimately show ?thesis by blast
  qed
qed

text \<open>Unlinking a node.\<close>

lemma do_hlist_del_ok:
  assumes l: "hlist s h (xs @ n # ys)"
  shows "\<exists>s'. does (do_hlist_del n) s s' \<and> hlist s' h (xs @ ys) \<and> hn s' n"
proof -
  let ?sl = "ends (FirstOf h) xs"
  note sp = hlist_split [OF l]
  have n: "rd s ?sl = Some n" "hn s n" "pp s n = Some ?sl" "hchain s (NextOf n) ys" "?sl \<noteq> NextOf n"
    using sp by (auto simp: hchain_Cons)
  obtain q where q: "rd s (NextOf n) = Some q" using hn_rd [OF n(2)] by blast
  let ?s1 = "wr ?sl q s"
  show ?thesis
  proof (cases ys)
    case Nil
    then have z: "q = 0" using n(4) q by (simp add: hchain_Nil)
    have "hlist ?s1 h (xs @ ys)" using n sp z Nil by (intro hlist_join [OF l]) (auto simp: hchain_Nil)
    moreover have "does (do_hlist_del n) s ?s1"
      using n q z by (simp add: do_hlist_del_def andthen_def bnd_def slot_run ret_def)
    ultimately show ?thesis using n by auto
  next
    case (Cons y zs)
    then have y: "q = y" "hn s y" "y \<noteq> 0" "hchain s (NextOf y) zs" "y \<noteq> n" "y \<notin> set zs" "n \<notin> set zs"
      using n(4) q sp by (auto simp: hchain_Cons hn_def)
    let ?s = "with_pp y (Some ?sl) ?s1"
    have sl: "?sl \<notin> NextOf ` set ys" using sp(6) by auto
    have "hchain ?s (NextOf y) zs"
      using y(4) by (subst hchain_cong [of _ _ s]) (use y n sl Cons in \<open>auto simp: image_iff\<close>)
    then have "hchain ?s ?sl ys" using Cons y n by (simp add: hchain_Cons)
    then have "hlist ?s h (xs @ ys)" using n sp y Cons by (intro hlist_join [OF l]) auto
    moreover have "does (do_hlist_del n) s ?s"
      using n q y by (simp add: do_hlist_del_def andthen_def bnd_def slot_run ret_def)
    ultimately show ?thesis using n y by auto
  qed
qed

lemma hlist_within_node:
  assumes "hlist s h xs" "n \<notin> set xs" "hn s n" "\<And>sl. sl \<noteq> NextOf n \<Longrightarrow> rd s' sl = rd s sl"
    "\<And>m. m \<noteq> n \<Longrightarrow> pp s' m = pp s m" "\<And>m. hn s' m = hn s m"
  shows "hlist s' h xs"
proof -
  have "hchain s' (FirstOf h) xs = hchain s (FirstOf h) xs"
  proof (rule hchain_cong)
    fix x assume "x \<in> set xs"
    then have "x \<noteq> n" using assms(2) by auto
    then show "rd s' (NextOf x) = rd s (NextOf x)" "pp s' x = pp s x" using assms(4,5) by simp_all
  qed (use assms in auto)
  then show ?thesis using assms(1) by (simp add: hlist_def)
qed

text \<open>\<open>hlist_del\<close> poisons the node; \<open>hlist_del_init\<close> makes it unhashed, and a second call does nothing.\<close>

lemma hlist_del_ok:
  assumes l: "hlist s h (xs @ n # ys)"
  shows "\<exists>s'. does (hlist_del n) s s' \<and> hlist s' h (xs @ ys) \<and> hn s' n \<and> pp s' n = Some PoisonSlot"
proof -
  obtain s1 where s1: "does (do_hlist_del n) s s1" "hlist s1 h (xs @ ys)" "hn s1 n" using do_hlist_del_ok [OF l] by blast
  obtain q where q: "rd s1 (NextOf n) = Some q" using hn_rd [OF s1(3)] by blast
  let ?s = "with_pp n (Some PoisonSlot) (wr (NextOf n) LIST_POISON1 s1)"
  have "does (hlist_del n) s ?s" using s1 q by (simp add: hlist_del_def andthen_def bnd_def slot_run)
  moreover have "hlist ?s h (xs @ ys)"
    using s1 q hlist_split [OF l] by (intro hlist_within_node [OF s1(2) _ s1(3)]) auto
  ultimately show ?thesis using s1 q by auto
qed

lemma hlist_del_twice: "hn s n \<Longrightarrow> pp s n = Some PoisonSlot \<Longrightarrow> hlist_del n s = Some (Inl WildDeref)"
  using hn_rd [of s n]
  by (auto simp: hlist_del_def do_hlist_del_def andthen_def bnd_def slot_run store_slot_def crash_def)

lemma hlist_del_init_ok:
  assumes l: "hlist s h (xs @ n # ys)"
  shows "\<exists>s'. does (hlist_del_init n) s s' \<and> hlist s' h (xs @ ys) \<and> hn s' n \<and> pp s' n = None"
proof -
  obtain s1 where s1: "does (do_hlist_del n) s s1" "hlist s1 h (xs @ ys)" "hn s1 n" using do_hlist_del_ok [OF l] by blast
  obtain q where q: "rd s1 (NextOf n) = Some q" using hn_rd [OF s1(3)] by blast
  let ?s = "with_pp n None (wr (NextOf n) 0 s1)"
  have n: "hn s n" "pp s n \<noteq> None" using hlist_split(2) [OF l] by (auto simp: hchain_Cons)
  have "does (hlist_del_init n) s ?s"
    using s1 q n by (simp add: hlist_del_init_def hlist_unhashed_def INIT_HLIST_NODE_def andthen_def bnd_def slot_run ret_def)
  moreover have "hlist ?s h (xs @ ys)"
    using s1 q hlist_split [OF l] by (intro hlist_within_node [OF s1(2) _ s1(3)]) auto
  ultimately show ?thesis using s1 q by auto
qed

lemma hlist_del_init_again: "hn s n \<Longrightarrow> pp s n = None \<Longrightarrow> does (hlist_del_init n) s s"
  by (simp add: hlist_del_init_def hlist_unhashed_def bnd_def slot_run ret_def)

text \<open>Inserting next to a node of the list.\<close>

lemma hlist_add_before_ok:
  assumes l: "hlist s h (xs @ x # ys)" and n: "hn s n" "n \<notin> set (xs @ x # ys)"
  shows "\<exists>s'. does (hlist_add_before n x) s s' \<and> hlist s' h (xs @ n # x # ys)"
proof -
  let ?sl = "ends (FirstOf h) xs"
  note sp = hlist_split [OF l]
  have x: "rd s ?sl = Some x" "hn s x" "pp s x = Some ?sl" "hchain s (NextOf x) ys" "x \<noteq> n" "x \<notin> set ys"
    using sp n by (auto simp: hchain_Cons)
  have sl: "?sl \<noteq> NextOf n" "?sl \<noteq> NextOf x" "?sl \<notin> NextOf ` set ys"
    using sp(6) n ends_cases [of "FirstOf h" xs] by auto
  obtain q where q: "rd s (NextOf n) = Some q" using hn_rd [OF n(1)] by blast
  let ?s1 = "with_pp x (Some (NextOf n)) (wr (NextOf n) x (with_pp n (Some ?sl) s))"
  let ?s = "wr ?sl n ?s1"
  have f: "rd ?s1 ?sl = Some x" using x q sl n by simp
  have "does (hlist_add_before n x) s ?s"
    using x q f sl n by (simp add: hlist_add_before_def andthen_def bnd_def slot_run ret_def)
  moreover have "hchain ?s (NextOf x) ys"
    using x(4) by (subst hchain_cong [of _ _ s]) (use x q f sl n in \<open>auto simp: image_iff\<close>)
  then have "hchain ?s ?sl (n # x # ys)" using x q f sl n by (simp add: hchain_Cons)
  then have "hlist ?s h (xs @ n # x # ys)"
    using x q f sl n sp by (intro hlist_join [OF l]) auto
  ultimately show ?thesis by blast
qed

lemma hlist_add_after_ok:
  assumes l: "hlist s h (xs @ n # ys)" and x: "hn s x" "x \<notin> set (xs @ n # ys)"
  shows "\<exists>s'. does (hlist_add_after n x) s s' \<and> hlist s' h (xs @ n # x # ys)"
proof -
  let ?sl = "ends (FirstOf h) xs"
  note sp = hlist_split [OF l]
  have n: "rd s ?sl = Some n" "hn s n" "pp s n = Some ?sl" "hchain s (NextOf n) ys" "x \<noteq> n" "n \<notin> set ys"
    using sp x by (auto simp: hchain_Cons)
  have sl: "?sl \<noteq> NextOf n" "?sl \<noteq> NextOf x" "?sl \<notin> NextOf ` set ys"
    using sp(6) x ends_cases [of "FirstOf h" xs] by auto
  obtain q r where q: "rd s (NextOf n) = Some q" and r: "rd s (NextOf x) = Some r" using hn_rd n(2) x(1) by blast
  let ?s1 = "with_pp x (Some (NextOf n)) (wr (NextOf n) x (wr (NextOf x) q s))"
  show ?thesis
  proof (cases ys)
    case Nil
    then have z: "q = 0" using n(4) q by (simp add: hchain_Nil)
    have "does (hlist_add_after n x) s ?s1"
      using n x q r z by (simp add: hlist_add_after_def andthen_def bnd_def slot_run ret_def)
    moreover have "hlist ?s1 h (xs @ n # x # ys)"
      using n x q r z sl sp Nil by (intro hlist_join [OF l]) (auto simp: hchain_Cons hchain_Nil)
    ultimately show ?thesis by blast
  next
    case (Cons y zs)
    then have y: "q = y" "hn s y" "y \<noteq> 0" "hchain s (NextOf y) zs" "y \<noteq> n" "y \<notin> set zs" "n \<notin> set zs" "y \<noteq> x" "x \<notin> set zs"
      using n(4) q sp x by (auto simp: hchain_Cons hn_def)
    let ?s = "with_pp y (Some (NextOf x)) ?s1"
    have "does (hlist_add_after n x) s ?s"
      using n x q r y by (simp add: hlist_add_after_def andthen_def bnd_def slot_run ret_def)
    moreover have "hchain ?s (NextOf y) zs"
      using y(4) by (subst hchain_cong [of _ _ s]) (use y n x q r in auto)
    then have "hchain ?s ?sl (n # x # ys)" using Cons y n x q r sl by (simp add: hchain_Cons)
    then have "hlist ?s h (xs @ n # x # ys)"
      using n x q r y sl sp Cons by (intro hlist_join [OF l]) auto
    ultimately show ?thesis by blast
  qed
qed

text \<open>The whole list goes to another head.\<close>

lemma hlist_move_list_ok:
  assumes l: "hlist s old xs" and k: "rd s (FirstOf neew) = Some q" and ne: "old \<noteq> neew"
  shows "\<exists>s'. does (hlist_move_list old neew) s s' \<and> hlist s' neew xs \<and> hlist s' old []"
proof (cases xs)
  case Nil
  then have f: "rd s (FirstOf old) = Some 0" using l by (simp add: hlist_def hchain_Nil)
  let ?s = "wr (FirstOf old) 0 (wr (FirstOf neew) 0 s)"
  have f2: "rd (wr (FirstOf neew) 0 s) (FirstOf old) = Some 0" using f k ne by simp
  have "does (hlist_move_list old neew) s ?s"
    using f f2 k ne by (simp add: hlist_move_list_def andthen_def bnd_def slot_run ret_def)
  then show ?thesis using Nil f2 k ne by (simp add: hlist_def hchain_Nil)
next
  case (Cons x ys)
  have f: "rd s (FirstOf old) = Some x" "hn s x" "hchain s (NextOf x) ys" "x \<noteq> 0" "x \<notin> set ys"
    using l Cons by (auto simp: hlist_def hchain_Cons hn_def)
  let ?s1 = "with_pp x (Some (FirstOf neew)) (wr (FirstOf neew) x s)"
  let ?s = "wr (FirstOf old) 0 ?s1"
  have f2: "rd ?s1 (FirstOf old) = Some x" using f k ne by simp
  have "does (hlist_move_list old neew) s ?s"
    using f f2 k ne by (simp add: hlist_move_list_def andthen_def bnd_def slot_run ret_def)
  moreover have "hchain ?s (NextOf x) ys"
    using f(3) by (subst hchain_cong [of _ _ s]) (use f f2 k ne in auto)
  then have "hlist ?s neew xs" "hlist ?s old []"
    using Cons l f f2 k ne by (auto simp: hlist_def hchain_Cons hchain_Nil)
  ultimately show ?thesis by blast
qed

section \<open>Walking a chain\<close>

definition hview :: "'a hmem_scheme \<Rightarrow> (addr \<Rightarrow> addr option) \<times> (addr \<Rightarrow> hlist_node option)" where
  "hview s = (heads s, nodes s)"

lemma rd_view: "hview s' = hview s \<Longrightarrow> rd s' sl = rd s sl"
  by (cases sl) (simp_all add: hview_def rd.simps)

lemma hget_next_inv: "hget_next p s = Some (Inr (q, s'')) \<Longrightarrow> rd s (NextOf p) = Some q"
  by (auto simp: hget_next_def hnode_def exec_defs rd.simps split: if_splits option.splits)

lemma hget_next_view:
  "hget_next p s = Some (Inr (q, s)) \<Longrightarrow> hview s' = hview s \<Longrightarrow> hget_next p s' = Some (Inr (q, s'))"
  using hget_next_inv [of p s q s] rd_view [of s' s "NextOf p"] by (intro hget_next_run) simp

lemma reads_hnext: "reads_only hview (hnext_entry off)"
  unfolding reads_only_def hnext_entry_def
  by (auto simp: ret_def elim!: bndE dest: hget_next_inv) (frule hget_next_inv, drule hget_next_run,
    simp add: hget_next_run, drule (1) hget_next_view, simp add: bnd_def)

lemma hwalk:
  assumes "hchain s sl xs" "\<forall>x\<in>set xs. x \<noteq> off"
  shows "\<exists>q. rd s sl = Some q \<and>
    walk (\<lambda>p. p \<noteq> 0) (hnext_entry off) s (hlist_entry_safe q off) (map (\<lambda>p. p - off) xs)"
  using assms
proof (induction xs arbitrary: sl)
  case Nil
  then show ?case by (simp add: hchain_Nil hlist_entry_safe_def)
next
  case (Cons x xs)
  then have x: "rd s sl = Some x" "x \<noteq> 0" "hchain s (NextOf x) xs" by (auto simp: hchain_Cons hn_def)
  obtain q where q: "rd s (NextOf x) = Some q"
    "walk (\<lambda>p. p \<noteq> 0) (hnext_entry off) s (hlist_entry_safe q off) (map (\<lambda>p. p - off) xs)"
    using Cons.IH [OF x(3)] Cons.prems by auto
  have "hnext_entry off (x - off) s = Some (Inr (hlist_entry_safe q off, s))"
    using q(1) by (simp add: hnext_entry_def bnd_def slot_run ret_def)
  then show ?case using x q(2) Cons.prems by (simp add: hlist_entry_safe_def hlist_entry_def)
qed

text \<open>The structure that holds a node does not start at address \<open>0\<close>.\<close>

lemma hlist_for_each_entry_all:
  assumes l: "hlist s h xs" and "\<forall>x\<in>set xs. x \<noteq> off" and k: "\<And>p. keeps hview (body p)"
  shows "hlist_for_each_entry off body h s = run_all body (map (\<lambda>p. p - off) xs) s"
  using hwalk [of s "FirstOf h" xs off] l assms(2) for_loop_walk [OF k reads_hnext]
  by (auto simp: hlist_def hlist_for_each_entry_def bnd_def slot_run ret_def)

lemma hlist_for_each_all:
  assumes l: "hlist s h xs" and k: "\<And>p. keeps hview (body p)"
  shows "hlist_for_each body h s = run_all body xs s"
proof -
  have "\<forall>x\<in>set xs. x \<noteq> 0"
  proof -
    have "hseg s sl xs \<Longrightarrow> \<forall>x\<in>set xs. x \<noteq> 0" for sl by (induction xs arbitrary: sl) (auto simp: hn_def)
    then show ?thesis using l by (auto simp: hlist_def hchain_def)
  qed
  moreover have "hlist_for_each body h = hlist_for_each_entry 0 body h"
  proof -
    have "hlist_entry_safe q 0 = q" for q by (simp add: hlist_entry_safe_def hlist_entry_def)
    then show ?thesis
      by (simp add: hlist_for_each_def hlist_for_each_entry_def hnext_entry_def [abs_def] eta_contract_eq)
  qed
  ultimately show ?thesis using hlist_for_each_entry_all [OF l _ k, of 0] by simp
qed

text \<open>Deleting every node from its own loop.\<close>

lemma hlist_delete_all:
  assumes "hlist s h xs"
  shows "\<exists>s'. does (hlist_for_each_safe hlist_del h) s s' \<and> hlist s' h []"
proof -
  have "\<exists>s'. does (hsafe_loop 0 hlist_del q) s s' \<and> hlist s' h []"
    if "hlist s h xs" "rd s (FirstOf h) = Some q" for q and s :: "'a hmem_scheme"
    using that
  proof (induction xs arbitrary: s q)
    case Nil
    then have "q = 0" by (simp add: hlist_def hchain_Nil)
    then show ?case using Nil by (subst hsafe_loop.simps) (simp add: ret_def)
  next
    case (Cons x xs)
    have x: "q = x" "x \<noteq> 0" "hn s x" "hchain s (NextOf x) xs" using Cons.prems by (auto simp: hlist_def hchain_Cons hn_def)
    obtain r where r: "rd s (NextOf x) = Some r" using hn_rd [OF x(3)] by blast
    obtain s1 where s1: "does (hlist_del x) s s1" "hlist s1 h xs" using hlist_del_ok [of s h "[]" x xs] Cons.prems by auto
    have "rd s1 (FirstOf h) = Some r" using x(4) r s1(2) by (cases xs) (auto simp: hlist_def hchain_Nil hchain_Cons)
    then obtain s' where "does (hsafe_loop 0 hlist_del r) s1 s'" "hlist s' h []" using Cons.IH [OF s1(2)] by blast
    then show ?case using x r s1 by (subst hsafe_loop.simps) (auto simp: bnd_def andthen_def slot_run)
  qed
  moreover obtain q where "rd s (FirstOf h) = Some q"
    using assms by (cases xs) (auto simp: hlist_def hchain_Nil hchain_Cons)
  ultimately show ?thesis using assms by (auto simp: hlist_for_each_safe_def bnd_def slot_run)
qed

end
