(* ===== verification/Atomics.thy ===== *)
theory Atomics
  imports State "HOL-Library.Multiset"
begin

unbundle bit_operations_syntax

text \<open>
  The atomic operations of \<open>include/utils/atomic.h\<close>: the \<open>__sync\<close> built-ins behind a test of the
  alignment, which throws.  The functions are templates over the type of the variable; here the
  type is a word of any length.  A variable is its address and how to read and write it in the
  state of the program; the contract of such a pair is the locale \<open>cell\<close>.
\<close>

section \<open>The operations\<close>

record ('s, 'v) atom =
  a_addr :: addr
  a_get :: "'s \<Rightarrow> 'v"
  a_set :: "'v \<Rightarrow> 's \<Rightarrow> 's"

text \<open>\<open>(uintptr_t)addr & (sizeof(T) - 1)\<close>\<close>

definition misaligned :: "('s, 'a :: len word) atom \<Rightarrow> bool" where
  "misaligned x \<longleftrightarrow> a_addr x AND (of_nat (LENGTH('a) div 8) - 1) \<noteq> 0"

text \<open>The built-ins: one step that replaces the value by a function of it and returns the old one.\<close>

definition sync_fetch :: "('v \<Rightarrow> 'v) \<Rightarrow> ('s, 'v) atom \<Rightarrow> ('s, 'v) exec" where
  "sync_fetch f x = (\<lambda>s. Some (Inr (a_get x s, a_set x (f (a_get x s)) s)))"

definition atomic_read :: "('s, 'a :: len word) atom \<Rightarrow> ('s, 'a word) exec" where
  "atomic_read x = (if misaligned x then crash Thrown else sync_fetch (\<lambda>v. v OR 0) x)"

definition atomic_fetch_and_or :: "('s, 'a :: len word) atom \<Rightarrow> 'a word \<Rightarrow> ('s, 'a word) exec" where
  "atomic_fetch_and_or x val = (if misaligned x then crash Thrown else sync_fetch (\<lambda>v. v OR val) x)"

definition atomic_fetch_and_and :: "('s, 'a :: len word) atom \<Rightarrow> 'a word \<Rightarrow> ('s, 'a word) exec" where
  "atomic_fetch_and_and x val = (if misaligned x then crash Thrown else sync_fetch (\<lambda>v. v AND val) x)"

definition atomic_fetch_and_add :: "('s, 'a :: len word) atom \<Rightarrow> 'a word \<Rightarrow> ('s, 'a word) exec" where
  "atomic_fetch_and_add x val = (if misaligned x then crash Thrown else sync_fetch (\<lambda>v. v + val) x)"

definition atomic_fetch_and_sub :: "('s, 'a :: len word) atom \<Rightarrow> 'a word \<Rightarrow> ('s, 'a word) exec" where
  "atomic_fetch_and_sub x val = (if misaligned x then crash Thrown else sync_fetch (\<lambda>v. v - val) x)"

definition atomic_write :: "('s, 'a :: len word) atom \<Rightarrow> 'a word \<Rightarrow> ('s, unit) exec" where
  "atomic_write x val = (if misaligned x then crash Thrown else andthen (sync_fetch (\<lambda>_. val) x) (ret ()))"

definition atomic_compare_swap :: "('s, 'a :: len word) atom \<Rightarrow> 'a word \<Rightarrow> 'a word \<Rightarrow> ('s, 'a word) exec" where
  "atomic_compare_swap x old new =
     (if misaligned x then crash Thrown else sync_fetch (\<lambda>v. if v = old then new else v) x)"

lemmas atomic_defs = atomic_read_def atomic_fetch_and_or_def atomic_fetch_and_and_def atomic_fetch_and_add_def
  atomic_fetch_and_sub_def atomic_write_def atomic_compare_swap_def

section \<open>Alignment\<close>

text \<open>For the sizes C has the test is divisibility.\<close>

lemma misaligned_8:
  fixes x :: "('s, 64 word) atom" shows "misaligned x \<longleftrightarrow> \<not> 8 dvd uint (a_addr x)"
proof -
  have "a_addr x AND (of_nat (LENGTH(64) div 8) - 1) = 0 \<longleftrightarrow> uint (a_addr x AND mask 3) = 0"
    by (simp add: mask_eq_exp_minus_1 uint_0_iff)
  also have "\<dots> \<longleftrightarrow> uint (a_addr x) mod 8 = 0" by (simp add: uint_mod take_bit_eq_mod flip: take_bit_eq_mask)
  finally show ?thesis by (simp add: misaligned_def dvd_eq_mod_eq_0)
qed

section \<open>The contract of a variable\<close>

locale cell =
  fixes x :: "('s, 'a :: len word) atom"
  assumes get_set [simp]: "a_get x (a_set x v s) = v"
    and set_get [simp]: "a_set x (a_get x s) s = s"
    and set_set [simp]: "a_set x v (a_set x u s) = a_set x v s"
begin

lemma read_run: "\<not> misaligned x \<Longrightarrow> atomic_read x s = Some (Inr (a_get x s, s))"
  by (simp add: atomic_read_def sync_fetch_def)

lemma write_run: "\<not> misaligned x \<Longrightarrow> atomic_write x v s = Some (Inr ((), a_set x v s))"
  by (simp add: atomic_write_def sync_fetch_def andthen_def bnd_def ret_def)

lemma read_written:
  "\<not> misaligned x \<Longrightarrow> andthen (atomic_write x v) (atomic_read x) s = Some (Inr (v, a_set x v s))"
  by (simp add: andthen_def bnd_def write_run read_run)

text \<open>A compare-and-swap that returns the expected value has written, any other has not.\<close>

lemma swap_run:
  assumes "\<not> misaligned x" and "atomic_compare_swap x old new s = Some (Inr (v, s'))"
  shows "s' = (if v = old then a_set x new s else s)"
  using assms by (auto simp: atomic_compare_swap_def sync_fetch_def)

text \<open>
  Additions, by whichever threads and in whichever order: each gets the sum of those before it,
  and the variable ends with the sum of all.
\<close>

lemma adds_run:
  assumes "\<not> misaligned x"
  shows "each (atomic_fetch_and_add x) vs s =
    Some (Inr (map (\<lambda>i. a_get x s + sum_list (take i vs)) [0..<length vs], a_set x (a_get x s + sum_list vs) s))"
proof (induction vs arbitrary: s)
  case (Cons v vs)
  have "atomic_fetch_and_add x v s = Some (Inr (a_get x s, a_set x (a_get x s + v) s))"
    using assms by (simp add: atomic_fetch_and_add_def sync_fetch_def)
  moreover have "[0..<length (v # vs)] = 0 # map Suc [0..<length vs]" by (simp add: map_Suc_upt upt_conv_Cons del: upt_Suc)
  ultimately show ?case by (simp add: bnd_def Cons.IH ret_def add.assoc comp_def del: upt_Suc)
qed (simp add: ret_def)

lemma adds_order_free:
  assumes "\<not> misaligned x" "mset vs = mset us"
  shows "\<exists>xs ys s'. each (atomic_fetch_and_add x) vs s = Some (Inr (xs, s')) \<and>
    each (atomic_fetch_and_add x) us s = Some (Inr (ys, s'))"
  using assms by (simp add: adds_run flip: sum_mset_sum_list)

end

end
