(* ===== verification/Tracebuf.thy ===== *)
theory Tracebuf
  imports Walk Pibr Atomics
begin

unbundle bit_operations_syntax

text \<open>
  \<open>include/utils/tracer.h\<close>: the class template \<open>Tracer<T, size>\<close>, an in-memory trace buffer.
  Records are stored at a pointer that lives in one 64-bit atomic together with the end of
  the current array; a full array is queued on a list (\<open>list.h\<close>) whose head and length live
  in another atomic; a thread takes the queue and hands every array to the virtual
  function \<open>flush\<close>.  The class is C++; \<open>Thrown\<close> is an exception that nothing catches.

  The state extends the memory of \<open>list.h\<close>.  \<open>rec_at\<close> holds the array elements by address,
  \<open>arrays\<close> the addresses that \<open>new T[size]\<close> returned, \<open>node_buf\<close> the \<open>buffer\<close> field of
  the queue nodes (their \<open>entry\<close> field is at offset 0).  The template arguments and the
  library below are the fields of \<open>tenv\<close>.
\<close>

section \<open>State\<close>

record ('w, 'r) tenv =
  t_size :: nat
  t_count :: nat
  t_zero :: 'r
  t_new :: "'w \<Rightarrow> addr \<times> 'w"
  t_malloc :: "nat \<Rightarrow> 'w \<Rightarrow> addr \<times> 'w"
  t_clock :: "'w \<Rightarrow> int \<times> 'w"
  t_sleep :: "32 word \<Rightarrow> 'w \<Rightarrow> 'w"
  t_interrupted :: "'w \<Rightarrow> bool \<times> 'w"
  t_ts_addr :: addr

record ('w, 'r) tracer = lmem +
  t_world :: 'w
  active_v :: "64 word"
  head_v :: "64 word"
  ts_v :: "64 word"
  flush_timeout_v :: "32 word"
  rec_at :: "addr \<Rightarrow> 'r option"
  arrays :: "addr set"
  node_buf :: "addr \<Rightarrow> addr option"
  count_v :: "32 word"
  dumped :: "'r list list"
  warned :: "string list"

definition TRACER_FLUSH_TIMEOUT :: "32 word" where
  "TRACER_FLUSH_TIMEOUT = 150"

text \<open>The member \<open>max\<close>, and the addresses of the elements of an array.\<close>

definition t_max :: "('w, 'r) tenv \<Rightarrow> addr" where
  "t_max env = of_nat (t_size env * t_count env)"

definition slots :: "('w, 'r) tenv \<Rightarrow> addr \<Rightarrow> addr list" where
  "slots env p = map (\<lambda>i. p + of_nat (i * t_size env)) [0..<t_count env]"

text \<open>The member \<open>_ts\<close>, which is used through \<open>atomic_read\<close> and \<open>atomic_write\<close>.\<close>

definition ts_var :: "('w, 'r) tenv \<Rightarrow> (('w, 'r) tracer, 64 word) atom" where
  "ts_var env = \<lparr>a_addr = t_ts_addr env, a_get = ts_v, a_set = (\<lambda>v s. s\<lparr>ts_v := v\<rparr>)\<rparr>"

interpretation ts: cell "ts_var env" for env :: "('w, 'r) tenv"
  by unfold_locales (simp_all add: ts_var_def)

text \<open>The two halves of the atomics.\<close>

definition tb_pack :: "addr \<Rightarrow> addr \<Rightarrow> 64 word" where
  "tb_pack hi lo = push_bit 32 (ucast hi) OR ucast lo"

definition TB_CURR :: "64 word \<Rightarrow> addr" where
  "TB_CURR w = ucast (w AND 0xffffffff)"

definition TB_MAX :: "64 word \<Rightarrow> addr" where
  "TB_MAX w = ucast (drop_bit 32 w)"

definition tsys :: "('w \<Rightarrow> 'a \<times> 'w) \<Rightarrow> (('w, 'r) tracer, 'a) exec" where
  "tsys f = (\<lambda>s. case f (t_world s) of (x, w) \<Rightarrow> Some (Inr (x, s\<lparr>t_world := w\<rparr>)))"

definition WARN :: "string \<Rightarrow> (('w, 'r) tracer, unit) exec" where
  "WARN txt = modify (\<lambda>s. s\<lparr>warned := warned s @ [txt]\<rparr>)"

section \<open>The member functions\<close>

definition alloc_trace_buffer :: "('w, 'r) tenv \<Rightarrow> (('w, 'r) tracer, addr) exec" where
  "alloc_trace_buffer env =
     bnd (tsys (t_new env)) (\<lambda>p.
     if p = 0 then crash Thrown else
     andthen (modify (\<lambda>s. s\<lparr>rec_at := rec_at s ++ map_of (map (\<lambda>a. (a, t_zero env)) (slots env p)),
                            arrays := insert p (arrays s)\<rparr>))
             (ret p))"

definition free_trace_buffer :: "('w, 'r) tenv \<Rightarrow> addr \<Rightarrow> (('w, 'r) tracer, unit) exec" where
  "free_trace_buffer env b =
     bnd (gets arrays) (\<lambda>as.
     if b = 0 then ret () else if b \<notin> as then crash BadFree else
     modify (\<lambda>s. s\<lparr>rec_at := rec_at s |` (- set (slots env b)), arrays := arrays s - {b}\<rparr>))"

definition init_trace_buffer :: "('w, 'r) tenv \<Rightarrow> (('w, 'r) tracer, 64 word) exec" where
  "init_trace_buffer env = bnd (alloc_trace_buffer env) (\<lambda>p. ret (tb_pack (p + t_max env) p))"

definition alloc_trace_head :: "('w, 'r) tenv \<Rightarrow> (('w, 'r) tracer, addr) exec" where
  "alloc_trace_head env =
     bnd (tsys (t_malloc env 8)) (\<lambda>h.
     if h = 0 then crash Thrown else
     andthen (modify (\<lambda>s. s\<lparr>cells := (cells s)(h \<mapsto> \<lparr>prev_p = 0, next_p = 0\<rparr>)\<rparr>)) (
     andthen (INIT_LIST_HEAD h) (ret h)))"

definition init_trace_head :: "('w, 'r) tenv \<Rightarrow> (('w, 'r) tracer, 64 word) exec" where
  "init_trace_head env = bnd (alloc_trace_head env) (\<lambda>h. ret (push_bit 32 (ucast h)))"

text \<open>
  The constructor; on the 32-bit target the test of the pointer size passes.  \<open>start()\<close>,
  which creates the flush thread, belongs to \<open>Utils::Thread\<close> and is not part of it here.
\<close>

definition Tracer_ctor :: "('w, 'r) tenv \<Rightarrow> (('w, 'r) tracer, unit) exec" where
  "Tracer_ctor env =
     andthen (modify (\<lambda>s. s\<lparr>flush_timeout_v := TRACER_FLUSH_TIMEOUT\<rparr>)) (
     bnd (init_trace_buffer env) (\<lambda>b.
     andthen (modify (\<lambda>s. s\<lparr>active_v := b\<rparr>)) (
     bnd (init_trace_head env) (\<lambda>h.
     modify (\<lambda>s. s\<lparr>head_v := h\<rparr>)))))"

definition adjustFlushTimeout :: "(('w, 'r) tracer, unit) exec" where
  "adjustFlushTimeout = modify (\<lambda>s. s\<lparr>flush_timeout_v := push_bit 1 (flush_timeout_v s)\<rparr>)"

definition enqueueTraceBuffer :: "('w, 'r) tenv \<Rightarrow> addr \<Rightarrow> (('w, 'r) tracer, unit) exec" where
  "enqueueTraceBuffer env b =
     bnd (tsys (t_malloc env 12)) (\<lambda>n.
     if n = 0 then WARN ''Failed to add trace buffer: mem alloc failed!'' else
     andthen (modify (\<lambda>s. s\<lparr>cells := (cells s)(n \<mapsto> \<lparr>prev_p = 0, next_p = 0\<rparr>),
                            node_buf := (node_buf s)(n \<mapsto> b)\<rparr>)) (
     bnd (gets head_v) (\<lambda>tbh.
     andthen (modify (\<lambda>s. s\<lparr>head_v := tbh + 1\<rparr>)) (
     if TB_MAX tbh = 0 then WARN ''Invalid trace buffer header; ignoring enqueue op!''
     else list_add_tail n (TB_MAX tbh)))))"

text \<open>\<open>memcpy((void *)cptr, &rec, sizeof(T))\<close>\<close>

definition store_rec :: "addr \<Rightarrow> 'r \<Rightarrow> (('w, 'r) tracer, unit) exec" where
  "store_rec a r =
     bnd (gets (\<lambda>s. rec_at s a)) (\<lambda>old.
     if old = None then crash WildDeref else modify (\<lambda>s. s\<lparr>rec_at := (rec_at s)(a \<mapsto> r)\<rparr>))"

partial_function (option) add_loop ::
  "('w, 'r) tenv \<Rightarrow> 'r \<Rightarrow> ('w, 'r) tracer \<Rightarrow> (fault + unit \<times> ('w, 'r) tracer) option" where
  "add_loop env r s =
     bnd (gets active_v) (\<lambda>buf.
     andthen (modify (\<lambda>s. s\<lparr>active_v := buf + of_nat (t_size env)\<rparr>)) (
     if TB_CURR buf = TB_MAX buf
     then bnd (init_trace_buffer env) (\<lambda>newbuf.
          andthen (modify (\<lambda>s. s\<lparr>active_v := newbuf\<rparr>)) (
          andthen (enqueueTraceBuffer env (TB_CURR buf - t_max env))
                  (add_loop env r)))
     else if TB_CURR buf < TB_MAX buf then store_rec (TB_CURR buf) r
     else add_loop env r)) s"

definition addEntry :: "('w, 'r) tenv \<Rightarrow> 'r \<Rightarrow> (('w, 'r) tracer, unit) exec" where
  "addEntry env r =
     bnd (tsys (t_clock env)) (\<lambda>now.
     andthen (atomic_write (ts_var env) (word_of_int now)) (add_loop env r))"

text \<open>\<open>flush((void *)buffer, max)\<close>: the subclass gets the bytes of the array.\<close>

definition call_flush :: "('w, 'r) tenv \<Rightarrow> addr \<Rightarrow> (('w, 'r) tracer, unit) exec" where
  "call_flush env b =
     bnd (gets rec_at) (\<lambda>m.
     if \<exists>a\<in>set (slots env b). m a = None then crash WildDeref
     else modify (\<lambda>s. s\<lparr>dumped := dumped s @ [map (\<lambda>a. the (m a)) (slots env b)]\<rparr>))"

definition flush_node :: "('w, 'r) tenv \<Rightarrow> addr \<Rightarrow> (('w, 'r) tracer, unit) exec" where
  "flush_node env n =
     bnd (gets (\<lambda>s. node_buf s n)) (\<lambda>b. case b of None \<Rightarrow> crash WildDeref | Some b \<Rightarrow>
     andthen (call_flush env b) (
     andthen (free_trace_buffer env b)
             (modify (\<lambda>s. s\<lparr>count_v := count_v s - 1\<rparr>))))"

text \<open>The check for inactivity in \<open>run\<close>.\<close>

definition idle_flush :: "('w, 'r) tenv \<Rightarrow> (('w, 'r) tracer, unit) exec" where
  "idle_flush env =
     bnd (gets active_v) (\<lambda>buf.
     if drop_bit 1 (t_max env) < TB_MAX buf - TB_CURR buf
     then bnd (init_trace_buffer env) (\<lambda>newbuf.
          andthen (modify (\<lambda>s. s\<lparr>active_v := newbuf\<rparr>))
                  (enqueueTraceBuffer env (TB_CURR buf - t_max env)))
     else ret ())"

definition drain_queue :: "('w, 'r) tenv \<Rightarrow> (('w, 'r) tracer, unit) exec" where
  "drain_queue env =
     bnd (gets head_v) (\<lambda>tbh.
     let count = ucast (tbh AND 0xffffffff) :: 32 word in
     if count = 0 then ret () else
     bnd (tsys (t_interrupted env)) (\<lambda>i.
     bnd (if \<not> i then init_trace_head env else ret 0) (\<lambda>new_tbh.
     bnd (gets head_v) (\<lambda>tbh.
     andthen (modify (\<lambda>s. s\<lparr>head_v := new_tbh, count_v := count\<rparr>)) (
     andthen (list_for_each_entry 0 (flush_node env) (TB_MAX tbh)) (
     bnd (gets count_v) (\<lambda>c.
     andthen (only_if (c \<noteq> 0) (WARN ''Sync error: trace buffers not dumped''))
             (modify (\<lambda>s. s\<lparr>cells := (cells s)(TB_MAX tbh := None)\<rparr>)))))))))"

text \<open>One round of the flush thread, and the thread.\<close>

definition tracer_round :: "('w, 'r) tenv \<Rightarrow> (('w, 'r) tracer, unit) exec" where
  "tracer_round env =
     bnd (gets flush_timeout_v) (\<lambda>t.
     andthen (tsys (\<lambda>w. ((), t_sleep env t w))) (
     bnd (tsys (t_clock env)) (\<lambda>now.
     andthen (atomic_read (ts_var env)) (
     bnd (atomic_read (ts_var env)) (\<lambda>last.
     bnd (gets flush_timeout_v) (\<lambda>t.
     andthen (if ucast t < word_of_int now - last then idle_flush env else ret ())
             (drain_queue env)))))))"

partial_function (option) tracer_run ::
  "('w, 'r) tenv \<Rightarrow> ('w, 'r) tracer \<Rightarrow> (fault + unit \<times> ('w, 'r) tracer) option" where
  "tracer_run env s =
     bnd (tsys (t_interrupted env)) (\<lambda>i.
     if i then ret () else andthen (tracer_round env) (tracer_run env)) s"

section \<open>The packed words\<close>

lemma mask32: "(0xffffffff :: 64 word) = mask 32"
  by (simp add: mask_eq_exp_minus_1)

lemma tb_halves [simp]: "TB_MAX (tb_pack hi lo) = hi" "TB_CURR (tb_pack hi lo) = lo"
proof -
  show "TB_MAX (tb_pack hi lo) = hi"
    unfolding TB_MAX_def tb_pack_def by (rule bit_word_eqI) (auto simp: bit_simps dest: bit_imp_le_length)
  show "TB_CURR (tb_pack hi lo) = lo"
    unfolding TB_CURR_def tb_pack_def mask32 by (rule bit_word_eqI) (auto simp: bit_simps)
qed

lemma tb_pack_num: "tb_pack hi lo = word_of_int (uint hi * 2 ^ 32 + uint lo)"
proof -
  have "tb_pack hi lo = push_bit 32 (ucast hi) + ucast lo"
    unfolding tb_pack_def by (rule disjunctive_add [symmetric]) (auto simp: bit_simps dest: bit_imp_le_length)
  then show ?thesis by (simp add: push_bit_eq_mult word_of_int_uint [symmetric] ac_simps)
qed

text \<open>Adding to the packed word moves the pointer, as long as it stays below \<open>2 ^ 32\<close>.\<close>

lemma tb_pack_add: "unat lo + n < 2 ^ 32 \<Longrightarrow> tb_pack hi lo + of_nat n = tb_pack hi (lo + of_nat n)"
proof -
  assume n: "unat lo + n < 2 ^ 32"
  have "uint (lo + of_nat n) = uint lo + int n"
  proof -
    have "unat (lo + of_nat n) = unat lo + n"
      using n by (simp add: unat_word_ariths unat_of_nat take_bit_nat_eq_self_iff)
    then show ?thesis by (metis of_nat_add uint_nat)
  qed
  then show ?thesis by (simp add: tb_pack_num)
qed

lemma head_word: "h \<noteq> 0 \<Longrightarrow> push_bit 32 (ucast h) = tb_pack h 0"
  by (simp add: tb_pack_def)

lemma unat_small: "k < 2 ^ 32 \<Longrightarrow> unat (of_nat k :: addr) = k"
  by (simp add: unat_of_nat take_bit_nat_eq_self)

lemma head_incr: "k + 1 < 2 ^ 32 \<Longrightarrow> tb_pack h (of_nat k) + 1 = tb_pack h (of_nat (k + 1))"
  using tb_pack_add [of "of_nat k" 1 h] unat_small [of k] by (simp add: ac_simps)

section \<open>Arrays\<close>

definition area :: "('w, 'r) tenv \<Rightarrow> addr \<Rightarrow> addr set" where
  "area env p = set (slots env p)"

text \<open>An array at \<open>b\<close> whose first elements are \<open>xs\<close>.\<close>

definition placed :: "('w, 'r) tenv \<Rightarrow> ('w, 'r) tracer \<Rightarrow> addr \<Rightarrow> 'r list \<Rightarrow> bool" where
  "placed env s b xs \<longleftrightarrow> b \<in> arrays s \<and> b \<noteq> 0 \<and> unat b + t_size env * t_count env < 2 ^ 32 \<and>
     length xs \<le> t_count env \<and> (\<forall>a\<in>area env b. rec_at s a \<noteq> None) \<and>
     (\<forall>i<length xs. rec_at s (b + of_nat (i * t_size env)) = Some (xs ! i))"

lemma slot_in: "i < t_count env \<Longrightarrow> b + of_nat (i * t_size env) \<in> area env b"
  by (auto simp: area_def slots_def)

lemma slot_num:
  fixes b :: addr
  assumes "unat b + t_size env * t_count env < 2 ^ 32" "i \<le> t_count env"
  shows "unat (b + of_nat (i * t_size env)) = unat b + i * t_size env"
proof -
  have "i * t_size env \<le> t_size env * t_count env" using assms(2) by (simp add: mult.commute)
  then have le: "unat b + i * t_size env < 2 ^ 32" using assms(1) by linarith
  then have x: "unat (of_nat (i * t_size env) :: addr) = i * t_size env" by (intro unat_small) linarith
  show ?thesis unfolding unat_word_ariths(1) x using le by simp
qed

lemma slot_inj:
  fixes b :: addr
  assumes "unat b + t_size env * t_count env < 2 ^ 32" "0 < t_size env" "i \<le> t_count env" "j \<le> t_count env"
  shows "b + of_nat (i * t_size env) = b + of_nat (j * t_size env) \<longleftrightarrow> i = j"
  using slot_num [OF assms(1,3)] slot_num [OF assms(1,4)] assms(2) by (metis add_left_cancel mult_cancel2 not_gr0)

lemma t_max_slot: "b + t_max env = b + of_nat (t_count env * t_size env)"
  by (simp add: t_max_def mult.commute)

lemma placed_frame:
  assumes "placed env s b xs" "\<And>a. a \<in> area env b \<Longrightarrow> rec_at s' a = rec_at s a" "b \<in> arrays s'"
  shows "placed env s' b xs"
  using assms slot_in [of _ env b] by (auto simp: placed_def)

lemma placed_store:
  assumes p: "placed env s b xs" and k: "length xs < t_count env" and z: "0 < t_size env"
  shows "placed env (s\<lparr>rec_at := (rec_at s)(b + of_nat (length xs * t_size env) \<mapsto> r)\<rparr>) b (xs @ [r])"
proof -
  have u: "unat b + t_size env * t_count env < 2 ^ 32" using p by (simp add: placed_def)
  have "i = length xs" if "b + of_nat (i * t_size env) = b + of_nat (length xs * t_size env)" "i < Suc (length xs)" for i
    using slot_inj [OF u z, of i "length xs"] that k by auto
  then show ?thesis using p k by (auto simp: placed_def nth_append less_Suc_eq)
qed

text \<open>What a fully written array hands to \<open>flush\<close>.\<close>

lemma placed_full:
  assumes "placed env s b xs" "length xs = t_count env"
  shows "map (\<lambda>a. the (rec_at s a)) (slots env b) = xs"
  using assms by (intro nth_equalityI) (auto simp: slots_def placed_def)

section \<open>The allocator\<close>

text \<open>
  What the library promises: while there is room, \<open>new\<close> and \<open>malloc\<close> return memory that is
  not in use (\<open>live\<close>).
\<close>

definition new_ok :: "('w, 'r) tenv \<Rightarrow> ('w \<Rightarrow> addr set) \<Rightarrow> ('w \<Rightarrow> nat) \<Rightarrow> 'w \<Rightarrow> addr \<times> 'w \<Rightarrow> bool" where
  "new_ok env live room w r \<longleftrightarrow> fst r \<noteq> 0 \<and> unat (fst r) + t_size env * t_count env < 2 ^ 32 \<and>
     area env (fst r) \<inter> live w = {} \<and> live (snd r) = live w \<union> area env (fst r) \<and> room (snd r) = room w - 1"

definition malloc_ok :: "('w \<Rightarrow> addr set) \<Rightarrow> ('w \<Rightarrow> nat) \<Rightarrow> 'w \<Rightarrow> addr \<times> 'w \<Rightarrow> bool" where
  "malloc_ok live room w r \<longleftrightarrow> fst r \<noteq> 0 \<and> fst r \<notin> live w \<and> live (snd r) = insert (fst r) (live w) \<and>
     room (snd r) = room w - 1"

definition tenv_ok :: "('w, 'r) tenv \<Rightarrow> ('w \<Rightarrow> addr set) \<Rightarrow> ('w \<Rightarrow> nat) \<Rightarrow> bool" where
  "tenv_ok env live room \<longleftrightarrow> 0 < t_size env \<and> 0 < t_count env \<and> 8 dvd uint (t_ts_addr env) \<and>
     (\<forall>w. 0 < room w \<longrightarrow> new_ok env live room w (t_new env w)) \<and>
     (\<forall>w k. 0 < room w \<longrightarrow> malloc_ok live room w (t_malloc env k w)) \<and>
     (\<forall>w. live (snd (t_clock env w)) = live w \<and> room (snd (t_clock env w)) = room w) \<and>
     (\<forall>w. live (snd (t_interrupted env w)) = live w \<and> room (snd (t_interrupted env w)) = room w) \<and>
     (\<forall>w t. live (t_sleep env t w) = live w \<and> room (t_sleep env t w) = room w)"

lemma tenv_okD:
  assumes "tenv_ok env live room"
  shows "0 < t_size env" "0 < t_count env" "0 < room w \<Longrightarrow> new_ok env live room w (t_new env w)"
    "0 < room w \<Longrightarrow> malloc_ok live room w (t_malloc env k w)"
    "live (snd (t_clock env w)) = live w" "room (snd (t_clock env w)) = room w"
    "live (snd (t_interrupted env w)) = live w" "room (snd (t_interrupted env w)) = room w"
    "\<not> misaligned (ts_var env)"
  using assms by (simp_all add: tenv_ok_def misaligned_8 ts_var_def)

text \<open>
  The state: the array \<open>b\<close> is being filled and holds \<open>cur\<close>; the queue at \<open>h\<close> has the nodes
  \<open>ns\<close>, whose arrays hold \<open>qs\<close>.
\<close>

definition queued :: "('w, 'r) tenv \<Rightarrow> ('w, 'r) tracer \<Rightarrow> addr \<Rightarrow> 'r list \<Rightarrow> bool" where
  "queued env s n xs \<longleftrightarrow> (\<exists>q. node_buf s n = Some q \<and> placed env s q xs \<and> length xs = t_count env)"

definition separate :: "('w, 'r) tenv \<Rightarrow> ('w \<Rightarrow> addr set) \<Rightarrow> ('w, 'r) tracer \<Rightarrow> bool" where
  "separate env live s \<longleftrightarrow> (\<forall>p\<in>arrays s. \<forall>q\<in>arrays s. p \<noteq> q \<longrightarrow> area env p \<inter> area env q = {}) \<and>
     (\<forall>p\<in>arrays s. area env p \<subseteq> live (t_world s)) \<and> dom (cells s) \<subseteq> live (t_world s)"

definition tb_inv ::
  "('w, 'r) tenv \<Rightarrow> ('w \<Rightarrow> addr set) \<Rightarrow> ('w, 'r) tracer \<Rightarrow> addr \<Rightarrow> addr \<Rightarrow> addr list \<Rightarrow> 'r list list \<Rightarrow> 'r list \<Rightarrow> bool" where
  "tb_inv env live s b h ns qs cur \<longleftrightarrow>
     active_v s = tb_pack (b + t_max env) (b + of_nat (length cur * t_size env)) \<and> placed env s b cur \<and>
     head_v s = tb_pack h (of_nat (length ns)) \<and> length ns < 2 ^ 32 \<and> cyc s (h # ns) \<and>
     list_all2 (queued env s) ns qs \<and> distinct (map (node_buf s) ns) \<and> Some b \<notin> node_buf s ` set ns \<and>
     separate env live s"

text \<open>The abstract trace: a queue of full batches and the current one.\<close>

fun add_rec :: "nat \<Rightarrow> 'r list list \<times> 'r list \<Rightarrow> 'r \<Rightarrow> 'r list list \<times> 'r list" where
  "add_rec n (qs, cur) r = (if length cur = n then (qs @ [cur], [r]) else (qs, cur @ [r]))"

section \<open>Storing a record\<close>

lemma more_fields:
  assumes "lmem.more s' = lmem.more s"
  shows "t_world s' = t_world s" "active_v s' = active_v s" "head_v s' = head_v s" "rec_at s' = rec_at s"
    "arrays s' = arrays s" "node_buf s' = node_buf s" "count_v s' = count_v s" "dumped s' = dumped s" "warned s' = warned s"
  using assms by (cases s; cases s'; simp)+

text \<open>There is room in the current array.\<close>

lemma add_loop_store:
  assumes inv: "tb_inv env live s b h ns qs cur" and ok: "tenv_ok env live room" and k: "length cur < t_count env"
  shows "\<exists>s'. add_loop env r s = Some (Inr ((), s')) \<and> tb_inv env live s' b h ns qs (cur @ [r]) \<and>
    t_world s' = t_world s \<and> dumped s' = dumped s"
proof -
  let ?c = "b + of_nat (length cur * t_size env)" let ?m = "b + t_max env"
  let ?s = "s\<lparr>active_v := tb_pack ?m (?c + of_nat (t_size env)), rec_at := (rec_at s)(?c \<mapsto> r)\<rparr>"
  have z: "0 < t_size env" using ok by (simp add: tenv_ok_def)
  have p: "placed env s b cur" and a: "active_v s = tb_pack ?m ?c" and sep: "separate env live s"
    and q: "list_all2 (queued env s) ns qs" "Some b \<notin> node_buf s ` set ns" and cy: "cyc s (h # ns)"
    using inv by (auto simp: tb_inv_def)
  have u: "unat b + t_size env * t_count env < 2 ^ 32" using p by (simp add: placed_def)
  have c: "unat ?c = unat b + length cur * t_size env" using slot_num [OF u] k by simp
  have m: "unat ?m = unat b + t_count env * t_size env" using slot_num [OF u, of "t_count env"] by (simp add: t_max_slot)
  have lt: "?c < ?m" using c m k z by (simp add: word_less_nat_alt)
  have cin: "?c \<in> area env b" using slot_in [OF k] .
  have rc: "rec_at s ?c \<noteq> None" using p cin by (simp add: placed_def)
  have le: "Suc (length cur) * t_size env \<le> t_count env * t_size env" using k by (intro mult_right_mono) auto
  have "active_v s + of_nat (t_size env) = tb_pack ?m (?c + of_nat (t_size env))"
    unfolding a using c u le by (intro tb_pack_add) (simp add: mult.commute)
  then have run: "add_loop env r s = Some (Inr ((), ?s))"
    using a lt rc
    by (subst add_loop.simps) (auto simp: bnd_def andthen_def gets_def modify_def store_rec_def)
  have "active_v ?s = tb_pack ?m (b + of_nat (length (cur @ [r]) * t_size env))" by (simp add: algebra_simps)
  moreover have "placed env ?s b (cur @ [r])" using placed_store [OF p k z, of r] by (simp add: placed_def)
  moreover have "list_all2 (queued env ?s) ns qs"
    using q(1)
  proof (rule list.rel_mono_strong)
    fix n xs assume n: "n \<in> set ns" "xs \<in> set qs" "queued env s n xs"
    then obtain d where d: "node_buf s n = Some d" "placed env s d xs" "length xs = t_count env" by (auto simp: queued_def)
    have "d \<noteq> b" using q(2) n d by force
    then have "?c \<notin> area env d" using sep cin d p by (auto simp: separate_def placed_def)
    then have "placed env ?s d xs" using d(2) by (intro placed_frame [OF d(2)]) (auto simp: placed_def)
    then show "queued env ?s n xs" using d by (auto simp: queued_def)
  qed
  moreover have "cyc ?s (h # ns)" using cy cyc_cells [of "h # ns" ?s s] by simp
  moreover have "separate env live ?s" using sep by (simp add: separate_def)
  moreover have "head_v ?s = head_v s" "node_buf ?s = node_buf s" by simp_all
  ultimately have "tb_inv env live ?s b h ns qs (cur @ [r])" using inv unfolding tb_inv_def by metis
  then show ?thesis using run by auto
qed

text \<open>A new array.\<close>

lemma init_trace_buffer_fresh:
  assumes ok: "tenv_ok env live room" and sep: "separate env live s" and r: "0 < room (t_world s)"
  shows "\<exists>p w'. init_trace_buffer env s = Some (Inr (tb_pack (p + t_max env) p,
      s\<lparr>t_world := w', rec_at := rec_at s ++ map_of (map (\<lambda>a. (a, t_zero env)) (slots env p)), arrays := insert p (arrays s)\<rparr>)) \<and>
    p \<noteq> 0 \<and> p \<notin> arrays s \<and> unat p + t_size env * t_count env < 2 ^ 32 \<and> area env p \<inter> live (t_world s) = {} \<and>
    live w' = live (t_world s) \<union> area env p \<and> room w' = room (t_world s) - 1"
proof -
  obtain p w' where n: "t_new env (t_world s) = (p, w')" by (cases "t_new env (t_world s)")
  have "new_ok env live room (t_world s) (p, w')" and c: "0 < t_count env"
    using tenv_okD(2) [OF ok] tenv_okD(3) [OF ok, of "t_world s"] r n by simp_all
  then have p: "p \<noteq> 0" "unat p + t_size env * t_count env < 2 ^ 32" "area env p \<inter> live (t_world s) = {}"
    "live w' = live (t_world s) \<union> area env p" "room w' = room (t_world s) - 1"
    by (simp_all add: new_ok_def)
  have "p \<in> area env p" using slot_in [OF c, of p] by simp
  then have "p \<notin> arrays s" using sep p(3) unfolding separate_def by blast
  then show ?thesis using p n
    by (auto simp: init_trace_buffer_def alloc_trace_buffer_def bnd_def andthen_def tsys_def modify_def ret_def)
qed

lemma fresh_recs:
  "a \<in> area env p \<Longrightarrow> (m ++ map_of (map (\<lambda>a. (a, z)) (slots env p))) a = Some z"
  "a \<notin> area env p \<Longrightarrow> (m ++ map_of (map (\<lambda>a. (a, z)) (slots env p))) a = m a"
proof -
  show "a \<notin> area env p \<Longrightarrow> (m ++ map_of (map (\<lambda>a. (a, z)) (slots env p))) a = m a"
    by (simp add: map_add_dom_app_simps(3) area_def dom_map_of_conv_image_fst image_image)
  have "map_of (map (\<lambda>a. (a, z)) xs) a = (if a \<in> set xs then Some z else None)" for xs
    by (induction xs) auto
  then show "a \<in> area env p \<Longrightarrow> (m ++ map_of (map (\<lambda>a. (a, z)) (slots env p))) a = Some z"
    by (simp add: area_def)
qed

text \<open>Queueing an array: a new node at the tail.\<close>

lemma enqueue_ok:
  assumes ok: "tenv_ok env live room" and r: "0 < room (t_world s)" and d: "dom (cells s) \<subseteq> live (t_world s)"
    and hd: "head_v s = tb_pack h (of_nat (length ns))" "length ns + 1 < 2 ^ 32" and cy: "cyc s (h # ns)"
  shows "\<exists>n s' w'. enqueueTraceBuffer env b s = Some (Inr ((), s')) \<and> n \<notin> live (t_world s) \<and>
    cyc s' (h # ns @ [n]) \<and> head_v s' = tb_pack h (of_nat (length (ns @ [n]))) \<and> node_buf s' = (node_buf s)(n \<mapsto> b) \<and>
    t_world s' = w' \<and> live w' = insert n (live (t_world s)) \<and> room w' = room (t_world s) - 1 \<and> dom (cells s') \<subseteq> live w' \<and>
    active_v s' = active_v s \<and> rec_at s' = rec_at s \<and> arrays s' = arrays s \<and> dumped s' = dumped s"
proof -
  obtain n w' where m: "t_malloc env 12 (t_world s) = (n, w')" by (cases "t_malloc env 12 (t_world s)")
  have "malloc_ok live room (t_world s) (n, w')" using tenv_okD(4) [OF ok, of "t_world s" 12] r m by simp
  then have n: "n \<noteq> 0" "n \<notin> live (t_world s)" "live w' = insert n (live (t_world s))" "room w' = room (t_world s) - 1"
    by (simp_all add: malloc_ok_def)
  let ?s = "s\<lparr>t_world := w', cells := (cells s)(n \<mapsto> \<lparr>prev_p = 0, next_p = 0\<rparr>), node_buf := (node_buf s)(n \<mapsto> b),
    head_v := tb_pack h (of_nat (length ns)) + 1\<rparr>"
  have hm: "mem s h" "set (h # ns) \<subseteq> dom (cells s)" using cyc_mem [OF cy] by (auto simp: mem_def)
  have nn: "n \<notin> set (h # ns)" using n(2) hm d by blast
  have cy2: "cyc ?s (h # ns)" using cy nn by (subst cyc_cells [of _ _ s]) auto
  obtain s' where s': "does (list_add_tail n h) ?s s'" "cyc s' (h # ns @ [n])" "dom (cells s') = dom (cells ?s)"
    "lmem.more s' = lmem.more ?s"
    using ring_queue.enq_ok [OF cy2 _ nn] n(1) by (auto simp: mem_def)
  note f = more_fields [OF s'(4)]
  have h0: "h \<noteq> 0" using hm(1) by (simp add: mem_def)
  have "enqueueTraceBuffer env b s = Some (Inr ((), s'))"
    using s'(1) m n(1) hd(1) h0
    by (simp add: enqueueTraceBuffer_def bnd_def andthen_def tsys_def modify_def gets_def)
  moreover have "head_v s' = tb_pack h (of_nat (length (ns @ [n])))"
    using f(3) head_incr [OF hd(2), of h] by simp
  moreover have "dom (cells s') \<subseteq> live w'" using s'(3) d n(3) by auto
  ultimately show ?thesis using f s'(2) n by auto
qed

lemma list_all2_in: "list_all2 P xs ys \<Longrightarrow> x \<in> set xs \<Longrightarrow> \<exists>y. P x y"
  by (induction rule: list_all2_induct) auto

lemma separate_grow:
  assumes "separate env live s" "area env c \<inter> live (t_world s) = {}" "arrays s' = insert c (arrays s)"
    "live (t_world s') = insert n (live (t_world s) \<union> area env c)" "dom (cells s') \<subseteq> live (t_world s')"
  shows "separate env live s'"
  unfolding separate_def
proof (intro conjI ballI impI)
  have a: "area env p \<subseteq> live (t_world s)" if "p \<in> arrays s" for p using assms(1) that by (simp add: separate_def)
  have d: "area env p \<inter> area env q = {}" if "p \<in> arrays s" "q \<in> arrays s" "p \<noteq> q" for p q
    using assms(1) that by (simp add: separate_def)
  show "area env p \<inter> area env q = {}" if "p \<in> arrays s'" "q \<in> arrays s'" "p \<noteq> q" for p q
  proof -
    note pq = that
    have "p \<in> insert c (arrays s)" "q \<in> insert c (arrays s)" using pq(1,2) unfolding assms(3) .
    then consider "p \<in> arrays s" "q \<in> arrays s" | "p = c" "q \<in> arrays s" | "q = c" "p \<in> arrays s"
      using pq(3) by blast
    then show ?thesis
    proof cases
      case 1 then show ?thesis using d pq(3) by simp
    next
      case 2 then show ?thesis using a [of q] assms(2) by (meson disjoint_iff subsetD)
    next
      case 3 then show ?thesis using a [of p] assms(2) by (meson disjoint_iff subsetD)
    qed
  qed
  show "area env p \<subseteq> live (t_world s')" if "p \<in> arrays s'" for p using that a [of p] assms(3,4) by auto
qed (fact assms(5))

text \<open>The invariant after the full array has been queued in a new node and a fresh one has taken its place.\<close>

lemma tb_inv_next:
  assumes inv: "tb_inv env live s b h ns qs cur" and k: "length cur = t_count env" and len: "length ns + 1 < 2 ^ 32"
    and c: "c \<noteq> 0" "c \<notin> arrays s" "unat c + t_size env * t_count env < 2 ^ 32" "area env c \<inter> live (t_world s) = {}"
    and rc: "\<And>x. x \<in> area env c \<Longrightarrow> rec_at s2 x = Some z" and ro: "\<And>x. x \<notin> area env c \<Longrightarrow> rec_at s2 x = rec_at s x"
    and cy2: "cyc s2 (h # ns @ [n])" and sep2: "separate env live s2"
    and f2: "head_v s2 = tb_pack h (of_nat (length (ns @ [n])))" "node_buf s2 = (node_buf s)(n \<mapsto> b)"
      "active_v s2 = tb_pack (c + t_max env) c" "arrays s2 = insert c (arrays s)"
  shows "tb_inv env live s2 c h (ns @ [n]) (qs @ [cur]) []"
proof -
  have p: "placed env s b cur" and sep: "separate env live s"
    and q: "list_all2 (queued env s) ns qs" "distinct (map (node_buf s) ns)" "Some b \<notin> node_buf s ` set ns"
    using inv by (auto simp: tb_inv_def)
  have nn: "n \<notin> set (h # ns)" using cy2 by (auto simp: cyc_def)
  have old: "placed env s2 d xs" if "placed env s d xs" for d xs
  proof (rule placed_frame [OF that])
    have d: "d \<in> arrays s" using that by (simp add: placed_def)
    then show "d \<in> arrays s2" using f2 by simp
    have "area env d \<subseteq> live (t_world s)" using d sep by (simp add: separate_def)
    then show "rec_at s2 x = rec_at s x" if "x \<in> area env d" for x using that c(4) ro [of x] by auto
  qed
  have "list_all2 (queued env s2) ns qs"
    using q(1) by (rule list.rel_mono_strong) (use old nn f2(2) in \<open>auto simp: queued_def\<close>)
  moreover have "queued env s2 n cur" using old [OF p] k f2(2) by (auto simp: queued_def)
  ultimately have q2: "list_all2 (queued env s2) (ns @ [n]) (qs @ [cur])" by (simp add: list_all2_appendI)
  have nb: "node_buf s2 m = node_buf s m" if "m \<in> set ns" for m using that nn f2(2) by auto
  have bs: "distinct (map (node_buf s2) (ns @ [n]))"
    using q(2,3) nb f2(2) by (simp add: distinct_map image_iff inj_on_def)
  have "node_buf s m \<noteq> Some c" if "m \<in> set ns" for m
    using list_all2_in [OF q(1) that] c(2) by (auto simp: queued_def placed_def)
  moreover have "b \<noteq> c" using p c(2) by (auto simp: placed_def)
  ultimately have "node_buf s2 m \<noteq> Some c" if "m \<in> set (ns @ [n])" for m
    using that nb [of m] f2(2) by (cases "m = n") auto
  then have cs: "Some c \<notin> node_buf s2 ` set (ns @ [n])" by (auto dest: sym)
  have "placed env s2 c []" using c rc f2 by (simp add: placed_def)
  then show ?thesis unfolding tb_inv_def using f2 cy2 q2 bs cs sep2 len by simp
qed

text \<open>The current array is full: it is queued, and the record starts a new one.\<close>

lemma add_loop_full:
  assumes inv: "tb_inv env live s b h ns qs cur" and ok: "tenv_ok env live room" and k: "length cur = t_count env"
    and r: "2 \<le> room (t_world s)" and len: "length ns + 1 < 2 ^ 32"
  shows "\<exists>s' b' n. add_loop env r s = Some (Inr ((), s')) \<and> tb_inv env live s' b' h (ns @ [n]) (qs @ [cur]) [r] \<and>
    room (t_world s') = room (t_world s) - 2 \<and> dumped s' = dumped s"
proof -
  let ?m = "b + t_max env"
  have a: "active_v s = tb_pack ?m ?m" and sep: "separate env live s" and cy: "cyc s (h # ns)" and hd: "head_v s = tb_pack h (of_nat (length ns))"
    using inv k by (auto simp: tb_inv_def t_max_slot)
  let ?s0 = "s\<lparr>active_v := tb_pack ?m ?m + of_nat (t_size env)\<rparr>"
  have sep0: "separate env live ?s0" using sep by (simp add: separate_def)
  have r0: "0 < room (t_world ?s0)" using r by simp
  obtain c w1 where i: "init_trace_buffer env ?s0 = Some (Inr (tb_pack (c + t_max env) c,
      ?s0\<lparr>t_world := w1, rec_at := rec_at ?s0 ++ map_of (map (\<lambda>a. (a, t_zero env)) (slots env c)), arrays := insert c (arrays ?s0)\<rparr>))"
    and c: "c \<noteq> 0" "c \<notin> arrays s" "unat c + t_size env * t_count env < 2 ^ 32" "area env c \<inter> live (t_world s) = {}"
    "live w1 = live (t_world s) \<union> area env c" "room w1 = room (t_world s) - 1"
    using init_trace_buffer_fresh [OF ok sep0 r0] by auto
  define s1 where "s1 = s\<lparr>t_world := w1,
    rec_at := rec_at s ++ map_of (map (\<lambda>a. (a, t_zero env)) (slots env c)), arrays := insert c (arrays s),
    active_v := tb_pack (c + t_max env) c\<rparr>"
  have f1: "t_world s1 = w1" "active_v s1 = tb_pack (c + t_max env) c" "head_v s1 = head_v s" "node_buf s1 = node_buf s"
    "cells s1 = cells s" "arrays s1 = insert c (arrays s)" "dumped s1 = dumped s" by (simp_all add: s1_def)
  have rc: "rec_at s1 x = Some (t_zero env)" if "x \<in> area env c" for x
    using fresh_recs(1) [OF that] by (simp add: s1_def)
  have ro: "rec_at s1 x = rec_at s x" if "x \<notin> area env c" for x
    using fresh_recs(2) [OF that] by (simp add: s1_def)
  have cy1: "cyc s1 (h # ns)" using cy f1(5) by (subst cyc_cells [of _ _ s]) auto
  have d1: "dom (cells s1) \<subseteq> live (t_world s1)" using sep c(5) f1 by (auto simp: separate_def)
  have r1: "0 < room (t_world s1)" using r c(6) f1 by simp
  obtain n s2 where e: "enqueueTraceBuffer env b s1 = Some (Inr ((), s2))" and n: "n \<notin> live w1" and cy2: "cyc s2 (h # ns @ [n])"
    and f2: "head_v s2 = tb_pack h (of_nat (length (ns @ [n])))" "node_buf s2 = (node_buf s)(n \<mapsto> b)"
    "live (t_world s2) = insert n (live w1)" "room (t_world s2) = room w1 - 1" "dom (cells s2) \<subseteq> live (t_world s2)"
    "active_v s2 = active_v s1" "rec_at s2 = rec_at s1" "arrays s2 = arrays s1" "dumped s2 = dumped s"
    using enqueue_ok [OF ok r1 d1 _ len cy1, of b] hd f1 by auto
  have ap: "separate env live s2" using f1 f2 c(5) by (intro separate_grow [OF sep c(4)]) auto
  have "tb_inv env live s2 c h (ns @ [n]) (qs @ [cur]) []"
    using f1 f2 rc ro by (intro tb_inv_next [OF inv k len c(1-4) _ _ cy2 ap]) simp_all
  moreover have "length ([] :: 'b list) < t_count env" using tenv_okD(2) [OF ok] by simp
  ultimately obtain s' where s': "add_loop env r s2 = Some (Inr ((), s'))" "tb_inv env live s' c h (ns @ [n]) (qs @ [cur]) ([] @ [r])"
    "t_world s' = t_world s2" "dumped s' = dumped s2"
    using add_loop_store [OF _ ok] by blast
  have "add_loop env r s = add_loop env r s2"
    using a i e by (subst add_loop.simps) (simp add: bnd_def andthen_def gets_def modify_def s1_def)
  then show ?thesis using s' f2 c(6) by auto
qed

section \<open>Sequences of records\<close>

lemma tb_inv_frame:
  assumes "tb_inv env live s b h ns qs cur" and "live w = live (t_world s)"
  shows "tb_inv env live (s\<lparr>t_world := w, ts_v := v\<rparr>) b h ns qs cur"
proof -
  let ?s = "s\<lparr>t_world := w, ts_v := v\<rparr>"
  have "cyc ?s (h # ns)" using assms(1) by (subst cyc_cells [of _ _ s]) (auto simp: tb_inv_def)
  moreover have "placed env ?s d xs = placed env s d xs" for d xs by (simp add: placed_def)
  then have "queued env ?s = queued env s" "placed env ?s b cur = placed env s b cur" by (simp_all add: queued_def fun_eq_iff)
  moreover have "separate env live ?s = separate env live s" using assms(2) by (simp add: separate_def)
  ultimately show ?thesis using assms(1) by (simp add: tb_inv_def)
qed

lemma addEntry_step:
  assumes inv: "tb_inv env live s b h ns qs cur" and ok: "tenv_ok env live room"
    and r: "2 \<le> room (t_world s)" and len: "length ns + 1 < 2 ^ 32"
  shows "\<exists>s' b' ns' qs' cur'. addEntry env r s = Some (Inr ((), s')) \<and> add_rec (t_count env) (qs, cur) r = (qs', cur') \<and>
    tb_inv env live s' b' h ns' qs' cur' \<and> length ns' \<le> length ns + 1 \<and> room (t_world s) \<le> room (t_world s') + 2 \<and>
    dumped s' = dumped s"
proof -
  obtain now w where c: "t_clock env (t_world s) = (now, w)" by (cases "t_clock env (t_world s)")
  have w: "live w = live (t_world s)" "room w = room (t_world s)"
    using tenv_okD(5,6) [OF ok, of "t_world s"] c by simp_all
  let ?s = "s\<lparr>t_world := w, ts_v := word_of_int now\<rparr>"
  have start: "addEntry env r s = add_loop env r ?s"
    using c ts.write_run [OF tenv_okD(9) [OF ok]]
    by (simp add: addEntry_def bnd_def andthen_def tsys_def) (simp add: ts_var_def)
  have inv2: "tb_inv env live ?s b h ns qs cur" using inv w(1) by (rule tb_inv_frame)
  have le: "length cur \<le> t_count env" using inv by (simp add: tb_inv_def placed_def)
  show ?thesis
  proof (cases "length cur = t_count env")
    case True
    then show ?thesis using add_loop_full [OF inv2 ok True _ len, of r] r w start by fastforce
  next
    case False
    then have "length cur < t_count env" using le by simp
    then show ?thesis using add_loop_store [OF inv2 ok, of r] w start False by fastforce
  qed
qed

text \<open>Every record goes to the end of the trace; nothing is lost when an array is full.\<close>

lemma addEntry_all:
  assumes "tb_inv env live s b h ns qs cur" and ok: "tenv_ok env live room"
    and "2 * length rs \<le> room (t_world s)" and "length ns + length rs < 2 ^ 32"
  shows "\<exists>s' b' ns' qs' cur'. run_all (addEntry env) rs s = Some (Inr ((), s')) \<and>
    foldl (add_rec (t_count env)) (qs, cur) rs = (qs', cur') \<and> tb_inv env live s' b' h ns' qs' cur' \<and> dumped s' = dumped s \<and>
    room (t_world s) \<le> room (t_world s') + 2 * length rs"
  using assms(1,3,4)
proof (induction rs arbitrary: s b ns qs cur)
  case Nil
  then show ?case by (auto simp: ret_def)
next
  case (Cons r rs)
  obtain s1 b1 ns1 qs1 cur1 where a: "addEntry env r s = Some (Inr ((), s1))" "add_rec (t_count env) (qs, cur) r = (qs1, cur1)"
    "tb_inv env live s1 b1 h ns1 qs1 cur1" "length ns1 \<le> length ns + 1" "room (t_world s) \<le> room (t_world s1) + 2" "dumped s1 = dumped s"
    using addEntry_step [OF Cons.prems(1) ok, of r] Cons.prems(2,3) by auto
  have r1: "2 * length rs \<le> room (t_world s1)" "length ns1 + length rs < 2 ^ 32" using a(4,5) Cons.prems(2,3) by auto
  show ?case using Cons.IH [OF a(3) r1] a by (auto simp: andthen_def bnd_def) (metis add_le_mono1 add.assoc order_trans)
qed

lemma add_rec_concat:
  "foldl (add_rec n) (qs, cur) rs = (qs', cur') \<Longrightarrow> concat qs' @ cur' = concat qs @ cur @ rs"
  by (induction rs arbitrary: qs cur) (auto split: if_splits)

section \<open>The flush thread\<close>

lemma keeps_flush_node: "keeps cells (flush_node env n)"
  unfolding flush_node_def call_flush_def free_trace_buffer_def by (intro keep_rules) simp_all

text \<open>The arrays of the queue are handed over in order, then freed.\<close>

lemma flush_nodes:
  assumes "list_all2 (queued env s) ns qs" "distinct (map (node_buf s) ns)"
    and "\<forall>p\<in>arrays s. \<forall>q\<in>arrays s. p \<noteq> q \<longrightarrow> area env p \<inter> area env q = {}"
  shows "\<exists>s'. run_all (flush_node env) ns s = Some (Inr ((), s')) \<and> dumped s' = dumped s @ qs \<and>
    count_v s' = count_v s - of_nat (length ns) \<and> arrays s' = arrays s - {b. Some b \<in> node_buf s ` set ns} \<and>
    cells s' = cells s \<and> head_v s' = head_v s \<and> active_v s' = active_v s \<and> warned s' = warned s \<and> t_world s' = t_world s \<and>
    (\<forall>a. (\<forall>d. Some d \<in> node_buf s ` set ns \<longrightarrow> a \<notin> area env d) \<longrightarrow> rec_at s' a = rec_at s a)"
  using assms
proof (induction ns arbitrary: s qs)
  case Nil
  then show ?case by (simp add: ret_def)
next
  case (Cons n ns)
  obtain xs qs' where qs: "qs = xs # qs'" "queued env s n xs" "list_all2 (queued env s) ns qs'"
    using Cons.prems(1) by (auto simp: list_all2_Cons1)
  obtain b where b: "node_buf s n = Some b" "placed env s b xs" "length xs = t_count env"
    using qs(2) unfolding queued_def by blast
  have ba: "b \<in> arrays s" "b \<noteq> 0" "\<forall>a\<in>area env b. rec_at s a \<noteq> None" using b(2) by (auto simp: placed_def)
  let ?s = "s\<lparr>dumped := dumped s @ [xs], rec_at := rec_at s |` (- set (slots env b)), arrays := arrays s - {b}, count_v := count_v s - 1\<rparr>"
  have run: "flush_node env n s = Some (Inr ((), ?s))"
    using b ba placed_full [OF b(2,3)]
    by (auto simp: flush_node_def call_flush_def free_trace_buffer_def bnd_def andthen_def gets_def modify_def area_def)
  have "list_all2 (queued env ?s) ns qs'"
    using qs(3)
  proof (rule list.rel_mono_strong)
    fix m ys assume m: "m \<in> set ns" "queued env s m ys"
    then obtain d where d: "node_buf s m = Some d" "placed env s d ys" "length ys = t_count env" by (auto simp: queued_def)
    have "d \<noteq> b" using Cons.prems(2) m(1) d(1) b(1) by force
    moreover have "d \<in> arrays s" using d(2) by (simp add: placed_def)
    ultimately have "placed env ?s d ys"
      using Cons.prems(3) ba(1) by (intro placed_frame [OF d(2)]) (auto simp: area_def restrict_map_def disjoint_iff)
    then show "queued env ?s m ys" using d by (auto simp: queued_def)
  qed
  then obtain s' where s': "run_all (flush_node env) ns ?s = Some (Inr ((), s'))" "dumped s' = dumped ?s @ qs'"
    "count_v s' = count_v ?s - of_nat (length ns)" "arrays s' = arrays ?s - {b. Some b \<in> node_buf ?s ` set ns}"
    "cells s' = cells ?s" "head_v s' = head_v ?s" "active_v s' = active_v ?s" "warned s' = warned ?s" "t_world s' = t_world ?s"
    "\<forall>a. (\<forall>d. Some d \<in> node_buf ?s ` set ns \<longrightarrow> a \<notin> area env d) \<longrightarrow> rec_at s' a = rec_at ?s a"
    using Cons.IH [of ?s qs'] Cons.prems(2,3) by auto
  have "arrays s' = arrays s - {d. Some d \<in> node_buf s ` set (n # ns)}" using s'(4) b(1) by auto
  moreover have "rec_at s' a = rec_at s a" if "\<forall>d. Some d \<in> node_buf s ` set (n # ns) \<longrightarrow> a \<notin> area env d" for a
    using that s'(10) b(1) by (auto simp: area_def restrict_map_def)
  ultimately show ?case using run s' qs(1) by (simp add: andthen_def bnd_def)
qed

definition same_trace :: "('w, 'r) tracer \<Rightarrow> ('w, 'r) tracer \<Rightarrow> bool" where
  "same_trace s s' \<longleftrightarrow> active_v s' = active_v s \<and> rec_at s' = rec_at s \<and> arrays s' = arrays s \<and> node_buf s' = node_buf s \<and>
     dumped s' = dumped s \<and> warned s' = warned s"

lemma same_traceD:
  assumes "same_trace s s'"
  shows "placed env s' = placed env s" "queued env s' = queued env s"
  using assms by (simp_all add: same_trace_def placed_def queued_def fun_eq_iff)

lemma init_trace_head_ok:
  assumes ok: "tenv_ok env live room" and r: "0 < room (t_world s)" and d: "dom (cells s) \<subseteq> live (t_world s)"
  shows "\<exists>h' s'. init_trace_head env s = Some (Inr (tb_pack h' 0, s')) \<and> h' \<notin> live (t_world s) \<and> cyc s' [h'] \<and>
    (\<forall>p. p \<noteq> h' \<longrightarrow> cells s' p = cells s p) \<and> same_trace s s' \<and> head_v s' = head_v s \<and>
    live (t_world s') = insert h' (live (t_world s)) \<and> room (t_world s') = room (t_world s) - 1"
proof -
  obtain h' w' where m: "t_malloc env 8 (t_world s) = (h', w')" by (cases "t_malloc env 8 (t_world s)")
  have "malloc_ok live room (t_world s) (h', w')" using tenv_okD(4) [OF ok, of "t_world s" 8] r m by simp
  then have h: "h' \<noteq> 0" "h' \<notin> live (t_world s)" "live w' = insert h' (live (t_world s))"
    "room w' = room (t_world s) - 1" by (simp_all add: malloc_ok_def)
  let ?s = "s\<lparr>t_world := w', cells := (cells s)(h' \<mapsto> \<lparr>prev_p = 0, next_p = 0\<rparr>)\<rparr>"
  obtain s' where s': "does (INIT_LIST_HEAD h') ?s s'" "cyc s' [h']" "within {h'} ?s s'"
    using INIT_LIST_HEAD_cyc [of ?s h'] h(1) by (auto simp: mem_def)
  note f = more_fields [OF s'(3) [unfolded within_def, THEN conjunct1]]
  have "init_trace_head env s = Some (Inr (tb_pack h' 0, s'))"
    using s'(1) m h(1) head_word [OF h(1)]
    by (simp add: init_trace_head_def alloc_trace_head_def bnd_def andthen_def tsys_def modify_def ret_def)
  moreover have "\<forall>p. p \<noteq> h' \<longrightarrow> cells s' p = cells s p" using s'(3) by (simp add: within_def)
  moreover have "same_trace s s'" using f by (simp add: same_trace_def)
  ultimately show ?thesis using h s'(2) f by auto
qed

lemma queued_arrays:
  assumes "list_all2 (queued env s) ns qs" "Some d \<in> node_buf s ` set ns" shows "d \<in> arrays s"
  using assms list_all2_in [OF assms(1)] by (fastforce simp: queued_def placed_def)

text \<open>The active array is not among the queued ones, so flushing those leaves it alone.\<close>

lemma placed_after_drain:
  assumes inv: "tb_inv env live s b h ns qs cur"
    and ar: "arrays s' = arrays s - {b. Some b \<in> node_buf s ` set ns}"
    and rc: "\<forall>a. (\<forall>d. Some d \<in> node_buf s ` set ns \<longrightarrow> a \<notin> area env d) \<longrightarrow> rec_at s' a = rec_at s a"
  shows "placed env s' b cur"
proof (rule placed_frame)
  note I = inv [unfolded tb_inv_def]
  show "placed env s b cur" using I by simp
  have nb: "Some b \<notin> node_buf s ` set ns" and bar: "b \<in> arrays s" using I by (simp_all add: placed_def)
  then show "b \<in> arrays s'" using ar by simp
  have "area env b \<inter> area env d = {}" if "Some d \<in> node_buf s ` set ns" for d
  proof -
    have "d \<in> arrays s" using queued_arrays [OF _ that, of env qs] I by simp
    moreover have "b \<noteq> d" using nb that by blast
    ultimately show ?thesis using I bar unfolding separate_def by blast
  qed
  then show "rec_at s' a = rec_at s a" if "a \<in> area env b" for a using rc that by blast
qed

text \<open>A round that finds arrays in the queue hands all of them to \<open>flush\<close>, in order, and frees them.\<close>

lemma drain_queue_ok:
  assumes inv: "tb_inv env live s b h ns qs cur" and ok: "tenv_ok env live room" and r: "0 < room (t_world s)"
    and ne: "ns \<noteq> []" and i: "fst (t_interrupted env (t_world s)) = False"
  shows "\<exists>s' h'. drain_queue env s = Some (Inr ((), s')) \<and> dumped s' = dumped s @ qs \<and> warned s' = warned s \<and>
    tb_inv env live s' b h' [] [] cur \<and> arrays s' = arrays s - {q. Some q \<in> node_buf s ` set ns} \<and>
    room (t_world s') = room (t_world s) - 1"
proof -
  note I = inv [unfolded tb_inv_def]
  obtain wi where w: "t_interrupted env (t_world s) = (False, wi)" using i by (cases "t_interrupted env (t_world s)") simp
  let ?s1 = "s\<lparr>t_world := wi\<rparr>"
  have lw: "live wi = live (t_world s)" "room wi = room (t_world s)"
    using tenv_okD(7,8) [OF ok, of "t_world s"] w by simp_all
  obtain h' s2 where s2: "init_trace_head env ?s1 = Some (Inr (tb_pack h' 0, s2))" "h' \<notin> live (t_world s)" "cyc s2 [h']"
    "\<forall>p. p \<noteq> h' \<longrightarrow> cells s2 p = cells s p" "same_trace ?s1 s2" "head_v s2 = head_v s" "live (t_world s2) = insert h' (live (t_world s))"
    "room (t_world s2) = room (t_world s) - 1"
    using init_trace_head_ok [OF ok, of ?s1] r lw I by (auto simp: separate_def)
  have st: "same_trace s s2" using s2(5) by (simp add: same_trace_def)
  let ?s3 = "s2\<lparr>head_v := tb_pack h' 0, count_v := of_nat (length ns)\<rparr>"
  have st3: "same_trace s ?s3" using st by (simp add: same_trace_def)
  have cyI: "cyc s (h # ns)" and lI: "dom (cells s) \<subseteq> live (t_world s)" using I by (simp_all add: separate_def)
  have hl: "p \<in> live (t_world s)" "p \<noteq> 0" if "p \<in> set (h # ns)" for p
    using cyc_mem [OF cyI that] lI by (auto simp: mem_def)
  have hn: "h' \<notin> set (h # ns)" using hl(1) s2(2) by blast
  have cy: "cyc ?s3 (h # ns)"
  proof (subst cyc_cells [of _ _ s])
    show "cells ?s3 p = cells s p" if "p \<in> set (h # ns)" for p using that hn s2(4) by auto
  qed (use I in simp)
  have q: "list_all2 (queued env ?s3) ns qs" "distinct (map (node_buf ?s3) ns)"
    "\<forall>p\<in>arrays ?s3. \<forall>q\<in>arrays ?s3. p \<noteq> q \<longrightarrow> area env p \<inter> area env q = {}"
    using I same_traceD(2) [OF st3] st3 by (simp_all add: same_trace_def separate_def)
  obtain s4 where s4: "run_all (flush_node env) ns ?s3 = Some (Inr ((), s4))" "dumped s4 = dumped s @ qs"
    "count_v s4 = 0" "arrays s4 = arrays s - {b. Some b \<in> node_buf s ` set ns}" "cells s4 = cells s2"
    "head_v s4 = tb_pack h' 0" "active_v s4 = active_v s" "warned s4 = warned s"
    "t_world s4 = t_world s2" "\<forall>a. (\<forall>d. Some d \<in> node_buf s ` set ns \<longrightarrow> a \<notin> area env d) \<longrightarrow> rec_at s4 a = rec_at s a"
    using flush_nodes [OF q] st3 by (auto simp: same_trace_def)
  have visit: "list_for_each_entry 0 (flush_node env) h ?s3 = Some (Inr ((), s4))"
    using ring_queue.visit_ok [OF cy keeps_flush_node, of 0] s4(1) by simp
  have hd: "head_v s = tb_pack h (of_nat (length ns))" and len: "length ns < 2 ^ 32" using I by simp_all
  have c0: "(of_nat (length ns) :: addr) \<noteq> 0" using unat_small [OF len] ne by (metis length_0_conv unat_0)
  have cnt: "ucast (tb_pack h (of_nat (length ns)) AND 0xffffffff) = (of_nat (length ns) :: addr)"
    using tb_halves(2) [of h "of_nat (length ns)"] unfolding TB_CURR_def .
  let ?s5 = "s4\<lparr>cells := (cells s4)(h := None)\<rparr>"
  have "drain_queue env s = Some (Inr ((), ?s5))"
    using w s2(1,6) visit s4(3) hd c0
    by (simp add: drain_queue_def bnd_def andthen_def gets_def tsys_def modify_def cnt Let_def ret_def)
  moreover have "cyc ?s5 [h']" using s2(3) s4(5) hn by (subst cyc_cells [of _ _ s2]) auto
  moreover have "placed env ?s5 b cur" by (rule placed_after_drain [OF inv]) (use s4(4,10) in simp_all)
  moreover have "separate env live ?s5"
  proof -
    have "dom (cells ?s5) \<subseteq> insert h' (dom (cells s))" using s2(4) s4(5) by (auto simp: dom_def)
    then have "dom (cells ?s5) \<subseteq> live (t_world ?s5)" using lI s4(9) s2(7) by auto
    moreover have "separate env live s" using I by simp
    ultimately show ?thesis using s4(4,9) s2(7) by (simp add: separate_def) blast
  qed
  ultimately show ?thesis using s4 s2(8) I by (fastforce simp: tb_inv_def)
qed

text \<open>
  A whole round of the flush thread, which sleeps, compares the clock with the time of the last
  record, and looks at the queue.  \<open>idle\<close> is what it tests.
\<close>

definition after_sleep :: "('w, 'r) tenv \<Rightarrow> ('w, 'r) tracer \<Rightarrow> int \<times> 'w" where
  "after_sleep env s = t_clock env (t_sleep env (flush_timeout_v s) (t_world s))"

definition idle :: "('w, 'r) tenv \<Rightarrow> ('w, 'r) tracer \<Rightarrow> bool" where
  "idle env s \<longleftrightarrow> ucast (flush_timeout_v s) < word_of_int (fst (after_sleep env s)) - ts_v s"

lemma tracer_round_busy:
  assumes ok: "tenv_ok env live room" and busy: "\<not> idle env s"
  shows "tracer_round env s = drain_queue env (s\<lparr>t_world := snd (after_sleep env s)\<rparr>)"
  using busy ts.read_run [OF tenv_okD(9) [OF ok]]
  by (cases "after_sleep env s")
    (simp add: tracer_round_def idle_def after_sleep_def bnd_def andthen_def gets_def tsys_def ret_def ts_var_def)

lemma tracer_round_ok:
  assumes inv: "tb_inv env live s b h ns qs cur" and ok: "tenv_ok env live room" and r: "0 < room (t_world s)"
    and busy: "\<not> idle env s" and i: "fst (t_interrupted env (snd (after_sleep env s))) = False"
  shows "\<exists>s' h'. tracer_round env s = Some (Inr ((), s')) \<and> dumped s' = dumped s @ qs \<and> warned s' = warned s \<and>
    tb_inv env live s' b h' [] [] cur \<and> arrays s' = arrays s - {q. Some q \<in> node_buf s ` set ns}"
proof -
  let ?w = "snd (after_sleep env s)"
  let ?s = "s\<lparr>t_world := ?w\<rparr>"
  have w: "live ?w = live (t_world s)" "room ?w = room (t_world s)"
    using ok tenv_okD(5,6) [OF ok] by (simp_all add: after_sleep_def tenv_ok_def)
  have inv1: "tb_inv env live ?s b h ns qs cur" using tb_inv_frame [OF inv w(1), of "ts_v s"] by simp
  note run = tracer_round_busy [OF ok busy]
  show ?thesis
  proof (cases "ns = []")
    case True
    have "qs = []" "head_v s = tb_pack h 0" using inv True by (auto simp: tb_inv_def)
    moreover have "ucast (tb_pack h 0 AND 0xffffffff) = (0 :: addr)"
      using tb_halves(2) [of h 0] unfolding TB_CURR_def by simp
    ultimately have "drain_queue env ?s = Some (Inr ((), ?s))"
      by (simp add: drain_queue_def bnd_def gets_def ret_def Let_def)
    then show ?thesis using run inv1 True \<open>qs = []\<close> by auto
  next
    case False
    then show ?thesis using drain_queue_ok [OF inv1 ok _ False] i w(2) r run by auto
  qed
qed

text \<open>
  The check for inactivity queues the wrong address: it takes \<open>cptr - max\<close> for the start of
  the array, which is right only for a full one.  The records of a partly filled array are
  then neither in the queue nor in the current array.
\<close>

lemma idle_flush_loses:
  assumes inv: "tb_inv env live s b h ns qs cur" and ok: "tenv_ok env live room" and r: "2 \<le> room (t_world s)"
    and len: "length ns + 1 < 2 ^ 32" and part: "drop_bit 1 (t_max env) < TB_MAX (active_v s) - TB_CURR (active_v s)"
  shows "\<exists>s' n c. idle_flush env s = Some (Inr ((), s')) \<and> cyc s' (h # ns @ [n]) \<and> TB_MAX (active_v s') = c + t_max env \<and>
    c \<noteq> b \<and> (\<forall>m\<in>set (ns @ [n]). node_buf s' m \<noteq> Some b)"
proof -
  note I = inv [unfolded tb_inv_def]
  have sep: "separate env live s" and p: "placed env s b cur" and cy: "cyc s (h # ns)" using I by simp_all
  have r0: "0 < room (t_world s)" using r by simp
  obtain c w1 where i: "init_trace_buffer env s = Some (Inr (tb_pack (c + t_max env) c,
      s\<lparr>t_world := w1, rec_at := rec_at s ++ map_of (map (\<lambda>a. (a, t_zero env)) (slots env c)), arrays := insert c (arrays s)\<rparr>))"
    and c: "c \<notin> arrays s" "live w1 = live (t_world s) \<union> area env c" "room w1 = room (t_world s) - 1"
    using init_trace_buffer_fresh [OF ok sep r0] by auto
  define s1 where "s1 = s\<lparr>t_world := w1,
    rec_at := rec_at s ++ map_of (map (\<lambda>a. (a, t_zero env)) (slots env c)), arrays := insert c (arrays s),
    active_v := tb_pack (c + t_max env) c\<rparr>"
  have f1: "t_world s1 = w1" "head_v s1 = head_v s" "node_buf s1 = node_buf s" "cells s1 = cells s"
    "active_v s1 = tb_pack (c + t_max env) c" by (simp_all add: s1_def)
  have cy1: "cyc s1 (h # ns)" using cy f1(4) by (subst cyc_cells [of _ _ s]) auto
  have d1: "dom (cells s1) \<subseteq> live (t_world s1)" using sep c(2) f1 by (auto simp: separate_def)
  let ?d = "TB_CURR (active_v s) - t_max env"
  obtain n s2 where e: "enqueueTraceBuffer env ?d s1 = Some (Inr ((), s2))" "n \<notin> live w1" "cyc s2 (h # ns @ [n])"
    "node_buf s2 = (node_buf s)(n \<mapsto> ?d)" "active_v s2 = active_v s1"
    using enqueue_ok [OF ok _ d1 _ len cy1, of ?d] r c(3) f1 I by auto
  have "?d \<noteq> b"
  proof
    assume "?d = b"
    then have "TB_CURR (active_v s) = b + t_max env" by (simp add: algebra_simps)
    then show False using part I by simp
  qed
  moreover have "node_buf s m \<noteq> Some b" if "m \<in> set ns" for m
    using I that by (metis imageI)
  ultimately have "\<forall>m\<in>set (ns @ [n]). node_buf s2 m \<noteq> Some b" using e(4) by auto
  moreover have "c \<noteq> b" using p c(1) by (auto simp: placed_def)
  moreover have "idle_flush env s = Some (Inr ((), s2))"
    using part i e(1) by (simp add: idle_flush_def bnd_def andthen_def gets_def modify_def s1_def)
  ultimately show ?thesis using e(3,5) f1(5) by auto
qed

text \<open>The constructor sets up an empty trace.\<close>

lemma Tracer_ctor_inv:
  assumes ok: "tenv_ok env live room" and r: "2 \<le> room (t_world s)" and sep: "separate env live s"
  shows "\<exists>s' b h. Tracer_ctor env s = Some (Inr ((), s')) \<and> tb_inv env live s' b h [] [] [] \<and>
    room (t_world s') = room (t_world s) - 2 \<and> dumped s' = dumped s"
proof -
  let ?s0 = "s\<lparr>flush_timeout_v := TRACER_FLUSH_TIMEOUT\<rparr>"
  have sep0: "separate env live ?s0" "0 < room (t_world ?s0)" using sep r by (simp_all add: separate_def)
  obtain b w1 where i: "init_trace_buffer env ?s0 = Some (Inr (tb_pack (b + t_max env) b,
      ?s0\<lparr>t_world := w1, rec_at := rec_at ?s0 ++ map_of (map (\<lambda>a. (a, t_zero env)) (slots env b)), arrays := insert b (arrays ?s0)\<rparr>))"
    and b: "b \<noteq> 0" "b \<notin> arrays s" "unat b + t_size env * t_count env < 2 ^ 32" "area env b \<inter> live (t_world s) = {}"
    "live w1 = live (t_world s) \<union> area env b" "room w1 = room (t_world s) - 1"
    using init_trace_buffer_fresh [OF ok sep0] by auto
  define s1 where "s1 = s\<lparr>flush_timeout_v := TRACER_FLUSH_TIMEOUT, t_world := w1,
    rec_at := rec_at s ++ map_of (map (\<lambda>a. (a, t_zero env)) (slots env b)), arrays := insert b (arrays s),
    active_v := tb_pack (b + t_max env) b\<rparr>"
  have f1: "t_world s1 = w1" "cells s1 = cells s" "arrays s1 = insert b (arrays s)" "active_v s1 = tb_pack (b + t_max env) b"
    by (simp_all add: s1_def)
  have d1: "dom (cells s1) \<subseteq> live (t_world s1)" "0 < room (t_world s1)" using sep r b f1 by (auto simp: separate_def)
  obtain h s2 where s2: "init_trace_head env s1 = Some (Inr (tb_pack h 0, s2))" "h \<notin> live w1" "cyc s2 [h]"
    "\<forall>p. p \<noteq> h \<longrightarrow> cells s2 p = cells s p" "same_trace s1 s2" "live (t_world s2) = insert h (live w1)"
    "room (t_world s2) = room w1 - 1"
    using init_trace_head_ok [OF ok d1(2,1)] f1 by auto
  let ?s = "s2\<lparr>head_v := tb_pack h 0\<rparr>"
  have run: "Tracer_ctor env s = Some (Inr ((), ?s))"
    using i s2(1) by (simp add: Tracer_ctor_def bnd_def andthen_def modify_def s1_def)
  have "rec_at s2 x = Some (t_zero env)" if "x \<in> area env b" for x
    using fresh_recs(1) [OF that] s2(5) by (simp add: same_trace_def s1_def)
  then have "placed env ?s b []" using b s2(5) f1 by (simp add: placed_def same_trace_def)
  moreover have "dom (cells s2) \<subseteq> live (t_world s2)"
  proof
    fix x assume "x \<in> dom (cells s2)"
    then have "x = h \<or> x \<in> dom (cells s)" using s2(4) by auto
    then show "x \<in> live (t_world s2)" using s2(6) d1 f1 by auto
  qed
  then have "separate env live ?s"
    using s2(5,6) f1 b(5) by (intro separate_grow [OF sep b(4)]) (auto simp: same_trace_def)
  moreover have "cyc ?s [h]" using s2(3) by (subst cyc_cells [of _ _ s2]) auto
  ultimately have "tb_inv env live ?s b h [] [] []" using s2(5) f1 by (simp add: tb_inv_def same_trace_def)
  moreover have "dumped s2 = dumped s" using s2(5) by (simp add: same_trace_def s1_def)
  ultimately show ?thesis using run s2(7) b(6) by auto
qed

end
