(* ===== verification/Sample_mem.thy ===== *)
theory Sample_mem
  imports Hlists Tracebuf
begin

unbundle bit_operations_syntax

text \<open>
  Small concrete memories for the list theories and a small concrete environment for the
  trace buffer: instances that meet what the theorems assume, on which the
  witnesses are evaluated.
\<close>

section \<open>Rings\<close>

text \<open>A ring with the head \<open>0x10\<close> and two entries, a second empty ring, and a loose node.\<close>

definition sample_ring :: lmem where
  "sample_ring = \<lparr>cells = [0x10 \<mapsto> \<lparr>prev_p = 0x30, next_p = 0x20\<rparr>, 0x20 \<mapsto> \<lparr>prev_p = 0x10, next_p = 0x30\<rparr>,
     0x30 \<mapsto> \<lparr>prev_p = 0x20, next_p = 0x10\<rparr>, 0x40 \<mapsto> \<lparr>prev_p = 0x40, next_p = 0x40\<rparr>,
     0x50 \<mapsto> \<lparr>prev_p = 0, next_p = 0\<rparr>]\<rparr>"

lemma sample_ring_cyc: "cyc sample_ring [0x10, 0x20, 0x30]" "cyc sample_ring [0x40]"
  by (simp_all add: cyc_def link_def mem_def nx_def pv_def sample_ring_def)

lemma sample_ring_mem: "mem sample_ring 0x50" "\<forall>p\<in>{0x10, 0x20, 0x30, 0x40}. mem sample_ring p"
  by (simp_all add: mem_def sample_ring_def)

lemma sample_ring_poison: "LIST_POISON1 \<notin> dom (cells sample_ring)"
  by (simp add: LIST_POISON1_def sample_ring_def)

section \<open>Hash lists\<close>

definition sample_hlist :: hmem where
  "sample_hlist = \<lparr>heads = [0x8 \<mapsto> 0x20, 0xc \<mapsto> 0],
     nodes = [0x20 \<mapsto> \<lparr>h_next = 0x30, h_pprev = Some (FirstOf 0x8)\<rparr>,
       0x30 \<mapsto> \<lparr>h_next = 0, h_pprev = Some (NextOf 0x20)\<rparr>, 0x40 \<mapsto> \<lparr>h_next = 0, h_pprev = None\<rparr>]\<rparr>"

lemma sample_hlist_ok: "hlist sample_hlist 0x8 [0x20, 0x30]" "hn sample_hlist 0x40"
  by (simp_all add: hlist_def hchain_def hn_def pp_def rd.simps sample_hlist_def)

section \<open>A trace buffer\<close>

text \<open>
  The world is the number of allocations made and the addresses handed out; each
  allocation is a page of its own, and there are a thousand of them.  A record is a
  number of eight bytes and an array holds four.
\<close>

type_synonym heap = "nat \<times> addr set"

definition page :: "nat \<Rightarrow> addr" where
  "page n = of_nat (4096 * (n + 1))"

definition sample_tenv :: "(heap, nat) tenv" where
  "sample_tenv = \<lparr>t_size = 8, t_count = 4, t_zero = 0,
     t_new = (\<lambda>(n, l). (page n, (n + 1, l \<union> {page n, page n + 8, page n + 16, page n + 24}))),
     t_malloc = (\<lambda>_ (n, l). (page n, (n + 1, insert (page n) l))),
     t_clock = (\<lambda>w. (100, w)), t_sleep = (\<lambda>_ w. w), t_interrupted = (\<lambda>w. (False, w)), t_ts_addr = 0x100\<rparr>"

definition sample_room :: "heap \<Rightarrow> nat" where
  "sample_room w = (if \<forall>a\<in>snd w. unat a < 4096 * (fst w + 1) then 1000 - fst w else 0)"

lemma unat_page: "n < 1000 \<Longrightarrow> k < 4096 \<Longrightarrow> unat (page n + of_nat k) = 4096 * (n + 1) + k"
  unfolding page_def using unat_small [of "4096 * (n + 1) + k"] by simp

lemmas unat_page_slots = unat_page [of _ 0, simplified] unat_page [of _ 8, simplified] unat_page [of _ 16, simplified]
  unat_page [of _ 24, simplified]

lemma sample_tenv_sel [simp]:
  "t_size sample_tenv = 8" "t_count sample_tenv = 4"
  "t_new sample_tenv (n, l) = (page n, (n + 1, l \<union> {page n, page n + 8, page n + 16, page n + 24}))"
  "t_malloc sample_tenv k (n, l) = (page n, (n + 1, insert (page n) l))"
  by (simp_all add: sample_tenv_def)

lemma sample_area: "area sample_tenv p = {p, p + 8, p + 16, p + 24}"
proof -
  have "[0..<4] = [0, 1, 2, 3 :: nat]" by (simp add: upt_rec)
  then show ?thesis by (auto simp: area_def slots_def)
qed

lemma sample_tenv_ok: "tenv_ok sample_tenv snd sample_room"
proof -
  have in_range: "n < 1000" "\<forall>a\<in>l. unat a < 4096 * (n + 1)" if "0 < sample_room (n, l)" for n l
    using that by (auto simp: sample_room_def split: if_splits)
  have fresh: "page n \<notin> l" "page n + 8 \<notin> l" "page n + 16 \<notin> l" "page n + 24 \<notin> l" "page n \<noteq> 0"
    if "0 < sample_room (n, l)" for n l
    using in_range [OF that] unat_page_slots [of n] by (force, force, force, force, auto simp: unat_eq_0 [symmetric])
  have left: "sample_room (n + 1, m) = sample_room (n, l) - 1"
    if "0 < sample_room (n, l)" "m \<subseteq> l \<union> {page n, page n + 8, page n + 16, page n + 24}" for n l m
    using in_range [OF that(1)] that(2) unat_page_slots [of n] by (fastforce simp: sample_room_def)
  have "new_ok sample_tenv snd sample_room (n, l) (t_new sample_tenv (n, l))" if "0 < sample_room (n, l)" for n l
    using that fresh [OF that] left [OF that] in_range(1) [OF that] unat_page_slots [of n]
    by (auto simp: new_ok_def sample_area)
  then have "new_ok sample_tenv snd sample_room w (t_new sample_tenv w)" if "0 < sample_room w" for w
    using that by (cases w) simp
  moreover have "malloc_ok snd sample_room (n, l) (t_malloc sample_tenv k (n, l))" if "0 < sample_room (n, l)" for n l k
    using fresh [OF that] left [OF that, of "insert (page n) l"] by (auto simp: malloc_ok_def)
  then have "malloc_ok snd sample_room w (t_malloc sample_tenv k w)" if "0 < sample_room w" for w k
    using that by (cases w) simp
  ultimately show ?thesis by (simp add: tenv_ok_def) (simp add: sample_tenv_def)
qed

definition sample_tracer :: "(heap, nat) tracer" where
  "sample_tracer = \<lparr>cells = Map.empty, t_world = (0, {}), active_v = 0, head_v = 0, ts_v = 0, flush_timeout_v = 0,
     rec_at = Map.empty, arrays = {}, node_buf = Map.empty, count_v = 0, dumped = [], warned = []\<rparr>"

lemma sample_tracer_sel:
  "separate sample_tenv snd sample_tracer" "sample_room (t_world sample_tracer) = 1000" "dumped sample_tracer = []"
  by (simp_all add: separate_def sample_tracer_def sample_room_def)

text \<open>A tracer that has been given five records: four are queued and one is in the active array.\<close>

lemma sample_tracer_filled:
  "\<exists>s b h n. tb_inv sample_tenv snd s b h [n] [[1, 2, 3, 4]] [5] \<and> 2 \<le> sample_room (t_world s) \<and> dumped s = []"
proof -
  obtain s b h where 1: "tb_inv sample_tenv snd s b h [] [] []" "sample_room (t_world s) = 998" "dumped s = []"
    using Tracer_ctor_inv [OF sample_tenv_ok _ sample_tracer_sel(1)] sample_tracer_sel by auto
  have f: "foldl (add_rec 4) ([], []) [1, 2, 3, 4, 5] = ([[1, 2, 3, 4]], [5 :: nat])" by simp
  obtain s' b' ns where 2: "tb_inv sample_tenv snd s' b' h ns [[1, 2, 3, 4]] [5]" "dumped s' = []"
    "998 \<le> sample_room (t_world s') + 10"
    using addEntry_all [OF 1(1) sample_tenv_ok, of "[1, 2, 3, 4, 5]"] 1(2,3) f by auto
  have "list_all2 (queued sample_tenv s') ns [[1, 2, 3, 4]]" using 2(1) by (simp add: tb_inv_def)
  then obtain n where "ns = [n]" by (auto simp: list_all2_Cons2)
  then show ?thesis using 2 by fastforce
qed

end
