(* ===== verification/Ffs.thy ===== *)
theory Ffs
  imports Prelude
begin

unbundle bit_operations_syntax

text \<open>
  \<open>ffs.h\<close>: the number of trailing zero bits of a 32-bit word by multiplication with a
  de Bruijn constant and a table.  For every word but the two the code singles out the result
  is the position of the lowest set bit.
\<close>

definition MultiplyDeBruijnBitPosition :: "int list" where
  "MultiplyDeBruijnBitPosition =
     [0, 1, 28, 2, 29, 14, 24, 3, 30, 22, 20, 15, 25, 17, 4, 8,
      31, 27, 13, 23, 21, 19, 16, 7, 26, 12, 18, 6, 11, 5, 10, 9]"

definition ffs_lsb :: "32 word \<Rightarrow> int" where
  "ffs_lsb v =
     (if v = 0 then 32
      else if v XOR (- 1) = 0 then - 1
      else MultiplyDeBruijnBitPosition ! unat (drop_bit 27 ((v AND - v) * 0x077CB531)))"

section \<open>The lowest set bit\<close>

definition lowest :: "32 word \<Rightarrow> nat \<Rightarrow> bool" where
  "lowest v k \<longleftrightarrow> bit v k \<and> (\<forall>j<k. \<not> bit v j)"

lemma lowest_exists: "v \<noteq> 0 \<Longrightarrow> \<exists>k<32. lowest v k"
proof -
  assume "v \<noteq> 0"
  then obtain n where "bit v n" by (auto simp: bit_eq_iff)
  then have b: "bit v (LEAST n. bit v n)" by (rule LeastI)
  then have "lowest v (LEAST n. bit v n)" using not_less_Least by (auto simp: lowest_def)
  moreover have "(LEAST n. bit v n) < 32" using bit_imp_le_length [OF b] by simp
  ultimately show ?thesis by blast
qed

lemma pred_lowest:
  assumes "lowest v k" shows "v - 1 = (v AND NOT (mask (Suc k))) OR mask k"
proof -
  have k: "k < 32" using assms bit_imp_le_length [of v k] by (simp add: lowest_def)
  have s: "v = (v AND NOT (mask (Suc k))) OR push_bit k 1"
  proof (rule bit_word_eqI)
    fix n assume "n < LENGTH(32)"
    then show "bit v n = bit ((v AND NOT (mask (Suc k))) OR push_bit k 1) n"
      using assms by (cases n k rule: linorder_cases)
        (auto simp: lowest_def bit_simps)
  qed
  have d: "(v AND NOT (mask (Suc k))) OR push_bit k 1 = (v AND NOT (mask (Suc k))) + push_bit k 1"
    by (rule disjunctive_add [symmetric]) (auto simp: bit_simps)
  have "v - 1 = (v AND NOT (mask (Suc k))) + (push_bit k 1 - 1)"
    by (subst s, subst d) simp
  also have "push_bit k 1 - 1 = (mask k :: 32 word)" by (simp add: mask_eq_exp_minus_1 push_bit_eq_mult)
  also have "(v AND NOT (mask (Suc k))) + mask k = (v AND NOT (mask (Suc k))) OR mask k"
    by (rule disjunctive_add) (auto simp: bit_simps)
  finally show ?thesis .
qed

lemma isolate: "lowest v k \<Longrightarrow> v AND - v = push_bit k 1"
proof (rule bit_word_eqI)
  fix n assume l: "lowest v k" and n: "n < LENGTH(32)"
  have "- v = NOT (v - 1)" by (simp add: minus_eq_not_minus_1)
  then have "bit (- v) n \<longleftrightarrow> \<not> bit ((v AND NOT (mask (Suc k))) OR mask k) n"
    using n pred_lowest [OF l] by (simp add: bit_simps)
  then show "bit (v AND - v) n = bit (push_bit k 1 :: 32 word) n"
    using l n by (cases n k rule: linorder_cases) (auto simp: lowest_def bit_simps)
qed

lemma table: "k < 32 \<Longrightarrow> MultiplyDeBruijnBitPosition ! unat (drop_bit 27 (push_bit k (0x077CB531 :: 32 word))) = int k"
proof -
  have "\<forall>k\<in>set [0..<32]. MultiplyDeBruijnBitPosition ! unat (drop_bit 27 (push_bit k (0x077CB531 :: 32 word))) = int k"
    by code_simp
  then show "k < 32 \<Longrightarrow> ?thesis" by simp
qed

lemma ffs_lsb_lowest:
  assumes "lowest v k" "v \<noteq> - 1" shows "ffs_lsb v = int k"
proof -
  have k: "k < 32" using assms bit_imp_le_length [of v k] by (simp add: lowest_def)
  have "v XOR - 1 = NOT v" by (rule bit_word_eqI) (simp add: bit_simps)
  moreover have "NOT v \<noteq> 0"
  proof
    assume "NOT v = 0"
    then have "NOT (NOT v) = NOT (0 :: 32 word)" by simp
    then show False using assms(2) by simp
  qed
  moreover have "v \<noteq> 0" using assms by (auto simp: lowest_def)
  moreover have "push_bit k 1 * 0x077CB531 = push_bit k (0x077CB531 :: 32 word)"
    by (simp add: push_bit_eq_mult)
  ultimately show ?thesis using isolate [OF assms(1)] table [OF k] by (simp add: ffs_lsb_def)
qed

end
