(* ===== verification/Timer.thy ===== *)
theory Timer
  imports Threads Complex_Main
begin

unbundle bit_operations_syntax

text \<open>
  \<open>timer.c\<close>: the periodic timer that a build with \<open>FLUSH_TIMER\<close> uses in place of the flusher
  thread.  The first part is the arithmetic on \<open>struct timespec\<close>; the second the life of the
  timer: a free real-time signal, the handler, start and stop.
\<close>

section \<open>Times\<close>

text \<open>
  \<open>double\<close> values are reals; \<open>rnd\<close> is the rounding after each floating-point operation.  What a
  lemma needs of it is \<open>double_rounding\<close> below, or nothing.  \<open>c_long\<close> is the conversion to
  \<open>long\<close>, towards zero.
\<close>

record timespec =
  tv_sec :: int
  tv_nsec :: int

definition c_long :: "real \<Rightarrow> int" where
  "c_long x = (if x < 0 then \<lceil>x\<rceil> else \<lfloor>x\<rfloor>)"

definition timespec_diff :: "(real \<Rightarrow> real) \<Rightarrow> timespec \<Rightarrow> timespec \<Rightarrow> real" where
  "timespec_diff rnd after before =
     rnd (real_of_int (s32 (tv_sec after - tv_sec before)) +
          rnd (real_of_int (s32 (tv_nsec after - tv_nsec before)) / 1000000000))"

text \<open>The nanoseconds of a duration, with the adjustment for rounding errors.\<close>

definition clamped_ns :: "(real \<Rightarrow> real) \<Rightarrow> real \<Rightarrow> int" where
  "clamped_ns rnd seconds =
     (let s = c_long seconds;
          ns = c_long (rnd (1 / 2 + rnd (1000000000 * rnd (seconds - real_of_int s))))
      in if ns < 0 then 0 else if ns > 999999999 then 999999999 else ns)"

definition timespec_add :: "(real \<Rightarrow> real) \<Rightarrow> timespec option \<Rightarrow> real \<Rightarrow> timespec option" where
  "timespec_add rnd to seconds = (case to of None \<Rightarrow> None | Some t \<Rightarrow>
     if 0 < seconds
     then let sec = s32 (tv_sec t + c_long seconds); nsec = s32 (tv_nsec t + clamped_ns rnd seconds)
          in Some (if 1000000000 \<le> nsec then t\<lparr>tv_sec := s32 (sec + 1), tv_nsec := nsec - 1000000000\<rparr>
                   else t\<lparr>tv_sec := sec, tv_nsec := nsec\<rparr>)
     else Some t)"

definition timespec_set :: "(real \<Rightarrow> real) \<Rightarrow> timespec option \<Rightarrow> real \<Rightarrow> timespec option" where
  "timespec_set rnd to seconds = (case to of None \<Rightarrow> None | Some t \<Rightarrow>
     if 0 < seconds then Some (t\<lparr>tv_sec := c_long seconds, tv_nsec := clamped_ns rnd seconds\<rparr>)
     else Some (t\<lparr>tv_sec := 0, tv_nsec := 0\<rparr>))"

section \<open>The timer\<close>

definition SIGRTMAX :: int where "SIGRTMAX = 64"
definition TIMEOUT_SIGNAL :: int where "TIMEOUT_SIGNAL = SIGRTMAX - 10"
definition TIMER_TIMEOUT :: int where "TIMER_TIMEOUT = 90"
definition SI_TIMER :: int where "SI_TIMER = - 2"

record siginfo =
  si_code :: int
  sival_ptr :: addr

text \<open>\<open>self\<close> is the address of \<open>timeout_timer\<close>; \<open>info\<close> is \<open>None\<close> for NULL.\<close>

definition timeout_signal_handler :: "'w os \<Rightarrow> addr \<Rightarrow> int \<Rightarrow> siginfo option \<Rightarrow> ('w proc, unit) exec" where
  "timeout_signal_handler os self signum info =
     (case info of None \<Rightarrow> err os ''Timer fired: Code Mismatch''
      | Some i \<Rightarrow>
     if si_code i \<noteq> SI_TIMER then err os ''Timer fired: Code Mismatch'' else
     bnd (gets (\<lambda>s. timeout_signal (timer_v s))) (\<lambda>sg.
     if sg \<noteq> signum then err os ''Timer fired: Signal Mismatch'' else
     if self \<noteq> sival_ptr i then err os ''Timer fired: Timer Mismatch'' else
     err os ''Timer fired''))"

text \<open>The test both entry points start with.\<close>

definition skip_timer :: "'w os \<Rightarrow> ('w proc, bool) exec" where
  "skip_timer os =
     bnd (process_name_str os) (\<lambda>n.
     if strncmp0 n ''/system/xbin/'' (length ''/system/xbin/'') then ret True else
     bnd (process_name_str os) (\<lambda>n.
     if strncmp0 n ''/system/bin/'' (length ''/system/bin/'') then ret True else
     bnd (asks (sys_getppid os)) (\<lambda>ppid. ret (ppid = 2))))"

definition stop_flusher_timer :: "'w os \<Rightarrow> ('w proc, unit) exec" where
  "stop_flusher_timer os =
     bnd (skip_timer os) (\<lambda>skip.
     if skip then ret () else
     bnd (gets timer_v) (\<lambda>v.
     if timeout_signal v = 0 then err os ''Timer: Doesn't  Exist'' else
     bnd (sysc (sys_sigaction_set os (timeout_signal v) SIG_IGN)) (\<lambda>r.
     if r \<noteq> 0 then err os ''Sigaction'' else
     bnd (sysc (sys_timer_settime os (timeout_timer v) 0 0)) (\<lambda>r.
     if r = - 1 then err os ''timer_settime'' else
     bnd (sysc (sys_timer_delete os (timeout_timer v))) (\<lambda>r.
     only_if (r \<noteq> 0) (err os ''timer_delete''))))))"

text \<open>The loop of \<open>get_free_signal\<close> over the signal numbers it tries.\<close>

primrec try_signals :: "'w os \<Rightarrow> int list \<Rightarrow> ('w proc, int) exec" where
  "try_signals os [] = andthen (err os ''SIGRTMAX reached'') (ret (- 1))"
| "try_signals os (signum # rest) =
     bnd (sysc (sys_sigaction_get os signum)) (\<lambda>(r, handler).
     if r = - 1 then andthen (err os ''OLD Sigaction'') (try_signals os rest)
     else if handler = 0 then ret signum
     else andthen (err os ''Already Taken'') (try_signals os rest))"

definition get_free_signal :: "'w os \<Rightarrow> ('w proc, int) exec" where
  "get_free_signal os = try_signals os [TIMEOUT_SIGNAL..SIGRTMAX - 1]"

text \<open>The address of \<open>timeout_signal_handler\<close>, which is only passed on.\<close>

definition timer_handler_addr :: nat where
  "timer_handler_addr = 3"

definition upd_timer :: "(timer_vars \<Rightarrow> timer_vars) \<Rightarrow> ('w proc, unit) exec" where
  "upd_timer f = modify (\<lambda>s. s\<lparr>timer_v := f (timer_v s)\<rparr>)"

definition cas_timeout_signal :: "int \<Rightarrow> int \<Rightarrow> ('w proc, bool) exec" where
  "cas_timeout_signal old new = bnd (gets (\<lambda>s. timeout_signal (timer_v s))) (\<lambda>v.
     if v = old then andthen (upd_timer (\<lambda>v. v\<lparr>timeout_signal := new\<rparr>)) (ret True) else ret False)"

definition start_flusher_timer :: "'w os \<Rightarrow> ('w proc, int) exec" where
  "start_flusher_timer os =
     bnd (skip_timer os) (\<lambda>skip.
     if skip then ret 0 else
     bnd (gets (\<lambda>s. timeout_signal (timer_v s))) (\<lambda>sg.
     if sg \<noteq> 0 then ret 0 else
     bnd (get_free_signal os) (\<lambda>signum.
     if signum = - 1 then ret (- 1) else
     bnd (cas_timeout_signal 0 signum) (\<lambda>ok.
     if \<not> ok then ret 0 else
     bnd (gets (\<lambda>s. timeout_signal (timer_v s))) (\<lambda>sg.
     bnd (sysc (sys_sigaction_set os sg timer_handler_addr)) (\<lambda>r.
     if r \<noteq> 0 then andthen (err os ''Sigaction(SIGRTMIN)'') (ret (- 1)) else
     bnd (sysc (sys_timer_create os sg)) (\<lambda>(r, tm).
     if r \<noteq> 0 then andthen (err os ''timer_settime'') (ret (- 1)) else
     andthen (upd_timer (\<lambda>v. v\<lparr>timeout_timer := tm\<rparr>)) (
     bnd (sysc (sys_timer_settime os tm TIMER_TIMEOUT TIMER_TIMEOUT)) (\<lambda>r.
     if r \<noteq> 0 then andthen (err os ''timer_settime'') (ret (- 1)) else
     andthen (bnd (process_name_str os) (\<lambda>_. aloge os TAG_IO ''timer created''))
             (ret 0))))))))))"

section \<open>Normalised times\<close>

lemma clamped_range: "0 \<le> clamped_ns rnd x" "clamped_ns rnd x < 1000000000"
  by (simp_all add: clamped_ns_def Let_def)

text \<open>Whatever the rounding does, the nanoseconds stay below one second.\<close>

lemma timespec_add_normal:
  assumes "0 \<le> tv_nsec t" "tv_nsec t < 1000000000"
  shows "\<exists>t'. timespec_add rnd (Some t) x = Some t' \<and> 0 \<le> tv_nsec t' \<and> tv_nsec t' < 1000000000"
  using assms clamped_range [of rnd x] by (simp add: timespec_add_def Let_def)

lemma timespec_set_normal:
  "\<exists>t'. timespec_set rnd (Some t) x = Some t' \<and> 0 \<le> tv_nsec t' \<and> tv_nsec t' < 1000000000"
  using clamped_range [of rnd x] by (simp add: timespec_set_def)

definition seconds_of :: "timespec \<Rightarrow> real" where
  "seconds_of t = real_of_int (tv_sec t) + real_of_int (tv_nsec t) / 1000000000"

text \<open>
  What IEEE double precision guarantees: a relative error of at most \<open>1 / 2 ^ 53\<close>, and for very
  small values, where it can be larger, an absolute one far below \<open>1 / 2 ^ 60\<close>.
\<close>

definition double_rounding :: "(real \<Rightarrow> real) \<Rightarrow> bool" where
  "double_rounding rnd \<longleftrightarrow> (\<forall>x. \<bar>x\<bar> \<le> 2 ^ 60 \<longrightarrow> \<bar>rnd x - x\<bar> \<le> \<bar>x\<bar> / 2 ^ 53 + 1 / 2 ^ 60)"

lemma double_roundingD:
  assumes "double_rounding rnd" "\<bar>x\<bar> \<le> m" "m \<le> 4000000000"
  shows "\<bar>rnd x - x\<bar> \<le> m / 9007199254740992 + 1 / 1152921504606846976"
proof -
  have "\<bar>x\<bar> \<le> 2 ^ 60" using assms(2,3) by simp
  then have "\<bar>rnd x - x\<bar> \<le> \<bar>x\<bar> / 9007199254740992 + 1 / 1152921504606846976"
    using assms(1) by (simp add: double_rounding_def)
  then show ?thesis using assms(2) by linarith
qed

text \<open>The three operations together are off by less than a thousandth of a nanosecond.\<close>

lemma scaled_error:
  assumes rnd: "double_rounding rnd" and f: "0 \<le> f" "f < 1"
  shows "\<bar>rnd (1 / 2 + rnd (1000000000 * rnd f)) - (1 / 2 + 1000000000 * f)\<bar> \<le> 1 / 1000"
proof -
  define a where "a = rnd f"
  have "\<bar>f\<bar> \<le> 1" using f by linarith
  from double_roundingD [OF rnd this] have a: "\<bar>a - f\<bar> \<le> 1 / 4503599627370496" unfolding a_def by simp
  define c where "c = rnd (1000000000 * a)"
  have "\<bar>1000000000 * a\<bar> \<le> 2000000000" using a f by linarith
  from double_roundingD [OF rnd this] have c: "\<bar>c - 1000000000 * a\<bar> \<le> 1 / 4000000" unfolding c_def by simp
  have "\<bar>1 / 2 + c\<bar> \<le> 3000000000" using a c f by linarith
  from double_roundingD [OF rnd this] have "\<bar>rnd (1 / 2 + c) - (1 / 2 + c)\<bar> \<le> 1 / 2000000" by simp
  then show ?thesis unfolding a_def [symmetric] c_def [symmetric] using a c by linarith
qed

text \<open>With such arithmetic the result is off by at most one nanosecond.\<close>

lemma clamped_near:
  assumes rnd: "double_rounding rnd" and "0 < x"
  shows "\<bar>real_of_int \<lfloor>x\<rfloor> + real_of_int (clamped_ns rnd x) / 1000000000 - x\<bar> \<le> 1 / 1000000000"
proof -
  define f where "f = x - real_of_int \<lfloor>x\<rfloor>"
  define y where "y = rnd (1 / 2 + rnd (1000000000 * rnd f))"
  have f: "0 \<le> f" "f < 1" unfolding f_def by linarith+
  have e: "\<bar>y - (1 / 2 + 1000000000 * f)\<bar> \<le> 1 / 1000" unfolding y_def using scaled_error [OF rnd f] .
  have y: "0 \<le> y" "y < 1000000001" using e f by linarith+
  have c: "c_long x = \<lfloor>x\<rfloor>" "c_long y = \<lfloor>y\<rfloor>" unfolding c_long_def using assms(2) y by auto
  have n: "0 \<le> \<lfloor>y\<rfloor>" "\<lfloor>y\<rfloor> \<le> 1000000000" using y by linarith+
  have k: "clamped_ns rnd x = (if \<lfloor>y\<rfloor> > 999999999 then 999999999 else \<lfloor>y\<rfloor>)"
    unfolding clamped_ns_def Let_def c(1) f_def [symmetric] y_def [symmetric] c(2) using n by simp
  have r: "real_of_int \<lfloor>y\<rfloor> \<le> y" "y < real_of_int \<lfloor>y\<rfloor> + 1" by linarith+
  have "\<bar>real_of_int (clamped_ns rnd x) - 1000000000 * f\<bar> \<le> 1"
  proof (cases "\<lfloor>y\<rfloor> > 999999999")
    case True
    then have "\<lfloor>y\<rfloor> = 1000000000" using n by linarith
    then have "1000000000 \<le> y" using r by linarith
    then have "999999999 \<le> 1000000000 * f" using e by linarith
    then show ?thesis using k True f by (simp add: abs_le_iff)
  next
    case False
    then have "clamped_ns rnd x = \<lfloor>y\<rfloor>" using k by simp
    moreover have "real_of_int \<lfloor>y\<rfloor> - 1000000000 * f \<le> 1" "1000000000 * f - real_of_int \<lfloor>y\<rfloor> \<le> 1"
      using r e by linarith+
    ultimately show ?thesis by linarith
  qed
  then show ?thesis by (simp add: f_def abs_le_iff field_simps)
qed

lemma timespec_add_near:
  assumes rnd: "double_rounding rnd" and "0 < x" "0 \<le> tv_nsec t" "tv_nsec t < 1000000000"
    and "0 \<le> tv_sec t" "real_of_int (tv_sec t) + x < 2147483647"
  shows "\<exists>t'. timespec_add rnd (Some t) x = Some t' \<and> \<bar>seconds_of t' - (seconds_of t + x)\<bar> \<le> 1 / 1000000000"
proof -
  have c: "c_long x = \<lfloor>x\<rfloor>" using assms(2) by (simp add: c_long_def)
  have fl: "0 \<le> \<lfloor>x\<rfloor>" using assms(2) by linarith
  have lt: "tv_sec t + \<lfloor>x\<rfloor> < 2147483647"
  proof -
    have "real_of_int (tv_sec t + \<lfloor>x\<rfloor>) < 2147483647" using assms(6) by linarith
    then show ?thesis by linarith
  qed
  have r: "s32 (tv_sec t + \<lfloor>x\<rfloor>) = tv_sec t + \<lfloor>x\<rfloor>" "s32 (tv_sec t + \<lfloor>x\<rfloor> + 1) = tv_sec t + \<lfloor>x\<rfloor> + 1"
    "s32 (tv_nsec t + clamped_ns rnd x) = tv_nsec t + clamped_ns rnd x"
    using assms(3,4,5) fl lt clamped_range [of rnd x] by (intro s32_id; linarith)+
  have "\<exists>t'. timespec_add rnd (Some t) x = Some t' \<and>
      seconds_of t' - (seconds_of t + x) = real_of_int \<lfloor>x\<rfloor> + real_of_int (clamped_ns rnd x) / 1000000000 - x"
    using assms(2) by (auto simp: timespec_add_def Let_def c r seconds_of_def add_divide_distrib diff_divide_distrib)
  then show ?thesis using clamped_near [OF rnd assms(2)] by metis
qed

section \<open>Life of the timer\<close>

lemma keeps_err_timer [keep_rules]: "keeps timer_v (err os txt)"
  by (rule keeps_err) (simp add: indep_defs)

lemma keeps_name_timer [keep_rules]: "keeps timer_v (process_name_str os)"
  by (rule keeps_process_name_str) (simp add: indep_defs)

lemma keeps_skip_timer [keep_rules]: "keeps timer_v (skip_timer os)"
  unfolding skip_timer_def asks_def by (intro keep_rules)

lemma keeps_stop_timer: "keeps timer_v (stop_flusher_timer os)"
  unfolding stop_flusher_timer_def by (intro keep_rules) (auto simp: indep_defs)

text \<open>A signal that the search returns is one of the ten and had no handler when it was tried.\<close>

lemma try_signals_result:
  assumes "try_signals os sigs s = Some (Inr (r, s'))"
  shows "r = - 1 \<or> r \<in> set sigs \<and> (\<exists>w c w'. sys_sigaction_get os r w = ((c, 0), w') \<and> c \<noteq> - 1)"
  using assms
proof (induction sigs arbitrary: s)
  case Nil
  then show ?case by (auto simp: andthen_def ret_def elim!: bndE)
next
  case (Cons sg sigs)
  obtain c h w' where g: "sys_sigaction_get os sg (world s) = ((c, h), w')" by (metis surj_pair)
  show ?case
  proof (cases "c \<noteq> - 1 \<and> h = 0")
    case True
    then show ?thesis using Cons.prems g by (auto simp: bnd_def sysc_def ret_def)
  next
    case False
    then obtain t where "try_signals os sigs t = Some (Inr (r, s'))"
      using Cons.prems g by (auto simp: bnd_Some sysc_def andthen_def elim!: bndE split: if_splits)
    then show ?thesis using Cons.IH by auto
  qed
qed

text \<open>The loop goes through the ten numbers and returns, as long as the error reports do.\<close>

lemma try_signals_returns:
  assumes "\<And>txt s. \<exists>s'. err os txt s = Some (Inr ((), s'))"
  shows "\<exists>r s'. try_signals os sigs s = Some (Inr (r, s'))"
proof (induction sigs arbitrary: s)
  case Nil
  then show ?case using assms [of "''SIGRTMAX reached''" s] by (auto simp: andthen_def bnd_def ret_def)
next
  case (Cons sg sigs)
  obtain c h w' where g: "sys_sigaction_get os sg (world s) = ((c, h), w')" by (metis surj_pair)
  let ?s = "s\<lparr>world := w'\<rparr>"
  obtain s1 s2 where e: "err os ''OLD Sigaction'' ?s = Some (Inr ((), s1))" "err os ''Already Taken'' ?s = Some (Inr ((), s2))"
    using assms by blast
  obtain r1 t1 r2 t2 where "try_signals os sigs s1 = Some (Inr (r1, t1))" "try_signals os sigs s2 = Some (Inr (r2, t2))"
    using Cons.IH by blast
  then show ?case using g e by (auto simp: bnd_def sysc_def andthen_def ret_def)
qed

text \<open>Once a signal is recorded every later start is a no-op, ...\<close>

lemma start_timer_again:
  assumes "name_cached os s n" "timeout_signal (timer_v s) \<noteq> 0"
  shows "start_flusher_timer os s = Some (Inr (0, s))"
  using assms
  by (simp add: start_flusher_timer_def skip_timer_def bnd_def process_name_str_hit asks_def gets_def ret_def)

text \<open>... also after the timer was stopped: \<open>stop_flusher_timer\<close> does not clear the signal.\<close>

lemma stop_then_start:
  assumes "timeout_signal (timer_v s) \<noteq> 0" and "stop_flusher_timer os s = Some (Inr (x, s'))" and "name_cached os s' n"
  shows "start_flusher_timer os s' = Some (Inr (0, s'))"
proof -
  have "timer_v s' = timer_v s" using keepsD [OF keeps_stop_timer assms(2)] .
  then show ?thesis using start_timer_again [OF assms(3)] assms(1) by simp
qed

end
