(* ===== verification/Logtime.thy ===== *)
theory Logtime
  imports Timer
begin

unbundle bit_operations_syntax

text \<open>
  The time stamp of a log entry (\<open>struct anodyne_log_time\<close> of \<open>src/jni/include/anodyne/log_read.h\<close>):
  two unsigned 32-bit numbers, read from the wire byte by byte, compared as a pair, and counted
  in nanoseconds.  The comparison operators are made the order of the type, so that the library's
  lemmas on linear orders apply to time stamps.  \<open>operator-=\<close> is only declared there
  and is an argument of \<open>operator-\<close>.
\<close>

section \<open>The structure and its constructors\<close>

datatype log_time = Log_time (lt_sec: "32 word") (lt_nsec: "32 word")

definition NS_PER_SEC :: "64 word" where
  "NS_PER_SEC = 1000000000"

definition log_time_of_timespec :: "timespec \<Rightarrow> log_time" where
  "log_time_of_timespec T = Log_time (word_of_int (tv_sec T)) (word_of_int (tv_nsec T))"

definition log_time_of :: "32 word \<Rightarrow> 32 word \<Rightarrow> log_time" where
  "log_time_of sec nsec = Log_time sec nsec"

definition log_time_of_clock :: "(int \<Rightarrow> 'w \<Rightarrow> timespec \<times> 'w) \<Rightarrow> int \<Rightarrow> 'w \<Rightarrow> log_time \<times> 'w" where
  "log_time_of_clock clock_gettime i w = (case clock_gettime i w of (T, w') \<Rightarrow>
     (Log_time (word_of_int (tv_sec T)) (word_of_int (tv_nsec T)), w'))"

definition wire32 :: "8 word list \<Rightarrow> nat \<Rightarrow> 32 word" where
  "wire32 c k = ucast (c ! k) OR push_bit 8 (ucast (c ! (k + 1))) OR push_bit 16 (ucast (c ! (k + 2))) OR
     push_bit 24 (ucast (c ! (k + 3)))"

definition log_time_of_bytes :: "8 word list \<Rightarrow> log_time option" where
  "log_time_of_bytes c = (if length c < 8 then None else Some (Log_time (wire32 c 0) (wire32 c 4)))"

section \<open>The operators\<close>

text \<open>With a \<open>timespec\<close>, whose members are cast to \<open>uint32_t\<close>.\<close>

definition eq_timespec :: "log_time \<Rightarrow> timespec \<Rightarrow> bool" where
  "eq_timespec t T \<longleftrightarrow> lt_sec t = word_of_int (tv_sec T) \<and> lt_nsec t = word_of_int (tv_nsec T)"

definition ne_timespec :: "log_time \<Rightarrow> timespec \<Rightarrow> bool" where
  "ne_timespec t T \<longleftrightarrow> \<not> eq_timespec t T"

definition lt_timespec :: "log_time \<Rightarrow> timespec \<Rightarrow> bool" where
  "lt_timespec t T \<longleftrightarrow> lt_sec t < word_of_int (tv_sec T) \<or>
     lt_sec t = word_of_int (tv_sec T) \<and> lt_nsec t < word_of_int (tv_nsec T)"

definition ge_timespec :: "log_time \<Rightarrow> timespec \<Rightarrow> bool" where
  "ge_timespec t T \<longleftrightarrow> \<not> lt_timespec t T"

definition gt_timespec :: "log_time \<Rightarrow> timespec \<Rightarrow> bool" where
  "gt_timespec t T \<longleftrightarrow> word_of_int (tv_sec T) < lt_sec t \<or>
     lt_sec t = word_of_int (tv_sec T) \<and> word_of_int (tv_nsec T) < lt_nsec t"

definition le_timespec :: "log_time \<Rightarrow> timespec \<Rightarrow> bool" where
  "le_timespec t T \<longleftrightarrow> \<not> gt_timespec t T"

text \<open>With another time stamp.\<close>

definition eq_log_time :: "log_time \<Rightarrow> log_time \<Rightarrow> bool" where
  "eq_log_time t T \<longleftrightarrow> lt_sec t = lt_sec T \<and> lt_nsec t = lt_nsec T"

definition ne_log_time :: "log_time \<Rightarrow> log_time \<Rightarrow> bool" where
  "ne_log_time t T \<longleftrightarrow> \<not> eq_log_time t T"

definition lt_log_time :: "log_time \<Rightarrow> log_time \<Rightarrow> bool" where
  "lt_log_time t T \<longleftrightarrow> lt_sec t < lt_sec T \<or> lt_sec t = lt_sec T \<and> lt_nsec t < lt_nsec T"

definition ge_log_time :: "log_time \<Rightarrow> log_time \<Rightarrow> bool" where
  "ge_log_time t T \<longleftrightarrow> \<not> lt_log_time t T"

definition gt_log_time :: "log_time \<Rightarrow> log_time \<Rightarrow> bool" where
  "gt_log_time t T \<longleftrightarrow> lt_sec T < lt_sec t \<or> lt_sec t = lt_sec T \<and> lt_nsec T < lt_nsec t"

definition le_log_time :: "log_time \<Rightarrow> log_time \<Rightarrow> bool" where
  "le_log_time t T \<longleftrightarrow> \<not> gt_log_time t T"

text \<open>
  \<open>operator-\<close> copies the object and applies \<open>operator-=\<close> to the copy.  That operator is declared and
  not defined in the repository: it is an argument, which gives the changed object and the value
  it returns.
\<close>

definition minus_timespec :: "(log_time \<Rightarrow> timespec \<Rightarrow> log_time \<times> log_time) \<Rightarrow> log_time \<Rightarrow> timespec \<Rightarrow> log_time" where
  "minus_timespec subtract t T = (let (local, r) = subtract t T in r)"

definition minus_log_time :: "(log_time \<Rightarrow> log_time \<Rightarrow> log_time \<times> log_time) \<Rightarrow> log_time \<Rightarrow> log_time \<Rightarrow> log_time" where
  "minus_log_time subtract t T = (let (local, r) = subtract t T in r)"

definition nsec :: "log_time \<Rightarrow> 64 word" where
  "nsec t = ucast (lt_sec t) * NS_PER_SEC + ucast (lt_nsec t)"

section \<open>The order\<close>

text \<open>\<open>operator<\<close> and \<open>operator<=\<close> are defined apart from one another; together they are a linear order.\<close>

instantiation log_time :: linorder
begin

definition less_log_time :: "log_time \<Rightarrow> log_time \<Rightarrow> bool" where
  "less_log_time = lt_log_time"

definition less_eq_log_time :: "log_time \<Rightarrow> log_time \<Rightarrow> bool" where
  "less_eq_log_time = le_log_time"

instance
proof
  fix x y z :: log_time
  note d = less_log_time_def less_eq_log_time_def lt_log_time_def le_log_time_def gt_log_time_def
  show "x < y \<longleftrightarrow> x \<le> y \<and> \<not> y \<le> x" by (auto simp: d)
  show "x \<le> x" by (simp add: d)
  show "x \<le> y \<Longrightarrow> y \<le> z \<Longrightarrow> x \<le> z" by (auto simp: d not_less)
  show "x \<le> y \<Longrightarrow> y \<le> x \<Longrightarrow> x = y" by (cases x; cases y) (auto simp: d not_less)
  show "x \<le> y \<or> y \<le> x" by (auto simp: d)
qed

end

lemma log_time_ops:
  "eq_log_time t T \<longleftrightarrow> t = T" "ne_log_time t T \<longleftrightarrow> t \<noteq> T" "lt_log_time t T \<longleftrightarrow> t < T"
  "ge_log_time t T \<longleftrightarrow> T \<le> t" "gt_log_time t T \<longleftrightarrow> T < t" "le_log_time t T \<longleftrightarrow> t \<le> T"
proof -
  show "eq_log_time t T \<longleftrightarrow> t = T" by (cases t; cases T) (simp add: eq_log_time_def)
  then show "ne_log_time t T \<longleftrightarrow> t \<noteq> T" by (simp add: ne_log_time_def)
  show "lt_log_time t T \<longleftrightarrow> t < T" by (simp add: less_log_time_def)
  then show "ge_log_time t T \<longleftrightarrow> T \<le> t" by (simp add: ge_log_time_def not_less)
  show "gt_log_time t T \<longleftrightarrow> T < t" by (auto simp: less_log_time_def gt_log_time_def lt_log_time_def)
  then show "le_log_time t T \<longleftrightarrow> t \<le> T" by (simp add: le_log_time_def not_less)
qed

text \<open>Comparing with a \<open>timespec\<close> is comparing with its conversion.\<close>

lemma timespec_ops:
  "eq_timespec t T \<longleftrightarrow> t = log_time_of_timespec T" "ne_timespec t T \<longleftrightarrow> t \<noteq> log_time_of_timespec T"
  "lt_timespec t T \<longleftrightarrow> t < log_time_of_timespec T" "ge_timespec t T \<longleftrightarrow> log_time_of_timespec T \<le> t"
  "gt_timespec t T \<longleftrightarrow> log_time_of_timespec T < t" "le_timespec t T \<longleftrightarrow> t \<le> log_time_of_timespec T"
  using log_time_ops [of t "log_time_of_timespec T"]
  by (simp_all add: eq_timespec_def ne_timespec_def lt_timespec_def ge_timespec_def gt_timespec_def le_timespec_def
      eq_log_time_def ne_log_time_def lt_log_time_def ge_log_time_def gt_log_time_def le_log_time_def
      log_time_of_timespec_def)

section \<open>Nanoseconds\<close>

text \<open>The count does not wrap, whatever the members hold.\<close>

lemma unat_nsec: "unat (nsec t) = unat (lt_sec t) * 1000000000 + unat (lt_nsec t)"
proof -
  have a: "unat x < 4294967296" for x :: "32 word"
    using unsigned_less [of x, where 'a = nat] by simp
  have u: "unat (ucast x :: 64 word) = unat x" for x :: "32 word"
    using a [of x] by (simp add: unsigned_ucast_eq take_bit_nat_eq_self)
  have "unat (nsec t) = (unat (lt_sec t) * 1000000000 + unat (lt_nsec t)) mod 2 ^ 64"
    by (simp add: nsec_def NS_PER_SEC_def unat_word_ariths u mod_simps)
  also have "\<dots> = unat (lt_sec t) * 1000000000 + unat (lt_nsec t)" using a [of "lt_sec t"] a [of "lt_nsec t"] by simp
  finally show ?thesis .
qed

text \<open>On normalised time stamps it orders them as the operators do.\<close>

lemma nsec_order:
  assumes "unat (lt_nsec t) < 1000000000" "unat (lt_nsec T) < 1000000000"
  shows "nsec t < nsec T \<longleftrightarrow> t < T"
proof -
  have "nsec t < nsec T \<longleftrightarrow> unat (lt_sec t) < unat (lt_sec T) \<or>
      unat (lt_sec t) = unat (lt_sec T) \<and> unat (lt_nsec t) < unat (lt_nsec T)"
    unfolding word_less_nat_alt unat_nsec using assms by (auto simp: not_less)
  then show ?thesis by (simp add: less_log_time_def lt_log_time_def word_less_nat_alt word_unat_eq_iff)
qed

section \<open>The wire\<close>

definition wire_bytes :: "log_time \<Rightarrow> 8 word list" where
  "wire_bytes t = [ucast (lt_sec t), ucast (drop_bit 8 (lt_sec t)), ucast (drop_bit 16 (lt_sec t)), ucast (drop_bit 24 (lt_sec t)),
     ucast (lt_nsec t), ucast (drop_bit 8 (lt_nsec t)), ucast (drop_bit 16 (lt_nsec t)), ucast (drop_bit 24 (lt_nsec t))]"

lemma wire_word:
  fixes x :: "32 word"
  shows "ucast (ucast x :: 8 word) OR push_bit 8 (ucast (ucast (drop_bit 8 x) :: 8 word)) OR
    push_bit 16 (ucast (ucast (drop_bit 16 x) :: 8 word)) OR push_bit 24 (ucast (ucast (drop_bit 24 x) :: 8 word)) = x" (is "?w = x")
proof (rule bit_word_eqI)
  fix n assume "n < LENGTH(32)"
  then consider "n < 8" | "8 \<le> n" "n < 16" | "16 \<le> n" "n < 24" | "24 \<le> n" "n < 32" by fastforce
  then show "bit ?w n = bit x n"
    by cases (auto simp: bit_simps)
qed

lemma wire_roundtrip: "log_time_of_bytes (wire_bytes t @ rest) = Some t"
  by (cases t) (simp add: log_time_of_bytes_def wire_bytes_def wire32_def wire_word)

end
