(* ===== verification/Spec2Isabelle.thy ===== *)
theory Spec2Isabelle
  imports Sample Sample_mem Ffs Logtime
begin

text \<open>
  \<^bold>\<open>COSMOST storage tracer: a verification library.\<close>

  The program is a shared library that is preloaded into Android processes
  (\<open>src/jni/tracer\<close>).  It interposes the file calls of the C library, records what they do
  to regular files under a few directories, and writes the records, many at a time, to the
  Android log.  Its parts and the theories that model them:

  \<^item> Shared vocabulary.  \<open>Prelude\<close> has the state-and-fault monad in which C functions are
    written (\<open>'s \<Rightarrow> (fault + 'a \<times> 's) option\<close>: \<open>None\<close> is not returning, \<open>Inl\<close> is undefined behaviour
    or a thrown exception), the predicates \<open>keeps\<close> (frame), \<open>preserves\<close> (invariant) and \<open>stays\<close> (an
    invariant, and no write outside an array on the way, also where the computation does not return)
    with their rules, printing and integers of fixed width.  \<open>State\<close> has the record of everything the library keeps in static
    and thread-local variables and the record \<open>os\<close> of the functions of libc and the kernel,
    which are parameters of every definition that calls them.

  \<^item> The batching logger, \<open>bblog.c\<close> and \<open>bblog.h\<close>.  \<open>Pibr\<close>: the 64-bit word in front of a buffer,
    which packs pid, write index, page address and reference count.  \<open>Bblog\<close>: allocation, swap
    and flush of buffers and the reservation loop of \<open>_blog\<close>; the main result there is
    \<open>bblog_all_refines\<close>, that a run of the logger is a run of the buffer-free \<open>batch_step\<close>.
    \<open>Lifecycle\<close>: initialisation, exit, fork.  \<open>Protocol\<close>: the atomic steps of threads that share a
    buffer as an inductive relation, that the functions of \<open>Bblog\<close> make these steps, an
    invariant for the runs in which no room is granted while a refused reservation is outstanding,
    and the two bad things that happen otherwise: rooms that overlap and a flush that waits for
    ever.

  \<^item> \<open>Counter\<close> (\<open>counter.c\<close>), \<open>Process\<close> (\<open>process.c\<close>, the cached process name), \<open>Flusher\<close> (\<open>flusher.c\<close>, the
    thread that writes idle buffers out), \<open>Timer\<close> (\<open>timer.c\<close>), \<open>Blog\<close> (\<open>blog.c\<close>, the logger without
    batching), \<open>Logtime\<close> (the time stamps of log entries, \<open>src/jni/include/anodyne/log_read.h\<close>, with
    their comparison operators as the linear order of the type).

  \<^item> Records and batches.  \<open>Notify\<close> (\<open>notify.c\<close>, the texts of the records), \<open>Batch\<close> (\<open>batch.c\<close>, merging
    accesses to neighbouring blocks of one file), \<open>Fs\<close> (\<open>fs.c\<close>, which paths are traced).

  \<^item> The interposed calls.  \<open>Rw\<close> (\<open>read.c\<close>, \<open>write.c\<close>, \<open>pread.c\<close>, \<open>pwrite.c\<close>, \<open>fread.c\<close>, \<open>fwrite.c\<close>),
    \<open>Files\<close> (\<open>open.c\<close>, \<open>fopen.c\<close>, \<open>rename.c\<close>, \<open>unlink.c\<close>, \<open>mmap.c\<close>), \<open>Close\<close> (\<open>close.c\<close>), \<open>Threads\<close>
    (\<open>pthread.c\<close>, \<open>clone.c\<close>, \<open>signal.c\<close>, \<open>exec.c\<close> and the constructor and destructor of \<open>fs.c\<close>).

  \<^item> \<open>Flow\<close> composes these: what the log receives when a batch is written out and when a
    descriptor is closed, through \<open>close.c\<close>, the channels, \<open>notify.c\<close> and \<open>bblog.c\<close>.  \<open>Session\<close>
    goes from the calls of a program to the log: the abstract \<open>cut\<close> divides the accesses made to
    one file into batches, and any sequence of \<open>read\<close>, of \<open>write\<close>, of \<open>pread64\<close> or of \<open>pwrite64\<close> calls
    followed by \<open>close\<close> adds the records of exactly these batches.

  \<^item> The whole.  \<open>Channels\<close> has the invariant of the batching variables and that every data call
    keeps it, \<open>Memory\<close> the invariant of the memory (buffers and their words, access strings, names, prefix,
    log), that every function keeps it and that none writes outside an array.  \<open>System\<close> has the exported functions as one type of calls, processes
    with the thread-local variables of each thread, and runs in which the calls of the threads
    are interleaved; each call is one step there, and the steps inside \<open>_blog\<close> are those of
    \<open>Protocol\<close>.

  \<^item> Data structures.  \<open>Lists\<close>, \<open>Walk\<close> and \<open>Hlists\<close> (\<open>list.h\<close>: rings, their loops, hash lists), \<open>Ffs\<close>
    (\<open>ffs.h\<close>), \<open>Atomics\<close> (\<open>src/jni/include/utils/atomic.h\<close>: atomic operations behind a test of the
    alignment), \<open>Tracebuf\<close> (the class \<open>Tracer\<close> of \<open>src/jni/include/utils/tracer.h\<close>, which uses them).

  \<^item> \<open>Sample\<close> and \<open>Sample_mem\<close> hold a small concrete system and memories on which the
    witnesses of the theorems are evaluated.

  \<^bold>\<open>Correspondence.\<close>  A C function is a definition of the same name, with the return value as
  the result of the monad and the variables it changes as fields of the state; where HOL or
  another file has the name already the definition has a suffix or the prefix \<open>do_\<close> (\<open>read_io\<close>,
  \<open>close_fd\<close>, \<open>do_blog\<close> for \<open>_blog\<close>, \<open>do_openat\<close> for \<open>__OPENAT\<close>).  The six pairs of data calls keep
  their thread-local variables in one record \<open>chan\<close> each; the text that their sources repeat is
  modelled once and instantiated (\<open>trace_seek\<close>, \<open>trace_at\<close>, \<open>rw_close\<close>).  Loops that may spin
  (\<open>_blog\<close>, \<open>flush_buffer\<close>, \<open>process_name\<close>, the flusher, list loops) are \<open>partial_function (option)\<close>
  definitions, so no fuel is chosen anywhere: that a loop ends is a theorem (the value is
  \<open>Some\<close>) and that it does not is one as well.  The target is the 32-bit ARM build the makefile
  names: addresses are 32-bit words, \<open>size_t\<close> and \<open>long\<close> have 32 bits, \<open>off64_t\<close> has 64.  The build
  options are those of \<open>Android.mk\<close>: buffer batching, per-file batching and the flusher thread;
  \<open>exec.c\<close> and the timer are switched off there, and are modelled as they would be built.

  \<^bold>\<open>Interfaces.\<close>  The locale \<open>passthru\<close> (in \<open>Rw\<close>) is the contract of an interposed data call and is
  interpreted for the six of them; \<open>traced\<close> (in \<open>Session\<close>) extends it by what a call on a descriptor
  reports, is interpreted for \<open>read.c\<close>, \<open>write.c\<close>, \<open>pread.c\<close> and \<open>pwrite.c\<close>, and has the proof of a
  session; \<open>closer\<close> (in \<open>Close\<close>) is what \<open>close_common\<close> needs of the seven functions it calls; \<open>cell_queue\<close> (in \<open>Walk\<close>) is the queue that the trace buffer needs, and is
  interpreted on the ring operations; \<open>cell\<close> (in \<open>Atomics\<close>) is a variable with an address and is
  interpreted on the member \<open>_ts\<close> of the trace buffer.

  \<^bold>\<open>What the theorems show.\<close>  C1 to C9 are about the logger: the stream of records, the
  packed word, concurrent writers, and where the protocol fails.  C10 to C18 follow accesses from
  a file call to the log.  C19 and C20 are the invariants of the whole process under any calls of
  any threads.  C21 to C25 are the life of a process: fork, signals, exit, its name.  C26 to C31
  are the interposed calls.  C32 to C35 are lists, C36 to C40 bits, times and the trace buffer.

  \<^bold>\<open>What is assumed of the system.\<close>  \<open>libc_ok\<close>: aligned allocation gives fresh pages, \<open>free\<close> gives
  them back, and logging, the clock and sleeping touch neither memory nor the pid.  \<open>roomy\<close>: an
  allocation succeeds while few pages are in use.  \<open>clock_ok\<close>: times and thread numbers are in
  range.  \<open>kernel_ok\<close>: byte counts are \<open>ssize_t\<close> values, no call transfers more items than it was
  asked for, and file positions lie below the largest file size, for which \<open>2 ^ 62\<close> is taken.
  \<open>serves\<close> and \<open>close_ok\<close>: a data call and \<open>close\<close> leave the heap and the pid alone, and a descriptor on
  which data was transferred is open on the file in question, at a position within the file size.
  \<open>machine_ok\<close>: an allocated page has the size asked for, process numbers are positive, and the command
  line of a process begins with a name of at most 400 characters (a longer one overflows the prefix,
  and \<open>init_buffer\<close> then leaves the word of the new buffer as the allocator gave it).  \<open>tenv_ok\<close>: the trace buffer's allocator gives fresh blocks
  while few are in use, and the 64-bit member \<open>_ts\<close> is aligned.  The rounding of
  \<open>double\<close> is a parameter of the functions of \<open>timer.c\<close> that use it; \<open>double_rounding\<close> is the error bound of
  IEEE double precision that its theorem assumes of it.

  \<^bold>\<open>Not modelled.\<close>  \<open>munmap\<close>, which is disabled with \<open>#if 0\<close>; \<open>list.c\<close>, whose type \<open>buf_t\<close> is declared nowhere
  and which is not built; tracing macros that are compiled out (\<open>info\<close>, \<open>test\<close>); the thread class
  under \<open>Tracer\<close>; the vendored Android, SQLite and OpenSSL headers; the evaluation scripts.
  Stopping the flusher runs the thread to its end (\<open>join_flusher\<close>); in a forked child, which inherits
  \<open>flusher_info\<close> but not the thread, the join is undefined and the model says nothing about it.
  Atomic operations are modelled as sequentially consistent, as the \<open>__sync\<close> built-ins are.
\<close>

unbundle bit_operations_syntax

section \<open>The batching logger\<close>



text \<open>
  C2. Packing a page address, a pid, an index and a reference count into the 64-bit word in
  front of a buffer and reading the fields back gives the same values.
\<close>

theorem pack_fields:
  assumes "0 \<le> pid" "pid \<le> PID_MAX" "0 \<le> idx" "idx < 65536" "4096 dvd uint p" "0 \<le> r" "r < 4096"
  shows "PIBR_PID (pack_word p pid idx r) = pid \<and> PIBR_IDX (pack_word p pid idx r) = idx \<and>
    PIBR_PTR (pack_word p pid idx r) = p \<and> PIBR_REFCNT (pack_word p pid idx r) = r"
proof -
  have "pibr_is (pack_word p pid idx r) pid idx p r"
    using assms by (intro pack_word_is) (auto simp: PID_MAX_def)
  then show ?thesis using pibr_is_fields by blast
qed

theorem pack_fields_witness:
  "PIBR_PID (pack_word 0x1000 32767 65535 4095) = 32767 \<and> PIBR_IDX (pack_word 0x1000 32767 65535 4095) = 65535 \<and>
    PIBR_PTR (pack_word 0x1000 32767 65535 4095) = 0x1000 \<and> PIBR_REFCNT (pack_word 0x1000 32767 65535 4095) = 4095"
  using pack_fields [of 32767 65535 "0x1000" 4095] by (simp add: PID_MAX_def)



text \<open>
  C4. These atomic steps are the ones the code makes: in any state of the protocol, with other
  threads anywhere in their own calls, a call of \<open>_blog\<close> that is granted room on that buffer returns
  the record's length, and its effect on the buffer in memory is that of the thread's three steps.
\<close>

theorem blog_is_three_steps:
  assumes "views s p sh" "proc_pibr s = p" "sys_getpid os (world s) = pid" "proto_inv pid n p b sh"
    and "t < n" "pcs sh t = Idle" "r \<noteq> []" "granted pid (wrd sh) r"
  shows "\<exists>s' sh'. do_blog os r s = Some (Inr (int (length r), s')) \<and> (calm pid n)\<^sup>*\<^sup>* sh sh' \<and> views s' p sh' \<and>
    pcs sh' = pcs sh \<and> acc sh' = acc sh @ [(PIBR_IDX (wrd sh), r)]"
  using assms by (rule do_blog_steps)

theorem blog_is_three_steps_witness:
  "\<exists>s' sh'. do_blog sample_os ''rec,'' (sample_state []) = Some (Inr (4, s')) \<and>
    (calm 7 2)\<^sup>*\<^sup>* (buffer_at (pack_word 0x1000 7 31 0) (sample_prefix @ replicate (PIBR_BUF_SIZE - 31) NUL)) sh' \<and>
    views s' 0x1000 sh' \<and> acc sh' = [(31, ''rec,'')]"
proof -
  let ?sh = "buffer_at (pack_word 0x1000 7 31 0) (sample_prefix @ replicate (PIBR_BUF_SIZE - 31) NUL)"
  have w: "pibr_is (pack_word 0x1000 7 31 0) 7 31 0x1000 0" by (rule pack_word_is) simp_all
  have l: "length (sample_prefix @ replicate (PIBR_BUF_SIZE - 31) NUL) = PIBR_BUF_SIZE"
    by (simp add: sample_prefix_facts size_defs)
  have inv: "proto_inv 7 2 0x1000 31 ?sh"
    unfolding buffer_at_def by (rule proto_start [OF w l]) (simp add: BATCH_LIMIT_num)
  have g: "granted 7 (wrd ?sh) ''rec,''" "PIBR_IDX (wrd ?sh) = 31"
    using pibr_is_fields [OF w] by (simp_all add: granted_def buffer_at_def BATCH_LIMIT_num)
  have v: "views (sample_state []) 0x1000 ?sh"
    by (simp add: views_def sample_state_def buffer_at_def sample_prefix_facts)
  have "sys_getpid sample_os (world (sample_state [])) = 7" by (simp add: sample_os_def sample_world0_def)
  from blog_is_three_steps [OF v _ this inv, of 0 "''rec,''"] g show ?thesis
    by (fastforce simp: buffer_at_def)
qed

text \<open>
  C5. A refused reservation that is undone late breaks this: with four threads, a nearly full
  buffer and two refused reservations a state is reachable in which two threads hold granted
  rooms that overlap, so that one overwrites part of the other's record.
\<close>

theorem rooms_can_overlap:
  "\<exists>s' i r j q. (busy 7 4)\<^sup>*\<^sup>* (buffer_at (pack_word 0x1000 7 4000 0) bs) s' \<and>
    pcs s' 2 = Reserved i r \<and> pcs s' 3 = Reserved j q \<and> \<not> apart (i, r) (j, q)"
proof -
  have w: "pibr_is (pack_word 0x1000 7 4000 0) 7 4000 0x1000 0" by (rule pack_word_is) simp_all
  obtain s' where "(busy 7 4)\<^sup>*\<^sup>* (buffer_at (pack_word 0x1000 7 4000 0) bs) s'"
    "pcs s' 2 = Reserved 4010 (replicate 5 CHR ''x'')" "pcs s' 3 = Reserved 4005 (replicate 10 CHR ''y'')"
    using overlap_reachable [of "buffer_at (pack_word 0x1000 7 4000 0) bs" 7 "0x1000"] w
    by (auto simp: buffer_at_def)
  moreover have "\<not> apart (4010, replicate 5 CHR ''x'') (4005, replicate 10 CHR ''y'')"
    by (simp add: apart_def)
  ultimately show ?thesis by blast
qed



text \<open>
  C7. A record that does not fit into an empty buffer (prefix and record together 4044 bytes or
  more) is never logged and \<open>_blog\<close> never returns: it goes on allocating buffers until
  one cannot be had, and then faults.
\<close>

theorem oversized_record_never_returns:
  assumes "libc_ok os live" "batching s t" "procid s = sys_getpid os (world s)"
    "dom (bufs s) \<subseteq> live (world s)" "BATCH_LIMIT \<le> int (length (prefix s) + length r)"
  shows "do_blog os r s \<noteq> Some (Inr (x, s'))"
proof -
  have "stuck os live (sys_getpid os (world s)) r s"
    unfolding stuck_def using assms by (auto simp: fits_def)
  then show ?thesis unfolding do_blog_loop using blog_loop_stuck [OF assms(1)] by blast
qed

theorem oversized_record_never_returns_witness:
  "do_blog sample_os (replicate 4032 CHR ''x'') (sample_state []) \<noteq> Some (Inr (0, sample_state []))"
proof (rule oversized_record_never_returns [OF sample_libc_ok])
  show "batching (sample_state []) []" by (rule sample_batching) simp_all
  show "dom (bufs (sample_state [])) \<subseteq> sample_live (world (sample_state []))"
    using sample_ready [of "[]"] by (simp add: ready_def)
qed (simp_all add: sample_os_def sample_world0_def sample_prefix_facts BATCH_LIMIT_num)

text \<open>
  C8. The fallback to unbatched logging does not work: when no buffer can be allocated
  \<open>swap_and_flush_buffer\<close> leaves \<open>proc_pibr\<close> NULL, and the next record dereferences it.
\<close>

theorem no_memory_faults:
  assumes "fst (fst (sys_memalign os 4096 LOGGER_ENTRY_MAX_PAYLOAD (world s))) = 0"
    and "swap_and_flush_buffer os (proc_pibr s) pid s = Some (Inr (x, s'))"
  shows "do_blog os r s' = Some (Inl NullDeref)"
  using swap_and_flush_alloc_fails [OF assms] by (rule do_blog_null)

theorem no_memory_faults_witness:
  "\<exists>x s'. swap_and_flush_buffer sample_os 0x1000 7 sample_full = Some (Inr (x, s')) \<and>
    do_blog sample_os ''rec,'' s' = Some (Inl NullDeref)"
proof -
  obtain x s' where "swap_and_flush_buffer sample_os 0x1000 7 sample_full = Some (Inr (x, s'))"
    using sample_full_swap by blast
  then show ?thesis
    using no_memory_faults [of sample_os sample_full 7 x s' "''rec,''"] sample_full_memalign by auto
qed

text \<open>
  C9. The record numbers a process hands out are distinct as long as there are at most
  \<open>2 ^ 64\<close> of them.
\<close>

theorem record_numbers_distinct:
  assumes "n \<le> 2 ^ 64" shows "\<exists>xs s'. stamps n s = Some (Inr (xs, s')) \<and> length xs = n \<and> distinct xs"
  using stamps_distinct [OF assms, of s] by (auto simp: stamps_run)

theorem record_numbers_distinct_witness:
  "\<exists>xs s'. stamps 3 (sample_state []) = Some (Inr (xs, s')) \<and> length xs = 3 \<and> distinct xs"
  using record_numbers_distinct [of 3 "sample_state []"] by simp

section \<open>From a file access to the log\<close>







text \<open>
  C13. One round of the flusher thread: after more than \<open>FLUSH_TIMEOUT\<close> seconds without a
  flush, a buffer filled to \<open>FLUSH_BUF_SIZE\<close> or more is written out as one batch and the
  pending text is empty; otherwise the round changes nothing but the time.
\<close>

theorem flusher_round:
  assumes "libc_ok os live" "roomy os live k" and "ready os live k s t" and "flusher_on os info s"
  shows "if int FLUSH_TIMEOUT < idle_secs os s \<and> FLUSH_BUF_SIZE \<le> int (length (prefix s @ t))
    then \<exists>s'. flusher_step os info s = Some (Inr (True, s')) \<and>
      logs s' = logs s @ [batch_ev (prefix s) t] \<and> ready os live k s' []
    else flusher_step os info s = Some (Inr (True, s\<lparr>world := woken os s\<rparr>))"
proof (cases "int FLUSH_TIMEOUT < idle_secs os s \<and> FLUSH_BUF_SIZE \<le> int (length (prefix s @ t))")
  case True
  then obtain s' where "flusher_step os info s = Some (Inr (True, s'))"
    "logs s' = logs s @ [batch_ev (prefix s) t]" "ready os live k s' []"
    using flusher_step_flush [OF assms] by blast
  then show ?thesis using True by auto
next
  case False
  then show ?thesis using flusher_step_small [OF assms(1,3,4)] by (simp only: if_False) linarith
qed

theorem flusher_round_witness:
  "\<exists>s'. flusher_step sample_os 0x100000 ((sample_state (replicate 3900 CHR ''x''))
      \<lparr>flusher_v := (flusher_v (sample_state []))\<lparr>tinfos := [0x100000 \<mapsto> \<lparr>tid = 1, interrupt = 0\<rparr>]\<rparr>\<rparr>) =
      Some (Inr (True, s')) \<and>
    logs s' = [batch_ev sample_prefix (replicate 3900 CHR ''x'')] \<and> ready sample_os sample_live 7 s' []"
proof -
  let ?t = "replicate 3900 CHR ''x''"
  let ?s = "(sample_state ?t)\<lparr>flusher_v := (flusher_v (sample_state []))\<lparr>tinfos := [0x100000 \<mapsto> \<lparr>tid = 1, interrupt = 0\<rparr>]\<rparr>\<rparr>"
  have r: "ready sample_os sample_live 7 ?s ?t"
    using sample_ready [of ?t] by (rule ready_frame) (simp_all add: NUL_def)
  have n: "name_cached sample_os ?s ''app''" using sample_named [of ?t] by (simp add: name_cached_def)
  then have f: "flusher_on sample_os 0x100000 ?s" by (auto simp: flusher_on_def)
  have i: "int FLUSH_TIMEOUT < idle_secs sample_os ?s"
    by (simp add: idle_secs_def sample_os_def sample_world0_def FLUSH_TIMEOUT_def u64_def)
  have "FLUSH_BUF_SIZE \<le> int (length (prefix ?s @ ?t))"
    by (simp add: FLUSH_BUF_SIZE_def sample_prefix_facts size_defs)
  then show ?thesis using flusher_round [OF sample_libc_ok sample_roomy r f] i by auto
qed

text \<open>
  C14. When the string that lists a batch's accesses is full (4032 bytes or more), the next access
  that touches the batch does not return: the batch should be written out, but its record
  is longer than any buffer, and \<open>_blog\<close> replaces buffers forever.
\<close>

theorem full_batch_never_returns:
  assumes "libc_ok os live" "clock_ok os live" and "ready os live k s t"
    and "chan_is (chans s c) fd (lo, hi, as)" and "access_ok fd sz off" and "touches (lo, hi, as) (sz, off)"
    and "IOSTR_BUFSIZE \<le> length (io_string as) + 64" and "length op \<le> 40" "length (path (chans s c)) \<le> 3000"
  shows "batch_read_write_first os c op fd sz off s \<noteq> Some (Inr (x, s'))"
  using assms by (rule full_batch_stuck)

theorem full_batch_never_returns_witness:
  "batch_read_write_first sample_os Prd ''pread64'' 3 1 0 sample_crowded \<noteq> Some (Inr (0, sample_crowded))"
proof (rule full_batch_never_returns [OF sample_libc_ok sample_clock_ok sample_crowded_ready sample_crowded_chan])
  show "touches (0, 0, sample_many) (1, 0)"
    using blk_end_num [of 3 1 0] by (simp add: touches_def blk_start_num access_ok_def)
qed (simp_all add: access_ok_def sample_many_length size_defs sample_crowded_path)





text \<open>
  C17. The blocks computed for an access cover every byte of it; the last block is one too high
  unless the last byte is the first of its block, because the rounding up is applied to the
  position of the last byte.
\<close>

theorem blocks_cover:
  assumes "access_ok fd sz off"
  shows "(\<forall>x. off \<le> x \<and> x < off + sz \<longrightarrow> blk_start off \<le> x div 4096 \<and> x div 4096 \<le> blk_end off sz) \<and>
    blk_end off sz = (off + sz - 1) div 4096 + (if 4096 dvd off + sz - 1 then 0 else 1)"
  using blk_cover [OF assms] blk_end_tight [OF assms] by blast

theorem blocks_cover_witness:
  "blk_start 0 \<le> 4095 div 4096 \<and> 4095 div 4096 \<le> blk_end 0 4096 \<and> blk_end 0 4096 = 1"
  using blocks_cover [of 3 4096 0] by (simp add: access_ok_def blk_start_num)

text \<open>
  C18. The access string of a record determines the accesses: printing a list of (size, offset)
  pairs and reading it back gives the list.
\<close>

theorem iostr_roundtrip:
  assumes "\<forall>(sz, off)\<in>set as. 0 \<le> sz \<and> 0 \<le> off"
  shows "parse_iostr (io_string as) = as"
  using assms by (rule parse_io_string)

theorem iostr_roundtrip_witness: "parse_iostr ''100@0;50@100;'' = [(100, 0), (50, 100)]"
  using iostr_roundtrip [of "[(100, 0), (50, 100)]"] sample_iostr by (simp add: sample_accesses_def)

section \<open>The process as a whole\<close>

text \<open>
  C19. The threads of a process make any calls, in any order, of the functions the tracer
  exports, from a state in which no batch is pending.  In every state reached, each channel of
  each thread is at rest or holds a batch whose block range is not empty, does not wrap and
  covers every access its access string lists, and the strings fit their arrays.  The kernel may
  answer anything within the types and bounds of its calls.
\<close>

theorem batches_always_sound:
  assumes "kernel_ok os" and "at_rest P" and "runs os P cs P'" and "list_all (\<lambda>(i, c). api_ok c) cs"
  shows "chan_sound (t_chans (threads P' i) c)"
  using runs_threads_inv [OF assms(1,3,4) at_rest_inv [OF assms(2)]]
  by (simp add: threads_inv_def chans_inv_def chan_inv_sound)

theorem batches_always_sound_witness:
  "\<exists>P'. runs sample_kernel (sample_process []) [(0, Do_read 3 10), (2, Do_read 3 10)] P' \<and>
    last_fd (t_chans (threads P' 0) Rd) = 3 \<and> last_fd (t_chans (threads P' 2) Rd) = 3 \<and>
    chan_sound (t_chans (threads P' 0) Rd)"
proof -
  obtain P' where P': "runs sample_kernel (sample_process []) [(0, Do_read 3 10), (2, Do_read 3 10)] P'"
    "last_fd (t_chans (threads P' 0) Rd) = 3" "last_fd (t_chans (threads P' 2) Rd) = 3"
    using sample_two_readers by blast
  have "chan_sound (t_chans (threads P' 0) Rd)"
    by (rule batches_always_sound [OF sample_kernel_ok sample_process_start(1) P'(1)]) simp
  with P' show ?thesis by blast
qed



section \<open>The life of the logger\<close>

text \<open>
  C21. A child process that inherited a buffer with text \<open>t\<close> starts a buffer of its own, with a
  prefix that names the child, for its first record; the inherited buffer keeps the parent's
  text and nothing of it is logged a second time.
\<close>

theorem fork_starts_afresh:
  assumes "batching s t" and "pid = sys_getpid os (world s)" and "new_identity os s pid q n s1"
    and "NUL \<notin> set r" "int (length (prefix_text pid n) + length r) < BATCH_LIMIT"
  shows "\<exists>s'. do_blog os r s = Some (Inr (int (length r), s')) \<and> batching s' r \<and>
    prefix s' = prefix_text pid n \<and> procid s' = pid \<and> logs s' = logs s1 \<and>
    holds (s\<lparr>bufs := bufs s'\<rparr>) (proc_pibr s) (prefix s @ t)"
  using do_blog_fork [OF assms] by metis

theorem fork_starts_afresh_witness:
  "\<exists>s'. do_blog sample_os ''rec,'' sample_child = Some (Inr (4, s')) \<and> batching s' ''rec,'' \<and>
    prefix s' = prefix_text 8 ''app'' \<and> procid s' = 8 \<and> logs s' = [] \<and>
    holds (sample_child\<lparr>bufs := bufs s'\<rparr>) 0x1000 (sample_prefix @ ''old,'')"
proof -
  let ?w = "sample_world0\<lparr>w_pid := 8, w_pages := [0x2000, 0x1000]\<rparr>"
  let ?s1 = "sample_child\<lparr>world := ?w, bufs := (bufs sample_child)(0x2000 \<mapsto> blank_page)\<rparr>"
  have b: "batching sample_child ''old,''"
    using sample_batching [of "''old,''"] batching_frame [of sample_child "sample_state ''old,''"]
    by (simp add: sample_child_def NUL_def)
  have m: "sys_memalign sample_os 4096 LOGGER_ENTRY_MAX_PAYLOAD (world sample_child) = ((0x2000, blank_page), ?w)"
    by (simp add: sample_os_def sample_child_def sample_memalign_def sample_pages_def sample_world0_def)
  have nm: "process_name_str sample_os ?s1 = Some (Inr (''app'', ?s1))"
    by (rule process_name_str_hit)
      (simp add: name_cached_def sample_child_def sample_state_def sample_os_def name_pid_pack)
  have p: "prefix_text 8 ''app'' = ''{\"PID\":8,\"PROC\":\"app\",\"BATCH\":{''" by code_simp
  have "bufs sample_child 0x2000 = None" by (simp add: sample_child_def sample_state_def)
  moreover have "procid sample_child = 7" by (simp add: sample_child_def)
  ultimately have "new_identity sample_os sample_child 8 0x2000 ''app'' ?s1"
    using m nm by (simp add: new_identity_def p blank_page_def PID_MAX_def NUL_def MAX_PREFIX_LEN_def)
  from fork_starts_afresh [OF b _ this, of "''rec,''"] show ?thesis
    by (simp add: sample_child_def sample_os_def p BATCH_LIMIT_num NUL_def)
qed

text \<open>
  C22. A terminating signal does not lose records: when the program had no handler of its own the
  tracer's handler returns, and the pending text has been written out as one batch.
\<close>

theorem signal_writes_out:
  assumes "libc_ok os live" "roomy os live k" and "ready os live k s t" and "t \<noteq> []"
    and "sg \<in> terminal_signals" and "old_handler sg (signal_v s) = 0" and "name_cached os s n"
  shows "\<exists>s'. aggregate_handler os sg s = Some (Inr ((), s')) \<and>
    logs s' = logs s @ [LogEv ANDROID_LOG_ERROR ''Storage-IOERR-UIUC'' ''Signal'', batch_ev (prefix s) t] \<and>
    ready os live k s' []"
  using assms by (rule signal_flushes)

theorem signal_writes_out_witness:
  "\<exists>s'. aggregate_handler sample_os SIGTERM (sample_state ''rec,'') = Some (Inr ((), s')) \<and>
    logs s' = [LogEv ANDROID_LOG_ERROR ''Storage-IOERR-UIUC'' ''Signal'', batch_ev sample_prefix ''rec,''] \<and>
    ready sample_os sample_live 7 s' []"
proof -
  have "ready sample_os sample_live 7 (sample_state ''rec,'') ''rec,''" by (rule sample_ready) (simp_all add: NUL_def)
  moreover have "old_handler SIGTERM (signal_v (sample_state ''rec,'')) = 0"
    by (simp add: signal_defs sample_state_def proc0_def)
  ultimately show ?thesis
    using signal_writes_out [OF sample_libc_ok sample_roomy _ _ _ _ sample_named, of "''rec,''" "''rec,''" SIGTERM]
    by (simp add: terminal_signals_def)
qed

text \<open>
  C23. The regular exit of a process does lose them: \<open>bblog_exit(1)\<close> clears the packed word first, so
  that \<open>flush_buffer\<close> takes the buffer for another process's and returns; nothing is logged
  and the text that was pending is gone.
\<close>

theorem exit_loses_records:
  assumes "batching s t" and "flusher_info (flusher_v s) = 0"
  shows "\<exists>s' b. bblog_exit os 1 s = Some (Inr ((), s')) \<and> logs s' = logs s \<and>
    bufs s' (proc_pibr s) = Some b \<and> pibr b = 0"
proof -
  obtain b where "bblog_exit os 1 s = Some (Inr ((), s\<lparr>bufs := (bufs s)(proc_pibr s \<mapsto> b)\<rparr>))" "pibr b = 0"
    using bblog_exit_process [OF assms] by blast
  then show ?thesis by simp
qed

theorem exit_loses_records_witness:
  "\<exists>s' b. bblog_exit sample_os 1 (sample_state ''rec,'') = Some (Inr ((), s')) \<and> logs s' = [] \<and>
    bufs s' 0x1000 = Some b \<and> pibr b = 0"
  using exit_loses_records [of "sample_state ''rec,''" "''rec,''" sample_os] sample_batching [of "''rec,''"]
  by (simp add: NUL_def)

text \<open>
  C24. With the flusher thread running the exit does not come to an end without a fault: the thread
  frees its own descriptor when it is told to stop, and \<open>stop_flusher_thread\<close> frees it again.
\<close>

theorem exit_frees_twice:
  assumes "flusher_info (flusher_v s) \<noteq> 0"
  shows "bblog_exit os 1 s \<noteq> Some (Inr (x, s'))"
  using assms by (rule bblog_exit_with_flusher)

theorem exit_frees_twice_witness:
  "bblog_exit sample_os 1 ((sample_state [])\<lparr>flusher_v := (flusher_v (sample_state []))\<lparr>flusher_info := 0x100000,
     tinfos := [0x100000 \<mapsto> \<lparr>tid = 1, interrupt = 0\<rparr>]\<rparr>\<rparr>) \<noteq> Some (Inr ((), sample_state []))"
  by (rule exit_frees_twice) simp



section \<open>The interposed calls\<close>

text \<open>
  C26. A path is left out exactly when it starts with \<open>/mnt/asec\<close> or \<open>/mnt/secure\<close> or with none of
  the five traced roots.
\<close>

theorem skip_path_meaning:
  "skip_path p \<longleftrightarrow> (\<exists>r\<in>set hidden_roots. \<exists>rest. p = r @ rest) \<or> (\<forall>r\<in>set traced_roots. \<nexists>rest. p = r @ rest)"
  using skip_path_spec [of p] by (simp add: starts_with_def)

theorem skip_path_meaning_witness: "skip_path ''/proc/1'' \<and> \<not> skip_path ''/data/f''"
  using skip_path_meaning [of "''/proc/1''"] skip_path_meaning [of "''/data/f''"]
  by (auto simp: hidden_roots_def traced_roots_def)

text \<open>
  C27. A traced \<open>read\<close> of a regular file on a channel at rest: the program gets what the real
  \<open>read\<close> returned, and the channel now holds a batch of this one access, at the position before
  it, under the file's path.
\<close>

theorem read_starts_batch:
  assumes f: "resolved os s Read_read ''read'' ''__read'' = f" "f \<noteq> 0" and on: "notify_v s \<noteq> 0"
    and rd: "sys_read os f fd sz (world s) = ((n, bs), w1)" "0 < n"
    and lo: "located os (s\<lparr>fptr := (fptr s)(Read_read := f), world := w1\<rparr>) fd n p off w2"
    and ac: "access_ok fd n off" and fr: "last_fd (chans s Rd) = - 1"
  shows "\<exists>s'. read_io os fd sz s = Some (Inr ((n, bs), s')) \<and> logs s' = logs s \<and> world s' = w2 \<and>
    chan_is (chans s' Rd) fd (single (n, off)) \<and> path (chans s' Rd) = p"
proof -
  let ?s = "s\<lparr>fptr := (fptr s)(Read_read := f), world := w1\<rparr>"
  let ?s' = "set_chan Rd (with_batch fd (single (n, off)) ((chans s Rd)\<lparr>path := p\<rparr>)) (?s\<lparr>world := w2\<rparr>)"
  have "trace_seek os Rd ''read'' False fd n ?s = Some (Inr ((), ?s'))"
    using trace_seek_fresh [OF lo ac, of Rd] fr by simp
  then have "report_seek os Rd ''read'' fd n ?s = Some (Inr ((), ?s'))"
    using on rd(2) by (simp add: report_seek_def bnd_gets only_if_def)
  moreover have "read_call.after_call os (fd, sz) s = ?s"
    using f rd by (simp add: read_call.after_call_def)
  ultimately have run: "read_io os fd sz s = Some (Inr ((n, bs), ?s'))"
    using read_call.io_run [of os s "(fd, sz)"] f rd by (simp add: andthen_def bnd_def ret_def)
  have "chan_is (chans ?s' Rd) fd (single (n, off))"
    using ac single_ok [OF ac] by (simp add: chan_is_with_batch access_ok_def)
  then show ?thesis using run by (auto simp: set_chan_def with_batch_def single_def)
qed

theorem read_starts_batch_witness:
  "\<exists>s'. read_io sample_os 3 10 (sample_state []) = Some (Inr ((3, ''app''), s')) \<and> logs s' = [] \<and>
    world s' = sample_world0 \<and> chan_is (chans s' Rd) 3 (single (3, 4093)) \<and> path (chans s' Rd) = ''/data/f''"
proof -
  let ?s = "(sample_state [])\<lparr>fptr := (fptr (sample_state []))(Read_read := 1), world := sample_world0\<rparr>"
  have "located sample_os ?s 3 3 ''/data/f'' 4093 sample_world0"
    using sample_not_skipped
    by (simp add: located_def sample_os_def sample_world0_def size_defs S_IFREG_def S_IFMT_def s64_def)
  then show ?thesis
    using read_starts_batch [of sample_os "sample_state []" 1 3 10 3 "''app''" sample_world0 "''/data/f''" 4093 sample_world0]
    by (simp add: sample_resolved access_ok_def chan0_def) (simp add: sample_os_def)
qed

text \<open>
  C28. While tracing is switched off the six data calls are transparent: each makes the real call
  once, with the caller's arguments, returns its result, and changes nothing of the tracer
  but the resolved function pointer.
\<close>

theorem calls_pass_through:
  assumes "notify_v s = 0" and "\<forall>v name alt. resolved os s v name alt \<noteq> 0"
  shows "read_io os fd sz s = Some (Inr (fst (sys_read os (resolved os s Read_read ''read'' ''__read'') fd sz (world s)),
      read_call.after_call os (fd, sz) s)) \<and>
    write_io os fd bs s = Some (Inr (fst (sys_write os (resolved os s Write_write ''write'' ''__write'') fd bs (world s)),
      write_call.after_call os (fd, bs) s)) \<and>
    do_pread64 os op fd sz off s = Some (Inr (fst (sys_pread64 os (resolved os s Pread_pread64 ''pread64'' ''__pread64'')
      fd sz off (world s)), pread_call.after_call os (op, fd, sz, off) s)) \<and>
    do_pwrite64 os op fd bs off s = Some (Inr (fst (sys_pwrite64 os (resolved os s Pwrite_pwrite64 ''pwrite64'' ''__pwrite64'')
      fd bs off (world s)), pwrite_call.after_call os (op, fd, bs, off) s)) \<and>
    fread os sz n fp s = Some (Inr (fst (sys_fread os (resolved os s Fread_fread ''fread'' ''__fread'') sz n fp (world s)),
      fread_call.after_call os (sz, n, fp) s)) \<and>
    fwrite os bs sz n fp s = Some (Inr (fst (sys_fwrite os (resolved os s Fwrite_fwrite ''fwrite'' ''__fwrite'')
      bs sz n fp (world s)), fwrite_call.after_call os (bs, sz, n, fp) s))"
  using assms read_call.untraced [of os s "(fd, sz)"] write_call.untraced [of os s "(fd, bs)"]
    pread_call.untraced [of os s "(op, fd, sz, off)"] pwrite_call.untraced [of os s "(op, fd, bs, off)"]
    fread_call.untraced [of os s "(sz, n, fp)"] fwrite_call.untraced [of os s "(bs, sz, n, fp)"]
  by simp

theorem calls_pass_through_witness:
  "read_io sample_os 3 2 ((sample_state [])\<lparr>notify_v := 0\<rparr>) =
    Some (Inr ((3, ''ap''), read_call.after_call sample_os (3, 2) ((sample_state [])\<lparr>notify_v := 0\<rparr>)))"
  using calls_pass_through [of "(sample_state [])\<lparr>notify_v := 0\<rparr>" sample_os 3 2]
  by (simp add: resolved_def) (simp add: sample_os_def)

text \<open>
  C29. When a call moves on to another file, the batch of the previous file is reported under the
  new file's path, because the channel's path is overwritten before the batch is written out.
\<close>

theorem batch_mislabelled:
  assumes lc: "libc_ok os live" "roomy os live k" "clock_ok os live"
    and lo: "located os s fd n p off w" and ac: "access_ok fd n off"
    and ci: "chan_is (chans s c) fd0 (l, h, as)" and ne: "fd0 \<noteq> fd"
    and rd: "ready os live k (s\<lparr>world := w\<rparr>) t" and sm: "chan_small (prefix s) ((chans s c)\<lparr>path := p\<rparr>)"
    and op: "NUL \<notin> set op" "length op \<le> 40"
  shows "\<exists>s' t' r. trace_seek os c op check fd n s = Some (Inr ((), s')) \<and>
    adds os live k (s\<lparr>world := w\<rparr>) t s' t' [r] \<and> batch_record op ((chans s c)\<lparr>path := p\<rparr>) r"
proof -
  let ?ch = "(chans s c)\<lparr>path := p\<rparr>" and ?s = "set_chan c ((chans s c)\<lparr>path := p\<rparr>) (s\<lparr>world := w\<rparr>)"
  have rd': "ready os live k ?s t" using rd by (simp add: set_chan_def)
  have sm': "chan_small (prefix ?s) ?ch" using sm by (simp add: set_chan_def)
  obtain s1 t1 r where n: "notify_read_write os op (path ?ch) fd0 (last_size ?ch) (last_off ?ch) (iostr ?ch) ?s =
      Some (Inr (butlast (iostr ?ch), s1))" and a: "adds os live k ?s t s1 t1 [r]" and r: "batch_record op ?ch r"
    using notify_read_write_adds [OF lc rd' sm' op, of fd0] by blast
  let ?s' = "set_chan c (with_batch fd (single (n, off)) ?ch) s1"
  have "trace_seek os c op check fd n s = Some (Inr ((), ?s'))"
    using n chan_isD [OF ci] by (intro trace_seek_mislabels [OF lo ac ci ne]) simp
  moreover have "adds os live k (s\<lparr>world := w\<rparr>) t ?s' t1 [r]"
    using a by (simp add: adds_def set_chan_def)
  ultimately show ?thesis using r by blast
qed

theorem batch_mislabelled_witness:
  "\<exists>s' t' r. trace_seek sample_os Prd ''pread64'' False 4 3 ((sample_busy [])\<lparr>chans :=
        (chans (sample_busy []))(Prd := (chans (sample_busy []) Prd)\<lparr>path := ''/data/g''\<rparr>)\<rparr>) = Some (Inr ((), s')) \<and>
    batch_record ''pread64'' ((chans (sample_busy []) Prd)\<lparr>path := ''/data/f''\<rparr>) r"
proof -
  let ?s = "(sample_busy [])\<lparr>chans := (chans (sample_busy []))(Prd := (chans (sample_busy []) Prd)\<lparr>path := ''/data/g''\<rparr>)\<rparr>"
  have l: "located sample_os ?s 4 3 ''/data/f'' 4093 sample_world0"
    using sample_not_skipped
    by (simp add: located_def sample_os_def sample_world0_def size_defs S_IFREG_def S_IFMT_def s64_def)
  have c: "chan_is (chans ?s Prd) 3 (0, 1, sample_accesses)"
    using sample_busy_chan [of "[]"] by (simp add: chan_is_def with_batch_def)
  have w: "?s\<lparr>world := sample_world0\<rparr> = ?s" by (simp add: sample_busy_def sample_state_def set_chan_def proc0_def)
  have "chan_small sample_prefix ((chans ?s Prd)\<lparr>path := ''/data/f''\<rparr>)"
    using sample_busy_small [of 3 "[]" Prd] by (simp add: forgotten_def with_batch_def chan0_def)
  then show ?thesis
    using batch_mislabelled [OF sample_libc_ok sample_roomy sample_clock_ok l _ c, of "[]" "''pread64''" False]
      sample_busy_ready unfolding w by (simp add: access_ok_def NUL_def) blast
qed

text \<open>
  C30. \<open>unlinkat\<close> with a directory descriptor does not use it: whenever the traced call returns, its
  result is that of the real call made relative to the current directory.
\<close>

theorem unlinkat_ignores_directory:
  assumes "resolved os s Unlink_unlinkat ''unlinkat'' ''__unlinkat'' = g" "g \<noteq> 0" and "notify_v s \<noteq> 0"
    and "do_unlinkat os op fd p flags s = Some (Inr (r, s'))"
  shows "\<exists>w. r = fst (sys_unlinkat os g AT_FDCWD p flags w)"
  using assms by (rule unlinkat_cwd)

theorem unlinkat_ignores_directory_witness:
  "\<exists>r s'. do_unlinkat sample_os ''unlinkat'' (- 1) ''f'' 0 (sample_state []) = Some (Inr (r, s')) \<and>
    (\<exists>w. r = fst (sys_unlinkat sample_os 1 AT_FDCWD ''f'' 0 w))"
proof -
  have "\<exists>r s'. do_unlinkat sample_os ''unlinkat'' (- 1) ''f'' 0 (sample_state []) = Some (Inr (r, s'))"
    by (simp add: do_unlinkat_def unlink_init_def bnd_Some [OF sym_init_run] sample_resolved bnd_gets AT_FDCWD_def
        at_path_def fd_to_path_def)
      (simp add: call_def sysc_def bnd_def gets_def ret_def andthen_def split: prod.splits)
  then show ?thesis
    using unlinkat_ignores_directory [of sample_os "sample_state []" 1] sample_resolved by auto
qed

text \<open>
  C31. A traced \<open>renameat\<close> between two directories that succeeds does not return 0: the result variable is
  reused for the length of the target directory's path, and that is what the program gets.
\<close>

theorem renameat_returns_length:
  assumes "resolved os s Rename_renameat ''renameat'' ''__renameat'' = g" "g \<noteq> 0"
    and "notify_v s \<noteq> 0" and "fromfd \<noteq> AT_FDCWD" "tofd \<noteq> AT_FDCWD"
    and "at_path os fromfd from (s\<lparr>fptr := (fptr s)(Rename_renameat := g)\<rparr>) = Some (Inr (Some a, s1))"
    and "notify os (- 1) (S_IFDIR OR S_IFREG) a s1 = Some (Inr (flag, s2))" "flag \<noteq> 0"
    and "fst (sys_renameat os g fromfd from tofd to (world s2)) = 0"
    and "fd_to_path os tofd (s2\<lparr>world := snd (sys_renameat os g fromfd from tofd to (world s2))\<rparr>) =
      Some (Inr (Some dir, s3))"
    and "notify_rename os op flag a (if dir = [] then to else abs_path dir to) s3 = Some (Inr (x, s4))"
  shows "do_renameat os op fromfd from tofd to s = Some (Inr (int (length dir), s4))"
  using assms by (rule renameat_two_dirs)

theorem renameat_returns_length_witness:
  "\<exists>s4. do_renameat sample_os ''renameat'' 3 ''a'' 4 ''b'' (sample_state []) = Some (Inr (7, s4))"
proof -
  let ?s = "sample_state []"
  have fp: "?s\<lparr>fptr := (fptr ?s)(Rename_renameat := Suc 0)\<rparr> = ?s" by (simp add: sample_state_def fun_eq_iff)
  have w: "?s\<lparr>world := sample_world0\<rparr> = ?s" by (simp add: sample_state_def proc0_def)
  have d: "fd_to_path sample_os fd ?s = Some (Inr (Some ''/data/f'', ?s))" if "fd \<noteq> - 1" for fd
    using that w by (simp add: fd_to_path_def bnd_def asks_def gets_def sysc_def ret_def size_defs sample_os_def)
  have a: "at_path sample_os 3 ''a'' ?s = Some (Inr (Some (abs_path ''/data/f'' ''a''), ?s))"
    using d [of 3] by (simp add: at_path_def bnd_def ret_def)
  have p: "abs_path ''/data/f'' ''a'' = ''/data/f/a''" "abs_path ''/data/f'' ''b'' = ''/data/f/b''"
    by (simp_all add: abs_path_def size_defs snprintf_def)
  have sk: "\<not> skip_path ''/data/f/a''" by code_simp
  have f: "(S_IFDIR OR S_IFREG) AND (S_IFREG AND S_IFMT) \<noteq> 0" "S_IFREG AND S_IFMT = S_IFREG" "S_IFREG \<noteq> 0" by code_simp+
  have n: "notify sample_os (- 1) (S_IFDIR OR S_IFREG) ''/data/f/a'' ?s = Some (Inr (S_IFREG, ?s))"
    using sk f w by (simp add: notify_def bnd_def sysc_def asks_def gets_def ret_def) (simp add: sample_os_def ret_def f)
  have r: "sys_renameat sample_os g i x j y v = (0, v)" for g i x j y v by (simp add: sample_os_def)
  have ts: "rename_text 7 ''renameat'' S_IFREG ''/data/f/a'' ''/data/f/b'' (100, 250) =
    ''{\"TID\":7,\"OP\":\"renameat\",\"MODE\":\"FILE\",\"OLD\":\"/data/f/a\",\"NEW\":\"/data/f/b\",\"TS\":100.000250}''"
    by code_simp
  have "good_msg sample_prefix (rename_text 7 ''renameat'' S_IFREG ''/data/f/a'' ''/data/f/b'' (100, 250))"
    unfolding ts by (rule sample_good) (simp_all add: NUL_def)
  then obtain y s4 where b: "bblog sample_os (rename_text 7 ''renameat'' S_IFREG ''/data/f/a'' ''/data/f/b'' (100, 250)) ?s =
      Some (Inr (y, s4))"
    using bblog_adds [OF sample_libc_ok sample_roomy sample_ready [of "[]"],
        of "rename_text 7 ''renameat'' S_IFREG ''/data/f/a'' ''/data/f/b'' (100, 250)"] by auto
  have "sys_gettimeofday sample_os sample_world0 = ((100, 250), sample_world0)" "sys_gettid sample_os sample_world0 = 7"
    by (simp_all add: sample_os_def sample_world0_def)
  then have "notify_rename sample_os ''renameat'' S_IFREG ''/data/f/a'' ''/data/f/b'' ?s = Some (Inr (0, s4))"
    using b by (simp add: notify_rename_def stamped_def andthen_def bnd_def sysc_def asks_def gets_def ret_def w)
  then have "do_renameat sample_os ''renameat'' 3 ''a'' 4 ''b'' ?s = Some (Inr (int (length ''/data/f''), s4))"
    using a n f(3) d [of 4] r p
    by (intro renameat_returns_length [where g = 1 and a = "''/data/f/a''" and flag = S_IFREG and ?s1.0 = ?s and ?s2.0 = ?s
        and ?s3.0 = ?s and x = 0]) (simp_all add: sample_resolved AT_FDCWD_def fp w)
  then show ?thesis by simp
qed

section \<open>Linked lists\<close>

text \<open>
  C32. A ring is a first-in first-out queue: after \<open>INIT_LIST_HEAD\<close> and \<open>list_add_tail\<close> of distinct
  nodes, \<open>list_for_each_entry\<close> runs its body once for each node, in the order they were added.
\<close>

theorem list_queue_order:
  assumes "mem s h" "\<forall>n\<in>set ns. mem s n" "distinct (h # ns)" "\<And>p. keeps cells (body p)"
  shows "\<exists>s'. does (andthen (INIT_LIST_HEAD h) (run_all (\<lambda>n. list_add_tail n h) ns)) s s' \<and> cyc s' (h # ns) \<and>
    list_for_each_entry off body h s' = run_all body (map (\<lambda>p. p - off) ns) s'"
  using ring_queue.fifo [of s h ns body off] assms by blast

theorem list_queue_order_witness:
  "\<exists>s'. does (andthen (INIT_LIST_HEAD 0x40) (run_all (\<lambda>n. list_add_tail n 0x40) [0x20, 0x50])) sample_ring s' \<and>
    cyc s' [0x40, 0x20, 0x50] \<and> does (list_for_each_entry 4 (\<lambda>_. ret ()) 0x40) s' s'"
  using list_queue_order [of sample_ring "0x40" "[0x20, 0x50]" "\<lambda>_. ret ()" 4] sample_ring_mem
  by (auto simp: ret_def keeps_def andthen_def bnd_def)

text \<open>
  C33. Deleting every entry from within \<open>list_for_each_safe\<close> empties the list and leaves the head a
  ring of its own.
\<close>

theorem safe_loop_deletes_all:
  assumes "cyc s (h # xs)"
  shows "\<exists>s'. does (list_for_each_safe list_del h) s s' \<and> cyc s' [h] \<and> list_empty h s' = Some (Inr (True, s'))"
  using delete_all [OF assms] list_empty_cyc [of _ h "[]"] by fastforce

theorem safe_loop_deletes_all_witness:
  "\<exists>s'. does (list_for_each_safe list_del 0x10) sample_ring s' \<and> cyc s' [0x10] \<and>
    list_empty 0x10 s' = Some (Inr (True, s'))"
  using safe_loop_deletes_all [OF sample_ring_cyc(1)] .

text \<open>
  C34. Cutting a list after an entry and splicing the front part back gives the list it was:
  \<open>list_cut_position\<close> and \<open>list_splice\<close> are inverse.
\<close>

theorem cut_then_splice:
  assumes "cyc s (h # xs @ e # ys)" and "mem s l" "l \<notin> set (h # xs @ e # ys)"
  shows "\<exists>s1 s2. does (list_cut_position l h e) s s1 \<and> cyc s1 (l # xs @ [e]) \<and> cyc s1 (h # ys) \<and>
    does (list_splice l h) s1 s2 \<and> cyc s2 (h # xs @ e # ys)"
proof -
  obtain s1 where 1: "does (list_cut_position l h e) s s1" "cyc s1 (l # xs @ [e])" "cyc s1 (h # ys)"
    using list_cut_position_cyc [OF assms] by blast
  have "distinct (h # xs @ e # ys)" using assms(1) by (simp add: cyc_def)
  then have "set (l # xs @ [e]) \<inter> set (h # ys) = {}" using assms(3) by auto
  then show ?thesis using list_splice_cyc(1) [OF 1(2,3)] 1 by auto
qed

theorem cut_then_splice_witness:
  "\<exists>s1 s2. does (list_cut_position 0x50 0x10 0x20) sample_ring s1 \<and> cyc s1 [0x50, 0x20] \<and> cyc s1 [0x10, 0x30] \<and>
    does (list_splice 0x50 0x10) s1 s2 \<and> cyc s2 [0x10, 0x20, 0x30]"
  using cut_then_splice [of sample_ring "0x10" "[]" "0x20" "[0x30]" "0x50"] sample_ring_cyc(1) sample_ring_mem by simp

text \<open>
  C35. On hash lists insertion at the head and deletion are inverse, and deleting every node from
  within \<open>hlist_for_each_safe\<close> empties the list.
\<close>

theorem hlist_add_then_del:
  assumes "hlist s h xs" and "hn s n" "n \<notin> set xs"
  shows "\<exists>s1 s2 s3. does (hlist_add_head n h) s s1 \<and> hlist s1 h (n # xs) \<and> does (hlist_del n) s1 s2 \<and> hlist s2 h xs \<and>
    does (hlist_for_each_safe hlist_del h) s2 s3 \<and> hlist s3 h []"
proof -
  obtain s1 where 1: "does (hlist_add_head n h) s s1" "hlist s1 h ([] @ n # xs)"
    using hlist_add_head_ok [OF assms] by auto
  obtain s2 where 2: "does (hlist_del n) s1 s2" "hlist s2 h xs" using hlist_del_ok [OF 1(2)] by auto
  show ?thesis using 1 2 hlist_delete_all [OF 2(2)] by auto
qed

theorem hlist_add_then_del_witness:
  "\<exists>s1 s2 s3. does (hlist_add_head 0x40 0x8) sample_hlist s1 \<and> hlist s1 0x8 [0x40, 0x20, 0x30] \<and>
    does (hlist_del 0x40) s1 s2 \<and> hlist s2 0x8 [0x20, 0x30] \<and>
    does (hlist_for_each_safe hlist_del 0x8) s2 s3 \<and> hlist s3 0x8 []"
  using hlist_add_then_del [OF sample_hlist_ok(1,2)] by simp

section \<open>Bits, times and trace buffers\<close>

text \<open>
  C36. The multiply-and-look-up routine \<open>ffs_lsb\<close> gives the index of the lowest set bit of every word
  that has one, except the word of all ones, for which it gives \<open>-1\<close>.
\<close>

theorem ffs_lsb_finds:
  assumes "v \<noteq> 0"
  shows "\<exists>k<32. bit v k \<and> (\<forall>j<k. \<not> bit v j) \<and> ffs_lsb v = (if v = - 1 then - 1 else int k)"
proof -
  obtain k where k: "k < 32" "lowest v k" using lowest_exists [OF assms] by blast
  have "ffs_lsb (- 1) = - 1" by (simp add: ffs_lsb_def)
  then show ?thesis using k ffs_lsb_lowest [OF k(2)] by (auto simp: lowest_def)
qed

theorem ffs_lsb_finds_witness: "\<exists>k. bit (40 :: 32 word) k \<and> ffs_lsb 40 = int k"
  using ffs_lsb_finds [of 40] by auto

text \<open>
  C37. For a positive number of seconds and a normalised, non-negative time, with a sum below the
  largest \<open>time_t\<close>, \<open>timespec_add\<close> gives a time within a nanosecond of the sum.  This holds in
  double precision: each of the three operations may be off by the rounding error of IEEE
  doubles.  The nanoseconds of the result are normalised.
\<close>

theorem timespec_add_right:
  assumes "double_rounding rnd" "0 < x" "0 \<le> tv_nsec t" "tv_nsec t < 1000000000"
    and "0 \<le> tv_sec t" "real_of_int (tv_sec t) + x < 2147483647"
  shows "\<exists>t'. timespec_add rnd (Some t) x = Some t' \<and> \<bar>seconds_of t' - (seconds_of t + x)\<bar> \<le> 1 / 1000000000 \<and>
    0 \<le> tv_nsec t' \<and> tv_nsec t' < 1000000000"
  using timespec_add_near [OF assms] timespec_add_normal [OF assms(3,4), of rnd x] by fastforce

theorem timespec_add_right_witness:
  "\<exists>t'. timespec_add (\<lambda>r. of_int \<lfloor>r * 2 ^ 60\<rfloor> / 2 ^ 60) (Some \<lparr>tv_sec = 1, tv_nsec = 600000000\<rparr>) (1 / 3) = Some t' \<and>
    \<bar>seconds_of t' - (seconds_of \<lparr>tv_sec = 1, tv_nsec = 600000000\<rparr> + 1 / 3)\<bar> \<le> 1 / 1000000000 \<and>
    0 \<le> tv_nsec t' \<and> tv_nsec t' < 1000000000"
proof (rule timespec_add_right)
  show "double_rounding (\<lambda>r. of_int \<lfloor>r * 2 ^ 60\<rfloor> / 2 ^ 60)"
    unfolding double_rounding_def
  proof (intro allI impI)
    fix x :: real
    have "of_int \<lfloor>x * 2 ^ 60\<rfloor> \<le> x * 2 ^ 60" "x * 2 ^ 60 < of_int \<lfloor>x * 2 ^ 60\<rfloor> + 1" by linarith+
    then have "\<bar>of_int \<lfloor>x * 2 ^ 60\<rfloor> / 2 ^ 60 - x\<bar> \<le> 1 / 2 ^ 60" by (simp add: abs_le_iff field_simps)
    moreover have "0 \<le> \<bar>x\<bar> / 2 ^ 53" by simp
    ultimately show "\<bar>of_int \<lfloor>x * 2 ^ 60\<rfloor> / 2 ^ 60 - x\<bar> \<le> \<bar>x\<bar> / 2 ^ 53 + 1 / 2 ^ 60" by linarith
  qed
qed simp_all

text \<open>
  C38. The trace buffer of \<open>utils/tracer.h\<close>, from its constructor: storing records one after another
  returns, and the queued arrays followed by the filled part of the active one are the records in order.
\<close>

theorem tracer_stores_all:
  assumes "tenv_ok env live room" and "separate env live s" and "2 + 2 * length rs \<le> room (t_world s)" "length rs < 2 ^ 32"
  shows "\<exists>s' b h ns qs cur. andthen (Tracer_ctor env) (run_all (addEntry env) rs) s = Some (Inr ((), s')) \<and>
    tb_inv env live s' b h ns qs cur \<and> concat qs @ cur = rs \<and> dumped s' = dumped s"
proof -
  obtain s1 b h where 1: "Tracer_ctor env s = Some (Inr ((), s1))" "tb_inv env live s1 b h [] [] []"
    "room (t_world s1) = room (t_world s) - 2" "dumped s1 = dumped s"
    using Tracer_ctor_inv [OF assms(1) _ assms(2)] assms(3) by auto
  have r: "2 * length rs \<le> room (t_world s1)" "length ([] :: addr list) + length rs < 2 ^ 32"
    using 1(3) assms(3,4) by auto
  obtain s' b' ns qs cur where 2: "run_all (addEntry env) rs s1 = Some (Inr ((), s'))"
    "foldl (add_rec (t_count env)) ([], []) rs = (qs, cur)" "tb_inv env live s' b' h ns qs cur" "dumped s' = dumped s1"
    using addEntry_all [OF 1(2) assms(1) r] by blast
  have "concat qs @ cur = rs" using add_rec_concat [OF 2(2)] by simp
  moreover have "andthen (Tracer_ctor env) (run_all (addEntry env) rs) s = Some (Inr ((), s'))"
    using 1(1) 2(1) by (simp add: andthen_def bnd_def)
  ultimately show ?thesis using 1(4) 2(3,4) by metis
qed

theorem tracer_stores_all_witness:
  "\<exists>s' b h ns qs cur. andthen (Tracer_ctor sample_tenv) (run_all (addEntry sample_tenv) [1, 2, 3]) sample_tracer =
      Some (Inr ((), s')) \<and>
    tb_inv sample_tenv snd s' b h ns qs cur \<and> concat qs @ cur = [1, 2, 3] \<and> dumped s' = []"
  using tracer_stores_all [OF sample_tenv_ok sample_tracer_sel(1), of "[1, 2, 3]"] sample_tracer_sel by simp

text \<open>
  C39. A round of the flush thread while records keep coming in: it sleeps, reads the time of the
  last record, and empties the queue.  Every queued array is handed to the flush callback once, in
  order, and freed: the arrays left are those that were there before without those of the queue.
  Nothing is warned of, and the buffer is back in its invariant with an empty queue and the
  active array as it was.
\<close>

theorem tracer_drains:
  assumes "tb_inv env live s b h ns qs cur" and "tenv_ok env live room" and "0 < room (t_world s)"
    and "\<not> idle env s" and "fst (t_interrupted env (snd (after_sleep env s))) = False"
  shows "\<exists>s' h'. tracer_round env s = Some (Inr ((), s')) \<and> dumped s' = dumped s @ qs \<and> warned s' = warned s \<and>
    tb_inv env live s' b h' [] [] cur \<and> arrays s' = arrays s - {q. Some q \<in> node_buf s ` set ns}"
  using assms by (rule tracer_round_ok)

theorem tracer_drains_witness:
  "\<exists>s b h n s' h'. tb_inv sample_tenv snd s b h [n] [[1, 2, 3, 4]] [5] \<and> tracer_round sample_tenv s = Some (Inr ((), s')) \<and>
    dumped s' = [[1, 2, 3, 4]] \<and> tb_inv sample_tenv snd s' b h' [] [] [5] \<and>
    arrays s' = arrays s - {q. node_buf s n = Some q}"
proof -
  obtain s0 b h n where s0: "tb_inv sample_tenv snd s0 b h [n] [[1, 2, 3, 4]] [5]" "2 \<le> sample_room (t_world s0)" "dumped s0 = []"
    using sample_tracer_filled by blast
  define s where "s = s0\<lparr>ts_v := 100\<rparr>"
  have inv: "tb_inv sample_tenv snd s b h [n] [[1, 2, 3, 4]] [5]"
    using tb_inv_frame [OF s0(1) refl, of 100] by (simp add: s_def)
  have r: "0 < sample_room (t_world s)" and d: "dumped s = []" using s0 by (simp_all add: s_def)
  have i: "\<not> idle sample_tenv s" "fst (t_interrupted sample_tenv (snd (after_sleep sample_tenv s))) = False"
    by (simp_all add: idle_def after_sleep_def sample_tenv_def s_def)
  obtain s' h' where "tracer_round sample_tenv s = Some (Inr ((), s'))" "dumped s' = dumped s @ [[1, 2, 3, 4]]"
    "tb_inv sample_tenv snd s' b h' [] [] [5]" "arrays s' = arrays s - {q. Some q \<in> node_buf s ` set [n]}"
    using tracer_drains [OF inv sample_tenv_ok r i] by blast
  moreover have "{q. Some q \<in> node_buf s ` set [n]} = {q. node_buf s n = Some q}" by auto
  ultimately show ?thesis using inv d by (metis append_Nil)
qed

text \<open>
  C40. The flush on inactivity loses records: it queues an address that is not the active array's, so
  after it neither the active word nor any queued node refers to the array that held them.
\<close>

theorem idle_flush_drops:
  assumes "tb_inv env live s b h ns qs cur" and "tenv_ok env live room" and "2 \<le> room (t_world s)"
    and "length ns + 1 < 2 ^ 32" and "drop_bit 1 (t_max env) < TB_MAX (active_v s) - TB_CURR (active_v s)"
  shows "\<exists>s' n c. idle_flush env s = Some (Inr ((), s')) \<and> cyc s' (h # ns @ [n]) \<and> TB_MAX (active_v s') = c + t_max env \<and>
    c \<noteq> b \<and> (\<forall>m\<in>set (ns @ [n]). node_buf s' m \<noteq> Some b)"
  using assms by (rule idle_flush_loses)

theorem idle_flush_drops_witness:
  "\<exists>s b h n s' m c. tb_inv sample_tenv snd s b h [n] [[1, 2, 3, 4]] [5] \<and> idle_flush sample_tenv s = Some (Inr ((), s')) \<and>
    cyc s' [h, n, m] \<and> TB_MAX (active_v s') = c + t_max sample_tenv \<and> c \<noteq> b \<and>
    node_buf s' n \<noteq> Some b \<and> node_buf s' m \<noteq> Some b"
proof -
  obtain s b h n where s: "tb_inv sample_tenv snd s b h [n] [[1, 2, 3, 4]] [5]" "2 \<le> sample_room (t_world s)"
    using sample_tracer_filled by blast
  have "active_v s = tb_pack (b + 32) (b + 8)" using s(1) by (simp add: tb_inv_def t_max_def)
  then have "drop_bit 1 (t_max sample_tenv) < TB_MAX (active_v s) - TB_CURR (active_v s)" by (simp add: t_max_def)
  from idle_flush_drops [OF s(1) sample_tenv_ok s(2) _ this] show ?thesis using s(1) by fastforce
qed

end
